(* ===== verification/Prelude.thy ===== *)
theory Prelude
  imports Main "HOL-Library.Word"
begin

text \<open>
  Shared vocabulary of the development: the machine integer types of the kernel, the outcome
  type of operations that can fail, and the generic facts on words, bits and lists that the
  component theories rely on.

  A kernel operation that can fail returns a value of \<open>'a result\<close>. \<open>Inl (Panic msg)\<close> is a
  failed \<open>YUV_ASSERT\<close> or a call of \<open>kernel_panic\<close> (the kernel prints \<open>msg\<close> and stops for good);
  \<open>Inl (Undefined why)\<close> is an access or an operation that C++ leaves undefined, such as a write
  outside a fixed-size array; \<open>Inl Diverges\<close> is a loop that never ends. \<open>Inr\<close> is a normal
  return.
\<close>

unbundle bit_operations_syntax

type_synonym u8 = "8 word"
type_synonym u16 = "16 word"
type_synonym u32 = "32 word"
type_synonym u64 = "64 word"

datatype fault = Panic string | Undefined string | Diverges

type_synonym 'a result = "fault + 'a"

definition rbind :: "'a result \<Rightarrow> ('a \<Rightarrow> 'b result) \<Rightarrow> 'b result" where
  "rbind r f = (case r of Inl e \<Rightarrow> Inl e | Inr x \<Rightarrow> f x)"

text \<open>The outcome of a loop defined as a partial function: \<open>None\<close> means that it never ends.\<close>

definition of_loop :: "'a option \<Rightarrow> 'a result" where
  "of_loop r = (case r of None \<Rightarrow> Inl Diverges | Some x \<Rightarrow> Inr x)"

lemma of_loop_simps [simp]: "of_loop None = Inl Diverges" "of_loop (Some x) = Inr x"
  by (simp_all add: of_loop_def)

text \<open>
  \<open>YUV_ASSERT\<close> of panic.h: a failed condition prints its message and ends in \<open>kernel_panic\<close>, which
  does not return.
\<close>

definition YUV_ASSERT :: "bool \<Rightarrow> string \<Rightarrow> unit result" where
  "YUV_ASSERT c msg = (if c then Inr () else Inl (Panic msg))"

named_theorems fault_simps \<open>outcomes of composed fallible operations\<close>
named_theorems mem_simps \<open>loads after stores\<close>

lemma rbind_simps [simp, fault_simps]:
  "rbind (Inl e) f = Inl e"
  "rbind (Inr x) f = f x"
  by (simp_all add: rbind_def)

lemma rbind_eq_Inr [fault_simps]:
  "rbind r f = Inr y \<longleftrightarrow> (\<exists>x. r = Inr x \<and> f x = Inr y)"
  by (cases r) simp_all

lemma rbind_assoc: "rbind (rbind r f) g = rbind r (\<lambda>x. rbind (f x) g)"
  by (cases r) simp_all

section \<open>Words\<close>

lemma unat_u64_less [simp]: "unat (x :: u64) < 2 ^ 64"
  using unsigned_less [of x] by simp

lemma word_of_unat: "(of_nat (unat w) :: 'a word) = (w :: 'a::len word)"
  by (metis of_nat_unat ucast_id)

lemma unat_u32_less [simp]: "unat (x :: u32) < 2 ^ 32"
  using unsigned_less [of x] by simp

lemma unat_of_nat_u64: "n < 2 ^ 64 \<Longrightarrow> unat (of_nat n :: u64) = n"
  by (simp add: unat_of_nat take_bit_nat_eq_self)

lemma unat_of_nat_u32: "n < 2 ^ 32 \<Longrightarrow> unat (of_nat n :: u32) = n"
  by (simp add: unat_of_nat take_bit_nat_eq_self)

text \<open>\<open>ROUND_UP(x, up)\<close> of utils/debug.h.\<close>

definition ROUND_UP :: "u64 \<Rightarrow> u64 \<Rightarrow> u64" where
  "ROUND_UP x up = (x + up - 1) AND (- up)"

lemma and_minus_power_two:
  assumes "k < LENGTH('a)"
  shows "(w :: 'a::len word) AND - (2 ^ k) = word_of_nat (2 ^ k * (unat w div 2 ^ k))"
proof -
  have "w AND - (2 ^ k) = push_bit k (drop_bit k w)"
    by (rule bit_word_eqI) (auto simp: bit_simps minus_exp_eq_not_mask)
  also have "\<dots> = word_of_nat (2 ^ k * (unat w div 2 ^ k))"
  proof -
    have "unat (drop_bit k w) = unat w div 2 ^ k"
      by (simp only: unat_drop_bit_eq) (simp add: drop_bit_eq_div)
    then have "word_of_nat (unat w div 2 ^ k) = drop_bit k w"
      by (metis of_nat_unat ucast_id)
    then show ?thesis by (simp add: push_bit_eq_mult mult.commute)
  qed
  finally show ?thesis .
qed

lemma word_neq_minus_one_iff: "(w :: 'a::len word) \<noteq> - 1 \<longleftrightarrow> (\<exists>i < LENGTH('a). \<not> bit w i)"
proof
  assume "w \<noteq> - 1"
  then show "\<exists>i < LENGTH('a). \<not> bit w i"
    by (auto simp: bit_eq_iff bit_minus_1_iff bit_imp_le_length)
next
  assume "\<exists>i < LENGTH('a). \<not> bit w i"
  then show "w \<noteq> - 1" by auto
qed

lemma word_neq_zero_iff: "(w :: 'a::len word) \<noteq> 0 \<longleftrightarrow> (\<exists>i < LENGTH('a). bit w i)"
  by (auto simp: bit_eq_iff bit_imp_le_length)

lemma bit_255: "bit (255 :: u8) n \<longleftrightarrow> n < 8"
proof -
  have "(255 :: u8) = - 1" by simp
  then show ?thesis by (simp only: bit_minus_1_iff) simp
qed

text \<open>Splitting a bit index into a word index and a position in the word.\<close>

lemma div_mod_64_eq_iff: "i div 64 = j div 64 \<and> i mod 64 = j mod 64 \<longleftrightarrow> i = (j :: nat)"
  by (metis div_mult_mod_eq)

end
