(* ===== verification/Packed.thy ===== *)
theory Packed
  imports Prelude
begin

text \<open>
  Packed structs of bit-fields. The compiler lays the bit-fields of a packed struct out from the least
  significant bit on, in the order of their declaration; \<open>pack_fields\<close> is that layout and
  \<open>unpack_fields\<close> reads it back. A field of width \<open>n\<close> is an \<open>n word\<close> in the record of the struct, so
  that storing a wider value into it truncates, as in C++. The interface \<open>packed_struct\<close> is what the
  descriptor types of the kernel have in common: they fill a machine word exactly, and the word and
  the fields determine each other.
\<close>

fun pack_fields :: "nat list \<Rightarrow> 'w::len word list \<Rightarrow> 'w word" where
  "pack_fields (n # ns) (v # vs) = take_bit n v OR push_bit n (pack_fields ns vs)"
| "pack_fields _ _ = 0"

primrec unpack_fields :: "nat list \<Rightarrow> 'w::len word \<Rightarrow> 'w word list" where
  "unpack_fields [] w = []"
| "unpack_fields (n # ns) w = take_bit n w # unpack_fields ns (drop_bit n w)"

lemma length_unpack_fields [simp]: "length (unpack_fields ns w) = length ns"
  by (induction ns arbitrary: w) simp_all

lemma unpack_fields_take:
  "sum_list ns \<le> k \<Longrightarrow> unpack_fields ns (take_bit k w) = unpack_fields ns w"
proof (induction ns arbitrary: w k)
  case (Cons n ns)
  have "drop_bit n (take_bit k w) = take_bit (k - n) (drop_bit n w)"
    using Cons.prems by (intro bit_word_eqI) (auto simp: bit_simps)
  moreover have "take_bit n (take_bit k w) = take_bit n w" using Cons.prems by simp
  ultimately show ?case using Cons.IH [of "k - n" "drop_bit n w"] Cons.prems by simp
qed simp

lemma unpack_pack:
  fixes vs :: "'w::len word list"
  assumes "length vs = length ns" "sum_list ns \<le> LENGTH('w)"
  shows "unpack_fields ns (pack_fields ns vs) = map2 take_bit ns vs"
  using assms
proof (induction ns arbitrary: vs)
  case (Cons n ns)
  then obtain v vs' where vs: "vs = v # vs'" by (cases vs) auto
  let ?r = "pack_fields ns vs'"
  have "drop_bit n (take_bit n v OR push_bit n ?r) = take_bit (LENGTH('w) - n) ?r"
    by (rule bit_word_eqI) (auto simp: bit_simps)
  moreover have "take_bit n (take_bit n v OR push_bit n ?r) = take_bit n v"
    by (rule bit_word_eqI) (auto simp: bit_simps)
  ultimately show ?case
    using Cons unpack_fields_take [of ns "LENGTH('w) - n" ?r] by (simp add: vs)
qed simp

lemma pack_unpack: "pack_fields ns (unpack_fields ns w) = take_bit (sum_list ns) w"
proof (induction ns arbitrary: w)
  case (Cons n ns)
  show ?case by (rule bit_word_eqI) (auto simp: Cons bit_simps)
qed simp

lemma ucast_ucast_field:
  "LENGTH('a::len) \<le> LENGTH('w::len) \<Longrightarrow> ucast (ucast (v :: 'w word) :: 'a word) = (take_bit LENGTH('a) v :: 'w word)"
  "LENGTH('a::len) \<le> n \<Longrightarrow> take_bit n (ucast (x :: 'a word) :: 'w::len word) = ucast x"
  "LENGTH('a::len) \<le> LENGTH('w::len) \<Longrightarrow> ucast (ucast (x :: 'a word) :: 'w word) = x"
  using bit_imp_le_length [of x] by (fastforce intro!: bit_word_eqI simp: bit_simps)+

lemma ucast_bit_field: "(ucast (x :: 1 word) :: 'w::len word) mod 2 = ucast x"
  using ucast_ucast_field(2) [of 1 x] by (simp add: take_bit_Suc)

locale packed_struct =
  fixes widths :: "nat list"
    and fields :: "'r \<Rightarrow> 'w::len word list"
    and build :: "'w word list \<Rightarrow> 'r"
  assumes widths_word: "sum_list widths = LENGTH('w)"
    and length_fields: "length (fields r) = length widths"
    and fields_fit: "map2 take_bit widths (fields r) = fields r"
    and build_fields: "build (fields r) = r"
    and fields_build: "length vs = length widths \<Longrightarrow> fields (build vs) = map2 take_bit widths vs"
begin

abbreviation encode :: "'r \<Rightarrow> 'w word" where "encode r \<equiv> pack_fields widths (fields r)"
abbreviation decode :: "'w word \<Rightarrow> 'r" where "decode w \<equiv> build (unpack_fields widths w)"

lemma decode_encode: "decode (encode r) = r"
  by (simp add: unpack_pack length_fields widths_word fields_fit build_fields)

lemma encode_decode: "encode (decode w) = w"
proof -
  have "map2 take_bit ns (unpack_fields ns v) = unpack_fields ns v" for ns and v :: "'w word"
    by (induction ns arbitrary: v) simp_all
  then have "encode (decode w) = take_bit LENGTH('w) w"
    by (simp add: fields_build pack_unpack widths_word)
  then show ?thesis by (simp add: take_bit_word_eq_self)
qed

lemma encode_inj: "encode r = encode r' \<longleftrightarrow> r = r'"
  using decode_encode [of r] decode_encode [of r'] by metis

end

end
