(* ===== verification/PageTables.thy ===== *)
theory PageTables
  imports Packed
begin

text \<open>
  The entries of the four levels of page tables and the index macros (memory/paging.h). Each struct
  of bit-fields is a record with fields of the declared widths; its constructor truncates its
  arguments to them. The interpretations of \<open>packed_struct\<close> give the 64-bit word the processor reads
  and that it determines the fields; the bits of the words the constructors make are stated one by one.
\<close>

section \<open>Indices and sizes\<close>

definition TABLE_INDEX :: "u64 \<Rightarrow> nat \<Rightarrow> u64" where
  "TABLE_INDEX addr off = drop_bit off addr AND 0x1ff"

definition PML4_INDX :: "u64 \<Rightarrow> u64" where "PML4_INDX addr = TABLE_INDEX addr 39"
definition PDPT_INDX :: "u64 \<Rightarrow> u64" where "PDPT_INDX addr = TABLE_INDEX addr 30"
definition PD_INDX :: "u64 \<Rightarrow> u64" where "PD_INDX addr = TABLE_INDEX addr 21"
definition PT_INDX :: "u64 \<Rightarrow> u64" where "PT_INDX addr = TABLE_INDEX addr 12"

definition NUM_ENTRIES :: u64 where "NUM_ENTRIES = 512"
definition PD_ENTRY_MAP_SIZE :: u64 where "PD_ENTRY_MAP_SIZE = 0x1000 * NUM_ENTRIES"
definition PDPT_ENTRY_MAP_SIZE :: u64 where "PDPT_ENTRY_MAP_SIZE = PD_ENTRY_MAP_SIZE * NUM_ENTRIES"
definition PML4_ENTRY_MAP_SIZE :: u64 where "PML4_ENTRY_MAP_SIZE = PDPT_ENTRY_MAP_SIZE * NUM_ENTRIES"

section \<open>Entries\<close>

record PML4_entry =
  present :: "1 word"
  rw :: "1 word"
  us :: "1 word"
  pwt :: "1 word"
  pcd :: "1 word"
  a :: "1 word"
  ignored :: "1 word"
  rsvd :: "1 word"
  ignored2 :: "4 word"
  page_table :: "36 word"
  ignored3 :: "15 word"
  xd :: "1 word"

definition PML4_entry_new :: "u8 \<Rightarrow> u8 \<Rightarrow> u8 \<Rightarrow> u8 \<Rightarrow> u64
  \<Rightarrow> u8 \<Rightarrow> PML4_entry" where
  "PML4_entry_new rw0 us0 pwt0 pcd0 pdpt_addr xd0 =
          \<lparr>PML4_entry.present = 1, PML4_entry.rw = ucast rw0, PML4_entry.us = ucast us0,
       PML4_entry.pwt = ucast pwt0, PML4_entry.pcd = ucast pcd0, PML4_entry.a = 0, PML4_entry.ignored = 0,
       PML4_entry.rsvd = 0, PML4_entry.ignored2 = 0, PML4_entry.page_table = ucast (drop_bit 12 pdpt_addr),
       PML4_entry.ignored3 = 0, PML4_entry.xd = ucast xd0\<rparr>"

definition PML4_entry_fields :: "PML4_entry \<Rightarrow> u64 list" where
  "PML4_entry_fields e =
          [ucast (PML4_entry.present e), ucast (PML4_entry.rw e), ucast (PML4_entry.us e), ucast
       (PML4_entry.pwt e), ucast (PML4_entry.pcd e), ucast (PML4_entry.a e), ucast (PML4_entry.ignored e),
       ucast (PML4_entry.rsvd e), ucast (PML4_entry.ignored2 e), ucast (PML4_entry.page_table e), ucast
       (PML4_entry.ignored3 e), ucast (PML4_entry.xd e)]"

definition PML4_entry_build :: "u64 list \<Rightarrow> PML4_entry" where
  "PML4_entry_build vs =
          \<lparr>PML4_entry.present = ucast (vs ! 0), PML4_entry.rw = ucast (vs ! 1), PML4_entry.us = ucast
       (vs ! 2), PML4_entry.pwt = ucast (vs ! 3), PML4_entry.pcd = ucast (vs ! 4), PML4_entry.a = ucast (vs
       ! 5), PML4_entry.ignored = ucast (vs ! 6), PML4_entry.rsvd = ucast (vs ! 7), PML4_entry.ignored2 =
       ucast (vs ! 8), PML4_entry.page_table = ucast (vs ! 9), PML4_entry.ignored3 = ucast (vs ! 10),
       PML4_entry.xd = ucast (vs ! 11)\<rparr>"

record PDPT_entry =
  present :: "1 word"
  rw :: "1 word"
  us :: "1 word"
  pwt :: "1 word"
  pcd :: "1 word"
  a :: "1 word"
  ignored :: "1 word"
  ps :: "1 word"
  ignored2 :: "4 word"
  page_table :: "36 word"
  ignored3 :: "15 word"
  xd :: "1 word"

definition PDPT_entry_new :: "u8 \<Rightarrow> u8 \<Rightarrow> u8 \<Rightarrow> u8 \<Rightarrow> u8
  \<Rightarrow> u64 \<Rightarrow> u8 \<Rightarrow> PDPT_entry" where
  "PDPT_entry_new rw0 us0 pwt0 pcd0 ps0 map_addr xd0 =
          \<lparr>PDPT_entry.present = 1, PDPT_entry.rw = ucast rw0, PDPT_entry.us = ucast us0,
       PDPT_entry.pwt = ucast pwt0, PDPT_entry.pcd = ucast pcd0, PDPT_entry.a = 0, PDPT_entry.ignored = 0,
       PDPT_entry.ps = ucast ps0, PDPT_entry.ignored2 = 0, PDPT_entry.page_table = ucast (drop_bit 12
       map_addr), PDPT_entry.ignored3 = 0, PDPT_entry.xd = ucast xd0\<rparr>"

definition PDPT_entry_fields :: "PDPT_entry \<Rightarrow> u64 list" where
  "PDPT_entry_fields e =
          [ucast (PDPT_entry.present e), ucast (PDPT_entry.rw e), ucast (PDPT_entry.us e), ucast
       (PDPT_entry.pwt e), ucast (PDPT_entry.pcd e), ucast (PDPT_entry.a e), ucast (PDPT_entry.ignored e),
       ucast (PDPT_entry.ps e), ucast (PDPT_entry.ignored2 e), ucast (PDPT_entry.page_table e), ucast
       (PDPT_entry.ignored3 e), ucast (PDPT_entry.xd e)]"

definition PDPT_entry_build :: "u64 list \<Rightarrow> PDPT_entry" where
  "PDPT_entry_build vs =
          \<lparr>PDPT_entry.present = ucast (vs ! 0), PDPT_entry.rw = ucast (vs ! 1), PDPT_entry.us = ucast
       (vs ! 2), PDPT_entry.pwt = ucast (vs ! 3), PDPT_entry.pcd = ucast (vs ! 4), PDPT_entry.a = ucast (vs
       ! 5), PDPT_entry.ignored = ucast (vs ! 6), PDPT_entry.ps = ucast (vs ! 7), PDPT_entry.ignored2 =
       ucast (vs ! 8), PDPT_entry.page_table = ucast (vs ! 9), PDPT_entry.ignored3 = ucast (vs ! 10),
       PDPT_entry.xd = ucast (vs ! 11)\<rparr>"

record PD_entry =
  present :: "1 word"
  rw :: "1 word"
  us :: "1 word"
  pwt :: "1 word"
  pcd :: "1 word"
  a :: "1 word"
  ignored :: "1 word"
  ps :: "1 word"
  ignored2 :: "4 word"
  page_table :: "36 word"
  ignored3 :: "15 word"
  xd :: "1 word"

definition PD_entry_new :: "u8 \<Rightarrow> u8 \<Rightarrow> u8 \<Rightarrow> u8 \<Rightarrow> u8
  \<Rightarrow> u64 \<Rightarrow> u8 \<Rightarrow> PD_entry" where
  "PD_entry_new rw0 us0 pwt0 pcd0 ps0 map_addr xd0 =
          \<lparr>PD_entry.present = 1, PD_entry.rw = ucast rw0, PD_entry.us = ucast us0, PD_entry.pwt =
       ucast pwt0, PD_entry.pcd = ucast pcd0, PD_entry.a = 0, PD_entry.ignored = 0, PD_entry.ps = ucast ps0,
       PD_entry.ignored2 = 0, PD_entry.page_table = ucast (drop_bit 12 map_addr), PD_entry.ignored3 = 0,
       PD_entry.xd = ucast xd0\<rparr>"

definition PD_entry_fields :: "PD_entry \<Rightarrow> u64 list" where
  "PD_entry_fields e =
          [ucast (PD_entry.present e), ucast (PD_entry.rw e), ucast (PD_entry.us e), ucast (PD_entry.pwt e),
       ucast (PD_entry.pcd e), ucast (PD_entry.a e), ucast (PD_entry.ignored e), ucast (PD_entry.ps e),
       ucast (PD_entry.ignored2 e), ucast (PD_entry.page_table e), ucast (PD_entry.ignored3 e), ucast
       (PD_entry.xd e)]"

definition PD_entry_build :: "u64 list \<Rightarrow> PD_entry" where
  "PD_entry_build vs =
          \<lparr>PD_entry.present = ucast (vs ! 0), PD_entry.rw = ucast (vs ! 1), PD_entry.us = ucast (vs !
       2), PD_entry.pwt = ucast (vs ! 3), PD_entry.pcd = ucast (vs ! 4), PD_entry.a = ucast (vs ! 5),
       PD_entry.ignored = ucast (vs ! 6), PD_entry.ps = ucast (vs ! 7), PD_entry.ignored2 = ucast (vs ! 8),
       PD_entry.page_table = ucast (vs ! 9), PD_entry.ignored3 = ucast (vs ! 10), PD_entry.xd = ucast (vs !
       11)\<rparr>"

record PT_entry =
  present :: "1 word"
  rw :: "1 word"
  us :: "1 word"
  pwt :: "1 word"
  pcd :: "1 word"
  a :: "1 word"
  d :: "1 word"
  pat :: "1 word"
  g :: "1 word"
  ignored2 :: "3 word"
  page_frame :: "36 word"
  ignored3 :: "15 word"
  xd :: "1 word"

definition PT_entry_new :: "u8 \<Rightarrow> u8 \<Rightarrow> u8 \<Rightarrow> u8 \<Rightarrow> u64
  \<Rightarrow> u8 \<Rightarrow> PT_entry" where
  "PT_entry_new rw0 us0 pwt0 pcd0 map_addr xd0 =
          \<lparr>PT_entry.present = 1, PT_entry.rw = ucast rw0, PT_entry.us = ucast us0, PT_entry.pwt =
       ucast pwt0, PT_entry.pcd = ucast pcd0, PT_entry.a = 0, PT_entry.d = 0, PT_entry.pat = 0, PT_entry.g =
       0, PT_entry.ignored2 = 0, PT_entry.page_frame = ucast (drop_bit 12 map_addr), PT_entry.ignored3 = 0,
       PT_entry.xd = ucast xd0\<rparr>"

definition PT_entry_fields :: "PT_entry \<Rightarrow> u64 list" where
  "PT_entry_fields e =
          [ucast (PT_entry.present e), ucast (PT_entry.rw e), ucast (PT_entry.us e), ucast (PT_entry.pwt e),
       ucast (PT_entry.pcd e), ucast (PT_entry.a e), ucast (PT_entry.d e), ucast (PT_entry.pat e), ucast
       (PT_entry.g e), ucast (PT_entry.ignored2 e), ucast (PT_entry.page_frame e), ucast (PT_entry.ignored3
       e), ucast (PT_entry.xd e)]"

definition PT_entry_build :: "u64 list \<Rightarrow> PT_entry" where
  "PT_entry_build vs =
          \<lparr>PT_entry.present = ucast (vs ! 0), PT_entry.rw = ucast (vs ! 1), PT_entry.us = ucast (vs !
       2), PT_entry.pwt = ucast (vs ! 3), PT_entry.pcd = ucast (vs ! 4), PT_entry.a = ucast (vs ! 5),
       PT_entry.d = ucast (vs ! 6), PT_entry.pat = ucast (vs ! 7), PT_entry.g = ucast (vs ! 8),
       PT_entry.ignored2 = ucast (vs ! 9), PT_entry.page_frame = ucast (vs ! 10), PT_entry.ignored3 = ucast
       (vs ! 11), PT_entry.xd = ucast (vs ! 12)\<rparr>"

definition entry_widths :: "nat list" where
  "entry_widths = [1, 1, 1, 1, 1, 1, 1, 1, 4, 36, 15, 1]"

definition PT_entry_widths :: "nat list" where
  "PT_entry_widths = [1, 1, 1, 1, 1, 1, 1, 1, 1, 3, 36, 15, 1]"

interpretation pml4: packed_struct entry_widths PML4_entry_fields PML4_entry_build
  by unfold_locales
    (auto simp: entry_widths_def PML4_entry_fields_def PML4_entry_build_def length_Suc_conv ucast_ucast_field ucast_bit_field)

interpretation pdpt: packed_struct entry_widths PDPT_entry_fields PDPT_entry_build
  by unfold_locales
    (auto simp: entry_widths_def PDPT_entry_fields_def PDPT_entry_build_def length_Suc_conv ucast_ucast_field ucast_bit_field)

interpretation pd: packed_struct entry_widths PD_entry_fields PD_entry_build
  by unfold_locales
    (auto simp: entry_widths_def PD_entry_fields_def PD_entry_build_def length_Suc_conv ucast_ucast_field ucast_bit_field)

interpretation pt: packed_struct PT_entry_widths PT_entry_fields PT_entry_build
  by unfold_locales
    (auto simp: PT_entry_widths_def PT_entry_fields_def PT_entry_build_def length_Suc_conv ucast_ucast_field ucast_bit_field)

section \<open>Properties\<close>

text \<open>
  For every kind of page-table entry, the 64-bit word and the fields of the struct determine each other: reading the fields
  back from the word gives the entry, and every word is the word of exactly one entry.
\<close>

theorem page_entry_roundtrip:
  "PML4_entry_build (unpack_fields entry_widths (pack_fields entry_widths (PML4_entry_fields e4))) = e4 \<and>
   PDPT_entry_build (unpack_fields entry_widths (pack_fields entry_widths (PDPT_entry_fields e3))) = e3 \<and>
   PD_entry_build (unpack_fields entry_widths (pack_fields entry_widths (PD_entry_fields e2))) = e2 \<and>
   PT_entry_build (unpack_fields PT_entry_widths (pack_fields PT_entry_widths (PT_entry_fields e1))) = e1 \<and>
   pack_fields entry_widths (PML4_entry_fields (PML4_entry_build (unpack_fields entry_widths w))) = w \<and>
   pack_fields entry_widths (PDPT_entry_fields (PDPT_entry_build (unpack_fields entry_widths w))) = w \<and>
   pack_fields entry_widths (PD_entry_fields (PD_entry_build (unpack_fields entry_widths w))) = w \<and>
   pack_fields PT_entry_widths (PT_entry_fields (PT_entry_build (unpack_fields PT_entry_widths w))) = w"
  by (intro conjI pml4.decode_encode pdpt.decode_encode pd.decode_encode pt.decode_encode
      pml4.encode_decode pdpt.encode_decode pd.encode_decode pt.encode_decode)

text \<open>The word the processor expects: present, the flags at their bits, the frame at bits 12 to 47.\<close>

definition entry_word :: "u8 \<Rightarrow> u8 \<Rightarrow> u8 \<Rightarrow> u8 \<Rightarrow> u8 \<Rightarrow> u64 \<Rightarrow> u8 \<Rightarrow> u64" where
  "entry_word rw0 us0 pwt0 pcd0 ps0 addr xd0 =
     1 OR (if odd rw0 then 2 else 0) OR (if odd us0 then 4 else 0) OR (if odd pwt0 then 8 else 0) OR
     (if odd pcd0 then 16 else 0) OR (if odd ps0 then 128 else 0) OR (addr AND 0x0000FFFFFFFFF000) OR
     (if odd xd0 then 0x8000000000000000 else 0)"

lemma ucast_flag: "(ucast (ucast (x :: u8) :: 1 word) :: u64) = (if odd x then 1 else 0)"
  by (rule bit_word_eqI) (auto simp: bit_simps bit_0 less_Suc0)

lemma frame_bits: "push_bit 12 (take_bit 36 (drop_bit 12 (addr :: u64))) = addr AND 0x0000FFFFFFFFF000"
proof -
  have m: "(0x0000FFFFFFFFF000 :: u64) = push_bit 12 (mask 36)" by (simp add: mask_numeral)
  show ?thesis unfolding m by (intro bit_word_eqI) (auto simp: bit_simps simp del: push_bit_mask_eq)
qed

lemma fields_word:
  "pack_fields entry_widths [1, v1, v2, v3, v4, 0, 0, v7, 0, take_bit 36 v9, 0, v11] =
     1 OR push_bit 1 (take_bit 1 v1) OR push_bit 2 (take_bit 1 v2) OR push_bit 3 (take_bit 1 v3) OR
     push_bit 4 (take_bit 1 v4) OR push_bit 7 (take_bit 1 v7) OR push_bit 12 (take_bit 36 v9) OR
     push_bit 63 (take_bit 1 v11)"
  by (simp add: entry_widths_def push_bit_or or.assoc) (simp add: push_bit_eq_mult mult.commute)

lemma flag_at: "push_bit n (take_bit 1 (if odd x then 1 else 0 :: u64)) = (if odd (x :: u8) then 2 ^ n else 0)"
  by simp

lemma PT_widths: "pack_fields PT_entry_widths [v0, v1, v2, v3, v4, v5, v6, v7, 0, 0, v9, v10, v11] =
  pack_fields entry_widths [v0, v1, v2, v3, v4, v5, v6, v7, 0, v9, v10, v11]"
  by (simp add: PT_entry_widths_def entry_widths_def)

lemma ucast_frame: "(ucast (ucast (x :: u64) :: 36 word) :: u64) = take_bit 36 x"
  using ucast_ucast_field(1) [where 'a = 36, of x] by simp

lemma entry_words:
  "pack_fields entry_widths (PML4_entry_fields (PML4_entry_new rw0 us0 pwt0 pcd0 addr xd0)) =
     entry_word rw0 us0 pwt0 pcd0 0 addr xd0"
  "pack_fields entry_widths (PDPT_entry_fields (PDPT_entry_new rw0 us0 pwt0 pcd0 ps0 addr xd0)) =
     entry_word rw0 us0 pwt0 pcd0 ps0 addr xd0"
  "pack_fields entry_widths (PD_entry_fields (PD_entry_new rw0 us0 pwt0 pcd0 ps0 addr xd0)) =
     entry_word rw0 us0 pwt0 pcd0 ps0 addr xd0"
  "pack_fields PT_entry_widths (PT_entry_fields (PT_entry_new rw0 us0 pwt0 pcd0 addr xd0)) =
     entry_word rw0 us0 pwt0 pcd0 0 addr xd0"
proof -
  let ?f = "\<lambda>x :: u8. if odd x then 1 else 0 :: u64"
  have word: "pack_fields entry_widths [1, ?f rw0, ?f us0, ?f pwt0, ?f pcd0, 0, 0, ?f ps, 0,
      take_bit 36 (drop_bit 12 addr), 0, ?f xd0] = entry_word rw0 us0 pwt0 pcd0 ps addr xd0" for ps
    unfolding fields_word flag_at frame_bits entry_word_def by simp
  show "pack_fields entry_widths (PML4_entry_fields (PML4_entry_new rw0 us0 pwt0 pcd0 addr xd0)) =
     entry_word rw0 us0 pwt0 pcd0 0 addr xd0"
    "pack_fields entry_widths (PDPT_entry_fields (PDPT_entry_new rw0 us0 pwt0 pcd0 ps0 addr xd0)) =
     entry_word rw0 us0 pwt0 pcd0 ps0 addr xd0"
    "pack_fields entry_widths (PD_entry_fields (PD_entry_new rw0 us0 pwt0 pcd0 ps0 addr xd0)) =
     entry_word rw0 us0 pwt0 pcd0 ps0 addr xd0"
    "pack_fields PT_entry_widths (PT_entry_fields (PT_entry_new rw0 us0 pwt0 pcd0 addr xd0)) =
     entry_word rw0 us0 pwt0 pcd0 0 addr xd0"
    using word [of 0] word [of ps0]
    by (simp_all add: PML4_entry_fields_def PML4_entry_new_def PDPT_entry_fields_def PDPT_entry_new_def
        PD_entry_fields_def PD_entry_new_def PT_entry_fields_def PT_entry_new_def PT_widths
        ucast_flag ucast_frame del: pack_fields.simps)
qed

text \<open>The bits of that word.\<close>

lemma bit_entry_word:
  "bit (entry_word rw0 us0 pwt0 pcd0 ps0 p xd0) n \<longleftrightarrow> n = 0 \<or> odd rw0 \<and> n = 1 \<or> odd us0 \<and> n = 2 \<or> odd pwt0 \<and> n = 3 \<or>
    odd pcd0 \<and> n = 4 \<or> odd ps0 \<and> n = 7 \<or> (12 \<le> n \<and> n < 48 \<and> bit p n) \<or> odd xd0 \<and> n = 63"
proof -
  have m: "(0x0000FFFFFFFFF000 :: u64) = push_bit 12 (mask 36)" by (simp add: mask_numeral)
  have p: "bit (p AND 0x0000FFFFFFFFF000) n \<longleftrightarrow> 12 \<le> n \<and> n < 48 \<and> bit p n"
    unfolding m by (auto simp: bit_simps simp del: push_bit_mask_eq)
  have flag: "bit (if odd (f :: u8) then 2 ^ q else 0 :: u64) n \<longleftrightarrow> odd f \<and> n = q" if "q < 64" for f q
    using that by (auto simp: bit_exp_iff)
  have pow: "(2 :: u64) ^ 1 = 2" "(2 :: u64) ^ 2 = 4" "(2 :: u64) ^ 3 = 8" "(2 :: u64) ^ 4 = 16" "(2 :: u64) ^ 7 = 128"
    "(2 :: u64) ^ 63 = 0x8000000000000000" by simp_all
  have q: "(1 :: nat) < 64" "(2 :: nat) < 64" "(3 :: nat) < 64" "(4 :: nat) < 64" "(7 :: nat) < 64" "(63 :: nat) < 64" by simp_all
  note flags = flag [OF q(1)] flag [OF q(2)] flag [OF q(3)] flag [OF q(4)] flag [OF q(5)] flag [OF q(6)]
  show ?thesis by (simp only: entry_word_def bit_or_iff p flags [unfolded pow] bit_1_iff)
qed

text \<open>
  C26: Layout. The constructors of the four kinds of page-table entries give the word that the processor expects, bit by bit:
  bit 0 (present) is set; bits 1, 2, 3, 4 and 63 are the lowest bits of the arguments for write, user, write-through, cache
  disable and execute disable; bit 7 is that of the page size argument in the entries of a PDPT and a PD, and clear in those
  of a PML4 and a page table; bits 12 to 47 are those of the physical address; every other bit is clear.
\<close>

theorem page_entry_bits:
  "(bit (pack_fields entry_widths (PML4_entry_fields (PML4_entry_new rw0 us0 pwt0 pcd0 addr xd0))) n \<longleftrightarrow>
     n = 0 \<or> odd rw0 \<and> n = 1 \<or> odd us0 \<and> n = 2 \<or> odd pwt0 \<and> n = 3 \<or> odd pcd0 \<and> n = 4 \<or>
     (12 \<le> n \<and> n < 48 \<and> bit addr n) \<or> odd xd0 \<and> n = 63) \<and>
   (bit (pack_fields entry_widths (PDPT_entry_fields (PDPT_entry_new rw0 us0 pwt0 pcd0 ps0 addr xd0))) n \<longleftrightarrow>
     n = 0 \<or> odd rw0 \<and> n = 1 \<or> odd us0 \<and> n = 2 \<or> odd pwt0 \<and> n = 3 \<or> odd pcd0 \<and> n = 4 \<or> odd ps0 \<and> n = 7 \<or>
     (12 \<le> n \<and> n < 48 \<and> bit addr n) \<or> odd xd0 \<and> n = 63) \<and>
   (bit (pack_fields entry_widths (PD_entry_fields (PD_entry_new rw0 us0 pwt0 pcd0 ps0 addr xd0))) n \<longleftrightarrow>
     n = 0 \<or> odd rw0 \<and> n = 1 \<or> odd us0 \<and> n = 2 \<or> odd pwt0 \<and> n = 3 \<or> odd pcd0 \<and> n = 4 \<or> odd ps0 \<and> n = 7 \<or>
     (12 \<le> n \<and> n < 48 \<and> bit addr n) \<or> odd xd0 \<and> n = 63) \<and>
   (bit (pack_fields PT_entry_widths (PT_entry_fields (PT_entry_new rw0 us0 pwt0 pcd0 addr xd0))) n \<longleftrightarrow>
     n = 0 \<or> odd rw0 \<and> n = 1 \<or> odd us0 \<and> n = 2 \<or> odd pwt0 \<and> n = 3 \<or> odd pcd0 \<and> n = 4 \<or>
     (12 \<le> n \<and> n < 48 \<and> bit addr n) \<or> odd xd0 \<and> n = 63)"
  by (simp add: entry_words bit_entry_word del: pack_fields.simps bit_numeral_word_iff)

lemma bit_slice: "bit (push_bit k (take_bit m (drop_bit k (w :: u64)))) n \<longleftrightarrow> k \<le> n \<and> n < k + m \<and> bit w n"
  using bit_imp_le_length [of w n] by (auto simp: bit_simps)

text \<open>
  The index macros split an address: each index is below 512, selects the table entry whose
  mapped range (4 KiB times a power of 512) holds the address, and the four indices with the page
  offset put the lower 48 bits of the address together again.
\<close>

theorem table_indices_split:
  "unat (PML4_INDX addr) = unat addr div unat PML4_ENTRY_MAP_SIZE mod 512 \<and>
   unat (PDPT_INDX addr) = unat addr div unat PDPT_ENTRY_MAP_SIZE mod 512 \<and>
   unat (PD_INDX addr) = unat addr div unat PD_ENTRY_MAP_SIZE mod 512 \<and>
   unat (PT_INDX addr) = unat addr div 0x1000 mod 512 \<and>
   push_bit 39 (PML4_INDX addr) OR push_bit 30 (PDPT_INDX addr) OR push_bit 21 (PD_INDX addr) OR
     push_bit 12 (PT_INDX addr) OR (addr AND 0xfff) = take_bit 48 addr"
proof -
  have "(0x1ff :: u64) = mask 9" "(0xfff :: u64) = mask 12" by (simp_all add: mask_numeral)
  then have idx: "TABLE_INDEX addr off = take_bit 9 (drop_bit off addr)" "addr AND 0xfff = take_bit 12 addr" for off
    by (simp_all add: TABLE_INDEX_def take_bit_eq_mask)
  have unat: "unat (TABLE_INDEX addr off) = unat addr div 2 ^ off mod 512" for off
    by (simp only: idx unsigned_take_bit_eq unat_drop_bit_eq) (simp add: take_bit_eq_mod drop_bit_eq_div)
  have "push_bit 39 (take_bit 9 (drop_bit 39 addr)) OR push_bit 30 (take_bit 9 (drop_bit 30 addr)) OR
    push_bit 21 (take_bit 9 (drop_bit 21 addr)) OR push_bit 12 (take_bit 9 (drop_bit 12 addr)) OR take_bit 12 addr
    = take_bit 48 addr"
    by (rule bit_word_eqI) (auto simp: bit_or_iff bit_slice bit_take_bit_iff)
  then show ?thesis
    by (simp add: PML4_INDX_def PDPT_INDX_def PD_INDX_def PT_INDX_def unat PML4_ENTRY_MAP_SIZE_def
        PDPT_ENTRY_MAP_SIZE_def PD_ENTRY_MAP_SIZE_def NUM_ENTRIES_def) (simp add: idx)
qed

end
