(* ===== verification/Memory.thy ===== *)
theory Memory
  imports Prelude
begin

text \<open>
  The machine memory: a function from 64-bit addresses to bytes, with address arithmetic that
  wraps as it does on the machine. \<open>load_le\<close>/\<open>store_le\<close> read and write little-endian integers;
  \<open>load64\<close>/\<open>store64\<close> and \<open>load32\<close> are the accesses through \<open>uint64_t *\<close>, pointer-typed and
  \<open>uint32_t *\<close> lvalues.
\<close>

type_synonym mem = "u64 \<Rightarrow> u8"

primrec load_le :: "nat \<Rightarrow> mem \<Rightarrow> u64 \<Rightarrow> 'a::len word" where
  "load_le 0 m a = 0"
| "load_le (Suc n) m a = ucast (m a) OR push_bit 8 (load_le n m (a + 1))"

definition store_le :: "nat \<Rightarrow> u64 \<Rightarrow> 'a::len word \<Rightarrow> mem \<Rightarrow> mem" where
  "store_le n a v m =
     (\<lambda>b. if b - a < of_nat n then ucast (drop_bit (8 * unat (b - a)) v) else m b)"

definition load64 :: "mem \<Rightarrow> u64 \<Rightarrow> u64" where
  "load64 m a = load_le 8 m a"

definition store64 :: "u64 \<Rightarrow> u64 \<Rightarrow> mem \<Rightarrow> mem" where
  "store64 a v m = store_le 8 a v m"

definition load32 :: "mem \<Rightarrow> u64 \<Rightarrow> u32" where
  "load32 m a = load_le 4 m a"

definition store32 :: "u64 \<Rightarrow> u32 \<Rightarrow> mem \<Rightarrow> mem" where
  "store32 a v m = store_le 4 a v m"

text \<open>Two 8-byte cells do not overlap, on the circle of addresses.\<close>

definition disjoint64 :: "u64 \<Rightarrow> u64 \<Rightarrow> bool" where
  "disjoint64 a b \<longleftrightarrow> 8 \<le> b - a \<and> 8 \<le> a - b"

lemma bit_load_le:
  "bit (load_le n m a :: 'a::len word) k \<longleftrightarrow>
     k < LENGTH('a) \<and> k < 8 * n \<and> bit (m (a + of_nat (k div 8))) (k mod 8)"
proof (induction n arbitrary: a k)
  case 0
  then show ?case by simp
next
  case (Suc n)
  show ?case
  proof (cases "k < 8")
    case True
    then show ?thesis
      by (auto simp: bit_simps bit_push_bit_iff)
  next
    case False
    then have k: "k div 8 = Suc ((k - 8) div 8)" "k mod 8 = (k - 8) mod 8"
      by (simp_all add: le_div_geq le_mod_geq)
    have nb: "\<not> bit (m a) k" using False bit_imp_le_length [of "m a" k] by auto
    have lt: "k - 8 < LENGTH('a)" if "k < LENGTH('a)" using that by simp
    show ?thesis
      using False nb lt by (auto simp: bit_simps bit_push_bit_iff Suc.IH k algebra_simps)
  qed
qed

lemma bit_load64:
  "bit (load64 m a) k \<longleftrightarrow> k < 64 \<and> bit (m (a + of_nat (k div 8))) (k mod 8)"
  by (auto simp: load64_def bit_load_le)

lemma load64_cong:
  assumes "\<And>i. i < 8 \<Longrightarrow> m (a + of_nat i) = m' (a + of_nat i)"
  shows "load64 m a = load64 m' a"
  by (rule bit_word_eqI) (simp add: bit_load64 assms)

lemma load64_store64_same [simp, mem_simps]: "load64 (store64 a v m) a = v"
proof (rule bit_word_eqI)
  fix k assume "k < LENGTH(64)"
  then have k: "k < 64" by simp
  then have d: "k div 8 < 8" by simp
  have u: "unat (of_nat (k div 8) :: u64) = k div 8" using d by (intro unat_of_nat_u64) simp
  have lt: "(of_nat (k div 8) :: u64) < 8" using d by (simp add: word_less_nat_alt u)
  have "8 * (k div 8) + k mod 8 = k" by simp
  then show "bit (load64 (store64 a v m) a) k = bit v k"
    using k lt u by (auto simp: bit_load64 store64_def store_le_def bit_simps bit_drop_bit_eq)
qed

lemma disjoint64_sym: "disjoint64 a b \<longleftrightarrow> disjoint64 b a"
  by (auto simp: disjoint64_def)

lemma disjoint64_offset:
  assumes "disjoint64 a b" "i < 8"
  shows "\<not> (b + of_nat i) - a < 8"
proof -
  have i: "(of_nat i :: u64) < 8"
    using assms(2) by (simp add: word_less_nat_alt unat_of_nat_u64)
  have "8 \<le> x + w" if "8 \<le> x" "8 \<le> - x" "w < 8" for x w :: u64
  proof -
    have "uint (- x) = 2 ^ 64 - uint x"
      using that(1) uint_lt2p [of x] by (simp add: uint_word_ariths zmod_zminus1_eq_if word_le_def)
    then have "uint x + uint w < 2 ^ 64"
      using that by (simp add: word_le_def word_less_def)
    then show ?thesis
      using that(1) by (simp add: word_le_def uint_word_ariths add_increasing2)
  qed
  from this [of "b - a" "of_nat i"] show ?thesis
    using assms(1) i by (simp add: disjoint64_def algebra_simps)
qed

lemma load64_store64_disjoint [simp, mem_simps]:
  assumes "disjoint64 a b"
  shows "load64 (store64 a v m) b = load64 m b"
  by (rule load64_cong) (simp add: store64_def store_le_def disjoint64_offset [OF assms])

lemma store64_frame: "8 \<le> b - a \<Longrightarrow> store64 a v m b = m b"
  by (simp add: store64_def store_le_def leD)

text \<open>The cells of one array of 64-bit words.\<close>

lemma disjoint64_array:
  assumes "i \<noteq> j" "i < 2 ^ 61" "j < 2 ^ 61"
  shows "disjoint64 (a + 8 * of_nat i) (a + 8 * of_nat j)"
proof -
  have neq: "8 \<le> (a + 8 * of_nat q) - (a + 8 * of_nat p)"
    if "p \<noteq> q" "p < 2 ^ 61" "q < 2 ^ 61" for p q :: nat
  proof -
    have "(a + 8 * of_nat q) - (a + 8 * of_nat p) = word_of_int (8 * (int q - int p))"
      by (simp add: algebra_simps)
    moreover have "uint (word_of_int (8 * (int q - int p)) :: u64) = 8 * (int q - int p) mod 2 ^ 64"
      by (simp only: uint_word_of_int take_bit_eq_mod) simp
    moreover have "8 \<le> 8 * (int q - int p) mod (2 ^ 64 :: int)"
    proof -
      have "8 * (int q - int p) mod (8 * 2 ^ 61 :: int) = 8 * ((int q - int p) mod 2 ^ 61)"
        by (simp only: mult_mod_right)
      moreover have "(int q - int p) mod 2 ^ 61 \<noteq> 0"
        using that dvd_imp_le_int [of "int q - int p" "2 ^ 61"] by (auto simp: mod_eq_0_iff_dvd)
      moreover have "0 \<le> (int q - int p) mod (2 ^ 61 :: int)" by simp
      ultimately show ?thesis by simp
    qed
    ultimately show ?thesis by (simp add: word_le_def)
  qed
  show ?thesis using neq [of i j] neq [of j i] assms by (auto simp: disjoint64_def)
qed

text \<open>A 4-byte store changes the low half of the 8-byte cell at its address.\<close>

lemma store32_as_64:
  "store32 a v m = store64 a (ucast v OR push_bit 32 (drop_bit 32 (load64 m a))) m"
proof (rule ext)
  fix b
  let ?i = "unat (b - a)"
  have b: "a + of_nat ?i = b" by simp
  show "store32 a v m b = store64 a (ucast v OR push_bit 32 (drop_bit 32 (load64 m a))) m b"
  proof (cases "?i < 4")
    case True
    have "bit (store32 a v m b) k = bit (store64 a (ucast v OR push_bit 32 (drop_bit 32 (load64 m a))) m b) k" if "k < 8" for k
      using True that by (auto simp: store32_def store64_def store_le_def word_less_nat_alt bit_simps)
    then show ?thesis by (auto intro: bit_word_eqI)
  next
    case False
    have "bit (m b) k = bit (store64 a (ucast v OR push_bit 32 (drop_bit 32 (load64 m a))) m b) k" if "k < 8" for k
    proof (cases "?i < 8")
      case True
      have "\<not> bit v (8 * ?i + k)" using False bit_imp_le_length [of v "8 * ?i + k"] by auto
      moreover have "(8 * ?i + k) div 8 = ?i" "(8 * ?i + k) mod 8 = k" using that by simp_all
      ultimately show ?thesis
        using True False that by (auto simp: store64_def store_le_def word_less_nat_alt bit_simps bit_load64)
    qed (simp add: store64_def store_le_def word_less_nat_alt)
    then have "m b = store64 a (ucast v OR push_bit 32 (drop_bit 32 (load64 m a))) m b" by (auto intro: bit_word_eqI)
    then show ?thesis using False by (simp add: store32_def store_le_def word_less_nat_alt)
  qed
qed

lemma disjoint64_nat:
  assumes "unat a + 8 \<le> unat b \<or> unat b + 8 \<le> unat a" "unat a + 8 \<le> 2 ^ 64" "unat b + 8 \<le> 2 ^ 64"
  shows "disjoint64 a b"
proof -
  have gap: "8 \<le> y - x" "8 \<le> x - y" if "unat x + 8 \<le> unat y" "unat y + 8 \<le> 2 ^ 64" for x y :: u64
  proof -
    have "unat (y - x) = unat y - unat x" using that by (intro unat_sub) (simp add: word_le_nat_alt)
    moreover have "unat (x - y) = 2 ^ 64 + unat x - unat y"
      using that unat_sub_if' [of x y] by (simp split: if_splits)
    ultimately show "8 \<le> y - x" "8 \<le> x - y" using that by (simp_all add: word_le_nat_alt)
  qed
  show ?thesis using assms gap [of a b] gap [of b a] by (auto simp: disjoint64_def)
qed

lemma load32_bytes:
  "load32 m a = ucast (m a) OR push_bit 8 (ucast (m (a + 1))) OR push_bit 16 (ucast (m (a + 2))) OR
     push_bit 24 (ucast (m (a + 3)))"
  by (simp add: load32_def eval_nat_numeral push_bit_or or.assoc add.assoc)

end
