(* ===== verification/DumbAlloc.thy ===== *)
theory DumbAlloc
  imports Memory
begin

text \<open>
  \<open>DumbAllocator\<close> (memory/dumb_allocator.h, memory/dumb_allocator.cpp): the bump allocator the
  kernel uses before paging is set up, and the interface \<open>allocator\<close> that the template
  \<open>dynamic_bitset<Allocator>\<close> expects of its parameter.
\<close>

record dumb_allocator =
  m_mem_end :: u64

definition DumbAllocator_init :: "u64 \<Rightarrow> dumb_allocator \<Rightarrow> dumb_allocator" where
  "DumbAllocator_init mem_end a = a\<lparr>m_mem_end := mem_end\<rparr>"

definition DumbAllocator_alloc :: "u64 \<Rightarrow> dumb_allocator \<Rightarrow> u64 \<times> dumb_allocator" where
  "DumbAllocator_alloc alloc_size a =
     (let retval = m_mem_end a in (retval, a\<lparr>m_mem_end := m_mem_end a + alloc_size\<rparr>))"

definition DumbAllocator_free :: "u64 \<Rightarrow> dumb_allocator \<Rightarrow> dumb_allocator" where
  "DumbAllocator_free p a = a"

definition DumbAllocator_mem_end :: "dumb_allocator \<Rightarrow> u64" where
  "DumbAllocator_mem_end a = m_mem_end a"

text \<open>A sequence of allocations, the blocks in the order they were returned.\<close>

fun alloc_seq :: "(u64 \<Rightarrow> 'al \<Rightarrow> u64 \<times> 'al) \<Rightarrow> u64 list \<Rightarrow> 'al \<Rightarrow> (u64 \<times> u64) list \<times> 'al" where
  "alloc_seq alloc [] a = ([], a)"
| "alloc_seq alloc (sz # szs) a =
     (let (p, a') = alloc sz a; (bs, a'') = alloc_seq alloc szs a' in ((p, sz) # bs, a''))"

definition block :: "u64 \<times> u64 \<Rightarrow> nat set" where
  "block b = {unat (fst b) ..< unat (fst b) + unat (snd b)}"

text \<open>
  What a client may rely on: the memory below the allocator's mark is taken, and a request that
  fits returns a block that starts at or after the mark and ends at or below the new mark.
\<close>

locale allocator =
  fixes alloc :: "u64 \<Rightarrow> 'al \<Rightarrow> u64 \<times> 'al"
    and taken :: "'al \<Rightarrow> nat"
  assumes alloc_above: "taken a + unat sz < 2 ^ 64 \<Longrightarrow> alloc sz a = (p, a') \<Longrightarrow>
      taken a \<le> unat p \<and> unat p + unat sz \<le> taken a'"
    and alloc_tight: "taken a + unat sz < 2 ^ 64 \<Longrightarrow> alloc sz a = (p, a') \<Longrightarrow>
      taken a' \<le> taken a + unat sz"
begin

lemma alloc_seq_above:
  assumes "taken a + sum_list (map unat szs) < 2 ^ 64" "alloc_seq alloc szs a = (bs, a')"
  shows "taken a \<le> taken a' \<and> taken a' \<le> taken a + sum_list (map unat szs)
    \<and> (\<forall>b \<in> set bs. block b \<subseteq> {taken a ..< taken a'})"
  using assms
proof (induction szs arbitrary: a bs a')
  case Nil
  then show ?case by simp
next
  case (Cons sz szs)
  obtain p a1 where h: "alloc sz a = (p, a1)" by (cases "alloc sz a") auto
  obtain bs1 a2 where t: "alloc_seq alloc szs a1 = (bs1, a2)" by (cases "alloc_seq alloc szs a1") auto
  have eq: "bs = (p, sz) # bs1" "a' = a2" using Cons.prems(2) h t by simp_all
  have fit: "taken a + unat sz < 2 ^ 64" using Cons.prems(1) by simp
  note one = alloc_above [OF fit h] alloc_tight [OF fit h]
  have "taken a1 + sum_list (map unat szs) < 2 ^ 64" using one Cons.prems(1) by simp
  note rest = Cons.IH [OF this t]
  show ?case using one rest eq by (fastforce simp: block_def)
qed

lemma alloc_seq_disjoint:
  assumes "taken a + sum_list (map unat szs) < 2 ^ 64" "alloc_seq alloc szs a = (bs, a')"
    "i < j" "j < length bs"
  shows "block (bs ! i) \<inter> block (bs ! j) = {}"
  using assms
proof (induction szs arbitrary: a bs a' i j)
  case Nil
  then show ?case by simp
next
  case (Cons sz szs)
  obtain p a1 where h: "alloc sz a = (p, a1)" by (cases "alloc sz a") auto
  obtain bs1 a2 where t: "alloc_seq alloc szs a1 = (bs1, a2)" by (cases "alloc_seq alloc szs a1") auto
  have eq: "bs = (p, sz) # bs1" "a' = a2" using Cons.prems(2) h t by simp_all
  have fit: "taken a + unat sz < 2 ^ 64" using Cons.prems(1) by simp
  note one = alloc_above [OF fit h] alloc_tight [OF fit h]
  have fit1: "taken a1 + sum_list (map unat szs) < 2 ^ 64" using one Cons.prems(1) by simp
  obtain j' where j: "j = Suc j'" "j' < length bs1" using Cons.prems(3,4) eq by (cases j) auto
  show ?case
  proof (cases i)
    case 0
    have "block (bs1 ! j') \<subseteq> {taken a1 ..< taken a2}"
      using alloc_seq_above [OF fit1 t] j(2) by auto
    then show ?thesis using 0 j eq one by (auto simp: block_def)
  next
    case (Suc i')
    then show ?thesis using Cons.IH [OF fit1 t, of i' j'] Cons.prems(3) j eq by simp
  qed
qed

end

lemma unat_add_no_wrap: "unat (x :: u64) + unat y < 2 ^ 64 \<Longrightarrow> unat (x + y) = unat x + unat y"
  by (simp add: unat_word_ariths)

interpretation dumb: allocator DumbAllocator_alloc "\<lambda>a. unat (m_mem_end a)"
  by unfold_locales (auto simp: DumbAllocator_alloc_def Let_def unat_add_no_wrap)

lemma DumbAllocator_alloc_seq_len:
  "alloc_seq DumbAllocator_alloc szs a = (bs, a') \<Longrightarrow> map snd bs = szs"
  by (induction szs arbitrary: a bs) (auto split: prod.splits)

text \<open>
  The bump allocator never hands out overlapping memory: in any sequence of allocations whose
  total size does not run past the end of the address space, the blocks returned are pairwise
  disjoint and all lie between the old and the new end mark.
\<close>

theorem DumbAllocator_blocks_disjoint:
  assumes "unat (m_mem_end a) + sum_list (map unat szs) < 2 ^ 64"
    and "alloc_seq DumbAllocator_alloc szs a = (bs, a')"
  shows "(\<forall>i j. i < j \<and> j < length bs \<longrightarrow> block (bs ! i) \<inter> block (bs ! j) = {})
    \<and> (\<forall>b \<in> set bs. block b \<subseteq> {unat (m_mem_end a) ..< unat (m_mem_end a')})"
  using dumb.alloc_seq_disjoint [OF assms] dumb.alloc_seq_above [OF assms] by blast

theorem DumbAllocator_blocks_disjoint_witness:
  "block (0x1000, 16) \<inter> block (0x1010, 32) = {}"
  using DumbAllocator_blocks_disjoint
    [of "\<lparr>m_mem_end = 0x1000\<rparr>" "[16, 32]" "[(0x1000, 16), (0x1010, 32)]" "\<lparr>m_mem_end = 0x1030\<rparr>"]
  by (fastforce simp: DumbAllocator_alloc_def)

end
