(* ===== verification/Bitset.thy ===== *)
theory Bitset
  imports DumbAlloc
begin

text \<open>
  \<open>std::dynamic_bitset\<close> (utils/datastructs/dynamic_bitset.h): a bit vector stored in an array of
  64-bit words at \<open>m_set\<close>. The words live in the machine memory, which every operation takes and
  the writing ones return; a bit is addressed through the proxy class \<open>reference\<close>.

  The scanning and filling loops count with a 64-bit index and test \<open>indx * 64 < bound\<close>, which
  wraps; they are partial functions, and the lemmas \<open>scan_words_spec\<close> and \<open>fill_words_spec\<close> show
  that they end and what they compute whenever the bound leaves room for one more word.
\<close>

record dynamic_bitset =
  m_set :: u64
  m_bitcount :: u64

definition dynamic_bitset_new ::
  "(u64 \<Rightarrow> 'al \<Rightarrow> u64 \<times> 'al) \<Rightarrow> u64 \<Rightarrow> 'al \<Rightarrow> dynamic_bitset \<times> 'al" where
  "dynamic_bitset_new alloc bitcount a =
     (let alloc_size = ROUND_UP (drop_bit 3 bitcount) 8;
          (p, a') = alloc alloc_size a
      in (\<lparr>m_set = p, m_bitcount = bitcount\<rparr>, a'))"

definition dynamic_bitset_delete :: "(u64 \<Rightarrow> 'al \<Rightarrow> 'al) \<Rightarrow> dynamic_bitset \<Rightarrow> 'al \<Rightarrow> 'al" where
  "dynamic_bitset_delete free s a = free (m_set s) a"

definition word_at :: "mem \<Rightarrow> dynamic_bitset \<Rightarrow> u64 \<Rightarrow> u64" where
  "word_at m s indx = load64 m (m_set s + 8 * indx)"

definition get_word :: "dynamic_bitset \<Rightarrow> u64 \<Rightarrow> u64" where
  "get_word s pos = m_set s + 8 * (pos div 64)"

text \<open>\<open>1ULL << pos\<close> is defined for shift counts below the width only.\<close>

definition bitmask :: "u64 \<Rightarrow> u64 result" where
  "bitmask pos =
     (if pos < 64 then Inr (push_bit (unat pos) 1) else Inl (Undefined ''shift count too large''))"

definition subscript_const :: "mem \<Rightarrow> dynamic_bitset \<Rightarrow> u64 \<Rightarrow> bool result" where
  "subscript_const m s pos =
     rbind (bitmask pos) (\<lambda>b. Inr (word_at m s (pos div 64) AND b \<noteq> 0))"

section \<open>The proxy class \<open>reference\<close>\<close>

record reference =
  m_word_p :: u64
  m_pos :: u64

definition subscript :: "dynamic_bitset \<Rightarrow> u64 \<Rightarrow> reference" where
  "subscript s pos = \<lparr>m_word_p = get_word s pos, m_pos = pos mod 64\<rparr>"

definition reference_set :: "reference \<Rightarrow> mem \<Rightarrow> mem result" where
  "reference_set r m =
     rbind (bitmask (m_pos r)) (\<lambda>b. Inr (store64 (m_word_p r) (load64 m (m_word_p r) OR b) m))"

definition reference_clear :: "reference \<Rightarrow> mem \<Rightarrow> mem result" where
  "reference_clear r m =
     rbind (bitmask (m_pos r)) (\<lambda>b. Inr (store64 (m_word_p r) (load64 m (m_word_p r) AND NOT b) m))"

definition reference_flip :: "reference \<Rightarrow> mem \<Rightarrow> mem result" where
  "reference_flip r m =
     rbind (bitmask (m_pos r)) (\<lambda>b. Inr (store64 (m_word_p r) (load64 m (m_word_p r) XOR b) m))"

definition reference_bool :: "reference \<Rightarrow> mem \<Rightarrow> bool result" where
  "reference_bool r m = rbind (bitmask (m_pos r)) (\<lambda>b. Inr (load64 m (m_word_p r) AND b \<noteq> 0))"

definition reference_not :: "reference \<Rightarrow> mem \<Rightarrow> bool result" where
  "reference_not r m = rbind (bitmask (m_pos r)) (\<lambda>b. Inr (load64 m (m_word_p r) AND b = 0))"

definition reference_assign_bool :: "reference \<Rightarrow> bool \<Rightarrow> mem \<Rightarrow> mem result" where
  "reference_assign_bool r x m =
     rbind (bitmask (m_pos r))
       (\<lambda>b. if x then Inr (store64 (m_word_p r) (load64 m (m_word_p r) OR b) m)
             else Inr (store64 (m_word_p r) (load64 m (m_word_p r) AND NOT b) m))"

definition reference_assign :: "reference \<Rightarrow> reference \<Rightarrow> mem \<Rightarrow> mem result" where
  "reference_assign r j m =
     rbind (bitmask (m_pos j)) (\<lambda>bj.
       if load64 m (m_word_p j) AND bj \<noteq> 0
       then rbind (bitmask (m_pos r)) (\<lambda>b. Inr (store64 (m_word_p r) (load64 m (m_word_p r) OR b) m))
       else rbind (bitmask (m_pos r)) (\<lambda>b. Inr (store64 (m_word_p r) (load64 m (m_word_p r) AND NOT b) m)))"

section \<open>Scans and fills\<close>

text \<open>\<open>for (; indx * 64 < bound; indx++) if (stop(m_set[indx])) break;\<close> and its final index.\<close>

partial_function (option) scan_words ::
  "(u64 \<Rightarrow> bool) \<Rightarrow> mem \<Rightarrow> dynamic_bitset \<Rightarrow> u64 \<Rightarrow> u64 \<Rightarrow> u64 option" where
  "scan_words stop m s bound indx =
     (if indx * 64 < bound
      then if stop (word_at m s indx) then Some indx else scan_words stop m s bound (indx + 1)
      else Some indx)"

text \<open>\<open>for (; indx * 64 < bound; indx++) m_set[indx] = v;\<close>\<close>

partial_function (option) fill_words ::
  "u64 \<Rightarrow> dynamic_bitset \<Rightarrow> u64 \<Rightarrow> u64 \<Rightarrow> mem \<Rightarrow> mem option" where
  "fill_words v s bound indx m =
     (if indx * 64 < bound
      then fill_words v s bound (indx + 1) (store64 (m_set s + 8 * indx) v m)
      else Some m)"

text \<open>\<open>__builtin_ctzll\<close>: the number of trailing zeros, undefined at zero.\<close>

fun ctz_from :: "u64 \<Rightarrow> nat \<Rightarrow> nat \<Rightarrow> nat" where
  "ctz_from w i 0 = i"
| "ctz_from w i (Suc n) = (if bit w i then i else ctz_from w (Suc i) n)"

definition ctzll :: "u64 \<Rightarrow> u64 result" where
  "ctzll w = (if w = 0 then Inl (Undefined ''ctzll of zero'') else Inr (of_nat (ctz_from w 0 64)))"

definition first_set :: "mem \<Rightarrow> dynamic_bitset \<Rightarrow> u64 result" where
  "first_set m s =
     rbind (of_loop (scan_words (\<lambda>w. w \<noteq> 0) m s (m_bitcount s) 0)) (\<lambda>indx.
     rbind (YUV_ASSERT (\<not> indx * 64 \<ge> m_bitcount s) ''Your set was zero dumbass'') (\<lambda>_.
     rbind (ctzll (word_at m s indx)) (\<lambda>c. Inr (indx * 64 + c))))"

definition first_clear :: "mem \<Rightarrow> dynamic_bitset \<Rightarrow> u64 result" where
  "first_clear m s =
     rbind (of_loop (scan_words (\<lambda>w. w \<noteq> - 1) m s (m_bitcount s) 0)) (\<lambda>indx.
     rbind (YUV_ASSERT (\<not> indx * 64 \<ge> m_bitcount s) ''Your set doesnt have clear bits dumbass'') (\<lambda>_.
     rbind (ctzll (NOT (word_at m s indx))) (\<lambda>c. Inr (indx * 64 + c))))"

definition is_zero :: "mem \<Rightarrow> dynamic_bitset \<Rightarrow> bool result" where
  "is_zero m s =
     rbind (of_loop (scan_words (\<lambda>w. w \<noteq> 0) m s (m_bitcount s) 0)) (\<lambda>indx.
       Inr (\<not> indx * 64 < m_bitcount s))"

definition has_zero :: "mem \<Rightarrow> dynamic_bitset \<Rightarrow> bool result" where
  "has_zero m s =
     rbind (of_loop (scan_words (\<lambda>w. w \<noteq> - 1) m s (m_bitcount s - 1) 0)) (\<lambda>indx.
       if indx * 64 < m_bitcount s - 1 then Inr True
       else let remainder = m_bitcount s mod 64;
                low = push_bit (unat remainder) 1 - 1
            in Inr (remainder > 0 \<and> word_at m s indx AND low \<noteq> low))"

definition bitset_clear :: "dynamic_bitset \<Rightarrow> mem \<Rightarrow> mem result" where
  "bitset_clear s m = of_loop (fill_words 0 s (m_bitcount s + 63) 0 m)"

definition bitset_set :: "dynamic_bitset \<Rightarrow> mem \<Rightarrow> mem result" where
  "bitset_set s m = of_loop (fill_words (- 1) s (m_bitcount s + 63) 0 m)"

section \<open>The bits of a bitset\<close>

text \<open>The abstraction: bit \<open>i\<close> of the vector.\<close>

definition bits :: "mem \<Rightarrow> dynamic_bitset \<Rightarrow> nat \<Rightarrow> bool" where
  "bits m s i = bit (word_at m s (of_nat (i div 64))) (i mod 64)"

definition words_below :: "u64 \<Rightarrow> nat" where
  "words_below bound = (unat bound + 63) div 64"

definition room :: "u64 \<Rightarrow> bool" where
  "room bound \<longleftrightarrow> unat bound \<le> 2 ^ 64 - 64"

lemma words_below_small: "words_below bound \<le> 2 ^ 58"
  using unat_u64_less [of bound] by (simp add: words_below_def)

lemma unat_word_index:
  "i \<le> words_below b \<Longrightarrow> unat (of_nat i :: u64) = i"
  using words_below_small [of b] by (intro unat_of_nat_u64) simp

lemma loop_guard:
  assumes "room bound" "i \<le> words_below bound"
  shows "(of_nat i :: u64) * 64 < bound \<longleftrightarrow> i < words_below bound"
proof -
  have "i * 64 \<le> unat bound + 63" using assms(2) by (simp add: words_below_def)
  then have lt: "i * 64 < 2 ^ 64" using assms(1) by (simp add: room_def)
  have "unat ((of_nat i :: u64) * 64) = i * 64"
    using lt unat_word_index [OF assms(2)] by (simp add: unat_word_ariths)
  then show ?thesis by (auto simp: word_less_nat_alt words_below_def)
qed

lemma scan_words_from:
  assumes "room bound" "i \<le> words_below bound"
  shows "\<exists>r. i \<le> r \<and> r \<le> words_below bound \<and> scan_words stop m s bound (of_nat i) = Some (of_nat r)
    \<and> (\<forall>j. i \<le> j \<and> j < r \<longrightarrow> \<not> stop (word_at m s (of_nat j)))
    \<and> (r < words_below bound \<longrightarrow> stop (word_at m s (of_nat r)))"
  using assms(2)
proof (induction "words_below bound - i" arbitrary: i)
  case 0
  then show ?case
    using loop_guard [OF assms(1), of i] by (intro exI [of _ i]) (auto simp: scan_words.simps)
next
  case (Suc d)
  then have i: "i < words_below bound" by simp
  then have g: "(of_nat i :: u64) * 64 < bound" using loop_guard [OF assms(1), of i] by simp
  show ?case
  proof (cases "stop (word_at m s (of_nat i))")
    case True
    then show ?thesis using i g by (intro exI [of _ i]) (auto simp: scan_words.simps)
  next
    case False
    obtain r where r: "Suc i \<le> r" "r \<le> words_below bound"
      "scan_words stop m s bound (of_nat (Suc i)) = Some (of_nat r)"
      "\<forall>j. Suc i \<le> j \<and> j < r \<longrightarrow> \<not> stop (word_at m s (of_nat j))"
      "r < words_below bound \<longrightarrow> stop (word_at m s (of_nat r))"
    proof -
      have "d = words_below bound - Suc i" using Suc.hyps(2) by simp
      from Suc.hyps(1) [OF this] i that show thesis by (auto simp del: of_nat_Suc)
    qed
    have "scan_words stop m s bound (of_nat i) = Some (of_nat r)"
      using g False r(3) by (simp add: scan_words.simps [of stop m s bound "of_nat i"] add.commute)
    then show ?thesis
      using r False by (intro exI [of _ r]) (metis Suc_leD le_antisym not_less_eq_eq)
  qed
qed

lemma scan_words_spec:
  assumes "room bound"
  obtains r where "r \<le> words_below bound" "scan_words stop m s bound 0 = Some (of_nat r)"
    "\<And>j. j < r \<Longrightarrow> \<not> stop (word_at m s (of_nat j))"
    "r < words_below bound \<Longrightarrow> stop (word_at m s (of_nat r))"
  using scan_words_from [OF assms, of 0 stop m s] by auto

lemma fill_words_from:
  assumes "room bound" "i \<le> words_below bound"
  shows "fill_words v s bound (of_nat i) m =
    Some (fold (\<lambda>j. store64 (m_set s + 8 * of_nat j) v) [i ..< words_below bound] m)"
  using assms(2)
proof (induction "words_below bound - i" arbitrary: i m)
  case 0
  then show ?case using loop_guard [OF assms(1), of i] by (simp add: fill_words.simps)
next
  case (Suc d)
  then have i: "i < words_below bound" by simp
  then have g: "(of_nat i :: u64) * 64 < bound" using loop_guard [OF assms(1), of i] by simp
  show ?case
    using g i Suc.hyps(1) [of "Suc i"] Suc.hyps(2)
    by (simp add: fill_words.simps [of v s bound "of_nat i"] upt_conv_Cons add.commute)
qed

lemma word_at_store_other:
  assumes "i \<noteq> j" "i < 2 ^ 61" "j < 2 ^ 61"
  shows "word_at (store64 (m_set s + 8 * of_nat i) v m) s (of_nat j) = word_at m s (of_nat j)"
  using disjoint64_array [OF assms] by (simp add: word_at_def)

lemma word_at_store_same:
  "word_at (store64 (m_set s + 8 * of_nat i) v m) s (of_nat i) = v"
  by (simp add: word_at_def)

lemma word_at_fill:
  assumes "set js \<subseteq> {..<2 ^ 61}" "j < 2 ^ 61"
  shows "word_at (fold (\<lambda>j. store64 (m_set s + 8 * of_nat j) v) js m) s (of_nat j) =
    (if j \<in> set js then v else word_at m s (of_nat j))"
  using assms(1)
proof (induction js arbitrary: m)
  case Nil
  then show ?case by simp
next
  case (Cons k js)
  then show ?case
    using assms(2) by (cases "k = j") (auto simp: word_at_store_same word_at_store_other)
qed

lemma ctz_from_spec:
  "i \<le> ctz_from w i n \<and> ctz_from w i n \<le> i + n \<and> (\<forall>j. i \<le> j \<and> j < ctz_from w i n \<longrightarrow> \<not> bit w j)
   \<and> (ctz_from w i n < i + n \<longrightarrow> bit w (ctz_from w i n))"
proof (induction n arbitrary: i)
  case 0
  then show ?case by auto
next
  case (Suc n)
  then show ?case
  proof (cases "bit w i")
    case False
    have "\<not> bit w j" if "i \<le> j" "j < ctz_from w (Suc i) n" for j
      using that Suc.IH [of "Suc i"] False by (cases "j = i") auto
    then show ?thesis using Suc.IH [of "Suc i"] False by auto
  qed auto
qed

lemma ctzll_spec:
  assumes "w \<noteq> 0"
  obtains c where "ctzll w = Inr (of_nat c)" "c < 64" "bit w c" "\<And>j. j < c \<Longrightarrow> \<not> bit w j"
proof -
  obtain i where i: "i < 64" "bit w i" using assms by (auto simp: word_neq_zero_iff)
  have "ctz_from w 0 64 < 64"
  proof (rule ccontr)
    assume "\<not> ctz_from w 0 64 < 64"
    then have "i < ctz_from w 0 64" using i by simp
    then show False using ctz_from_spec [of 0 w 64] i by auto
  qed
  then show ?thesis
    using that [of "ctz_from w 0 64"] ctz_from_spec [of 0 w 64] assms by (simp add: ctzll_def)
qed

lemma unat_bit_index:
  assumes "room b" "r < words_below b" "c < 64"
  shows "unat (of_nat r * 64 + of_nat c :: u64) = 64 * r + c"
proof -
  have "64 * r + c < 2 ^ 64" using assms by (simp add: words_below_def room_def)
  then have "unat (of_nat (64 * r + c) :: u64) = 64 * r + c" by (rule unat_of_nat_u64)
  then show ?thesis by (simp add: mult.commute)
qed

lemma bits_split: "c < 64 \<Longrightarrow> bits m s (64 * r + c) = bit (word_at m s (of_nat r)) c"
  by (simp add: bits_def)

text \<open>
  A scan for the first word that differs from a filler word (all ones or all zeros) finds the
  first bit that differs; both \<open>first_set\<close> and \<open>first_clear\<close> are instances.
\<close>

lemma scan_first_bit:
  assumes room: "room (m_bitcount s)" and stop: "\<And>w :: u64. stop w \<longleftrightarrow> (f w :: u64) \<noteq> 0"
    and f: "\<And>w i. i < 64 \<Longrightarrow> bit (f w) i \<longleftrightarrow> bit w i = v"
    and r_def: "r = rbind (of_loop (scan_words stop m s (m_bitcount s) 0)) (\<lambda>indx.
     rbind (YUV_ASSERT (\<not> indx * 64 \<ge> m_bitcount s) msg) (\<lambda>_.
     rbind (ctzll (f (word_at m s indx))) (\<lambda>c. Inr (indx * 64 + c))))"
  shows "if \<exists>i < 64 * words_below (m_bitcount s). bits m s i = v
    then \<exists>p. r = Inr p \<and> unat p < 64 * words_below (m_bitcount s) \<and> bits m s (unat p) = v
      \<and> (\<forall>j < unat p. bits m s j \<noteq> v)
    else r = Inl (Panic msg)"
proof -
  let ?n = "words_below (m_bitcount s)"
  obtain k where k: "k \<le> ?n" "scan_words stop m s (m_bitcount s) 0 = Some (of_nat k)"
    "\<And>j. j < k \<Longrightarrow> \<not> stop (word_at m s (of_nat j))" "k < ?n \<Longrightarrow> stop (word_at m s (of_nat k))"
    by (rule scan_words_spec [OF room, of stop m s]) blast
  note guard = loop_guard [OF room k(1)]
  have before: "bits m s i \<noteq> v" if "i div 64 < k" for i
    using k(3) [OF that] f [of "i mod 64" "word_at m s (of_nat (i div 64))"]
    by (auto simp: stop bits_def)
  show ?thesis
  proof (cases "k < ?n")
    case False
    then have "r = Inl (Panic msg)" using k(2) guard by (simp add: r_def YUV_ASSERT_def not_less)
    moreover have "bits m s i \<noteq> v" if "i < 64 * ?n" for i
      using before [of i] that False k(1) by (simp add: div_less_iff_less_mult)
    ultimately show ?thesis by auto
  next
    case True
    obtain c where c: "ctzll (f (word_at m s (of_nat k))) = Inr (of_nat c)" "c < 64"
      "bit (f (word_at m s (of_nat k))) c" "\<And>j. j < c \<Longrightarrow> \<not> bit (f (word_at m s (of_nat k))) j"
      using k(4) [OF True] by (auto simp: stop elim: ctzll_spec)
    have u: "unat (of_nat k * 64 + of_nat c :: u64) = 64 * k + c"
      by (rule unat_bit_index [OF room True c(2)])
    have r: "r = Inr (of_nat k * 64 + of_nat c)"
      using k(2) c(1) guard True by (simp add: r_def YUV_ASSERT_def not_le)
    have hit: "bits m s (64 * k + c) = v" using c f by (simp add: bits_split)
    have less: "bits m s j \<noteq> v" if "j < 64 * k + c" for j
    proof (cases "j div 64 < k")
      case False
      moreover have "j div 64 < Suc k" using that c(2) by (simp add: div_less_iff_less_mult)
      ultimately have jk: "j div 64 = k" by simp
      have j: "64 * (j div 64) + j mod 64 = j" by simp
      then have "j = 64 * k + j mod 64" using jk by simp
      moreover from this have "j mod 64 < c" using that by linarith
      ultimately have "j = 64 * k + j mod 64" "j mod 64 < c" by simp_all
      then show ?thesis using c(2,4) f bits_split [of "j mod 64" m s k] by (metis mod_less_divisor zero_less_numeral)
    qed (rule before)
    have "64 * k + c < 64 * ?n" using True c(2) by linarith
    then show ?thesis using r u hit less by auto
  qed
qed

lemma first_clear_spec:
  assumes "room (m_bitcount s)"
  shows "if \<exists>i < 64 * words_below (m_bitcount s). \<not> bits m s i
    then \<exists>p. first_clear m s = Inr p \<and> unat p < 64 * words_below (m_bitcount s)
      \<and> \<not> bits m s (unat p) \<and> (\<forall>j < unat p. bits m s j)
    else first_clear m s = Inl (Panic ''Your set doesnt have clear bits dumbass'')"
proof -
  have stop: "w \<noteq> - 1 \<longleftrightarrow> NOT w \<noteq> 0" for w :: u64
    by (metis bit.compl_zero bit.double_compl)
  show ?thesis
    using scan_first_bit [where f = "\<lambda>w. NOT w" and v = False, OF assms stop _ first_clear_def [of m s]]
    by (auto simp: bit_not_iff split: if_splits)
qed

lemma first_set_spec:
  assumes "room (m_bitcount s)"
  shows "if \<exists>i < 64 * words_below (m_bitcount s). bits m s i
    then \<exists>p. first_set m s = Inr p \<and> unat p < 64 * words_below (m_bitcount s)
      \<and> bits m s (unat p) \<and> (\<forall>j < unat p. \<not> bits m s j)
    else first_set m s = Inl (Panic ''Your set was zero dumbass'')"
  using scan_first_bit [where f = "\<lambda>w. w" and v = True, OF assms refl _ first_set_def [of m s]]
  by (auto split: if_splits)

section \<open>Writing one bit\<close>

lemma get_word_eq: "get_word s pos = m_set s + 8 * of_nat (unat pos div 64)"
  by (simp add: get_word_def word_arith_nat_div)

lemma bitmask_subscript: "bitmask (pos mod 64) = Inr (push_bit (unat pos mod 64) 1)"
proof -
  have "unat (pos mod 64) = unat pos mod 64" by (simp add: unat_mod_distrib)
  then show ?thesis by (simp add: bitmask_def word_less_nat_alt)
qed

lemma bits_store_word:
  assumes "i < 2 ^ 64"
  shows "bits (store64 (get_word s pos) w m) s i =
    (if i div 64 = unat pos div 64 then bit w (i mod 64) else bits m s i)"
proof -
  have "i div 64 < 2 ^ 61" "unat pos div 64 < 2 ^ 61"
    using assms unat_u64_less [of pos] by (simp_all add: div_less_iff_less_mult)
  then show ?thesis
    by (auto simp: bits_def get_word_eq word_at_store_same word_at_store_other)
qed

lemma bit_mask64: "i < 64 \<Longrightarrow> bit (2 ^ k :: u64) i \<longleftrightarrow> i = k"
  by (auto simp: bit_simps)

lemma and_mask64: "k < 64 \<Longrightarrow> (w :: u64) AND 2 ^ k = 0 \<longleftrightarrow> \<not> bit w k"
  by (auto simp: bit_eq_iff [of "w AND 2 ^ k"] bit_and_iff bit_exp_iff)

lemma load_get_word: "load64 m (get_word s pos) = word_at m s (of_nat (unat pos div 64))"
  by (simp add: get_word_eq word_at_def)

text \<open>Combining the addressed word with the mask changes the addressed bit only.\<close>

lemma bits_update:
  assumes "i < 2 ^ 64"
    and other: "\<And>j. j < 64 \<Longrightarrow> j \<noteq> unat pos mod 64 \<Longrightarrow> bit w j = bit (load64 m (get_word s pos)) j"
  shows "bits (store64 (get_word s pos) w m) s i =
    (if i = unat pos then bit w (unat pos mod 64) else bits m s i)"
proof (cases "i div 64 = unat pos div 64")
  case True
  then have "i = unat pos \<longleftrightarrow> i mod 64 = unat pos mod 64"
    using div_mod_64_eq_iff [of i "unat pos"] by auto
  then show ?thesis
    using True other [of "i mod 64"] by (auto simp: bits_store_word [OF assms(1)] load_get_word bits_def [of m])
next
  case False
  then show ?thesis by (auto simp: bits_store_word [OF assms(1)])
qed

lemmas reference_defs =
  reference_set_def reference_clear_def reference_flip_def reference_bool_def reference_not_def
  reference_assign_bool_def reference_assign_def subscript_def

lemma reference_set_spec:
  "\<exists>m'. reference_set (subscript s pos) m = Inr m'
     \<and> (\<forall>i < 2 ^ 64. bits m' s i = (i = unat pos \<or> bits m s i))"
  by (auto simp: reference_defs bitmask_subscript bits_update bit_or_iff bit_mask64)

lemma reference_clear_spec:
  "\<exists>m'. reference_clear (subscript s pos) m = Inr m'
     \<and> (\<forall>i < 2 ^ 64. bits m' s i = (i \<noteq> unat pos \<and> bits m s i))"
  by (auto simp: reference_defs bitmask_subscript bits_update bit_and_iff bit_not_iff bit_mask64)

lemma reference_flip_spec:
  "\<exists>m'. reference_flip (subscript s pos) m = Inr m'
     \<and> (\<forall>i < 2 ^ 64. bits m' s i = (bits m s i \<noteq> (i = unat pos)))"
  by (auto simp: reference_defs bitmask_subscript bits_update bit_xor_iff bit_mask64
      bits_def [of m] load_get_word)

lemma reference_bool_spec: "reference_bool (subscript s pos) m = Inr (bits m s (unat pos))"
  by (simp add: reference_defs bitmask_subscript bits_def load_get_word and_mask64)

lemma reference_not_spec: "reference_not (subscript s pos) m = Inr (\<not> bits m s (unat pos))"
  by (simp add: reference_defs bitmask_subscript bits_def load_get_word and_mask64)

lemma reference_assign_bool_eq:
  "reference_assign_bool r x m = (if x then reference_set r m else reference_clear r m)"
  by (auto simp: reference_assign_bool_def reference_set_def reference_clear_def rbind_def split: sum.splits)

lemma reference_assign_eq:
  "reference_assign r j m = rbind (reference_bool j m) (\<lambda>x. reference_assign_bool r x m)"
  by (auto simp: reference_assign_def reference_assign_bool_def reference_bool_def rbind_def
      split: sum.splits)

section \<open>Whole-set operations\<close>

lemma bits_fill:
  assumes "n \<le> 2 ^ 58" "i < 2 ^ 64"
  shows "bits (fold (\<lambda>j. store64 (m_set s + 8 * of_nat j) v) [0..<n] m) s i =
    (if i < 64 * n then bit v (i mod 64) else bits m s i)"
proof -
  have "i div 64 < 2 ^ 61" using assms(2) by (simp add: div_less_iff_less_mult)
  moreover have "set [0..<n] \<subseteq> {..<2 ^ 61}" using assms(1) by auto
  ultimately have "word_at (fold (\<lambda>j. store64 (m_set s + 8 * of_nat j) v) [0..<n] m) s (of_nat (i div 64)) =
    (if i div 64 \<in> set [0..<n] then v else word_at m s (of_nat (i div 64)))"
    by (intro word_at_fill)
  moreover have "i div 64 < n \<longleftrightarrow> i < 64 * n" by (simp add: div_less_iff_less_mult mult.commute)
  ultimately show ?thesis by (simp add: bits_def)
qed

lemma fill_spec:
  assumes "room (m_bitcount s + 63)"
  shows "\<exists>m'. of_loop (fill_words v s (m_bitcount s + 63) 0 m) = Inr m'
    \<and> (\<forall>i < 2 ^ 64. bits m' s i =
        (if i < 64 * words_below (m_bitcount s + 63) then bit v (i mod 64) else bits m s i))"
  using fill_words_from [OF assms, of 0 v s m] words_below_small [of "m_bitcount s + 63"]
  by (simp add: bits_fill)

lemma words_below_fill:
  assumes "unat (m_bitcount s) \<le> 2 ^ 64 - 127"
  shows "room (m_bitcount s + 63)"
    "words_below (m_bitcount s + 63) = (unat (m_bitcount s) + 126) div 64"
proof -
  have "unat (m_bitcount s + 63) = unat (m_bitcount s) + 63"
    using assms by (intro unat_add_no_wrap [of _ 63, simplified]) simp
  then show "room (m_bitcount s + 63)"
    "words_below (m_bitcount s + 63) = (unat (m_bitcount s) + 126) div 64"
    using assms by (simp_all add: room_def words_below_def)
qed

lemma scan_guard_iff:
  assumes room: "room bound" and stop: "\<And>w :: u64. stop w \<longleftrightarrow> (\<exists>c < 64. bit w c = v)"
  obtains k where "scan_words stop m s bound 0 = Some (of_nat k)" "k \<le> words_below bound"
    "of_nat k * 64 < bound \<longleftrightarrow> (\<exists>i < 64 * words_below bound. bits m s i = v)"
proof -
  obtain k where k: "k \<le> words_below bound" "scan_words stop m s bound 0 = Some (of_nat k)"
    "\<And>j. j < k \<Longrightarrow> \<not> stop (word_at m s (of_nat j))"
    "k < words_below bound \<Longrightarrow> stop (word_at m s (of_nat k))"
    by (rule scan_words_spec [OF room, of stop m s]) blast
  have "k < words_below bound \<longleftrightarrow> (\<exists>i < 64 * words_below bound. bits m s i = v)"
  proof
    assume less: "k < words_below bound"
    then obtain c where "c < 64" "bits m s (64 * k + c) = v"
      using k(4) by (auto simp: stop bits_split)
    then show "\<exists>i < 64 * words_below bound. bits m s i = v" using less by (intro exI [of _ "64 * k + c"]) auto
  next
    assume "\<exists>i < 64 * words_below bound. bits m s i = v"
    then obtain i where i: "i < 64 * words_below bound" "bits m s i = v" by blast
    have "i div 64 < words_below bound" using i(1) by (simp add: div_less_iff_less_mult mult.commute)
    moreover have "stop (word_at m s (of_nat (i div 64)))"
      using i(2) by (auto simp: stop bits_def intro!: exI [of _ "i mod 64"])
    ultimately show "k < words_below bound" using k(1,3) by (metis le_neq_implies_less)
  qed
  then show ?thesis using that k loop_guard [OF room k(1)] by fastforce
qed

lemma is_zero_spec:
  assumes "room (m_bitcount s)"
  shows "is_zero m s = Inr (\<forall>i < 64 * words_below (m_bitcount s). \<not> bits m s i)"
proof -
  have stop: "w \<noteq> 0 \<longleftrightarrow> (\<exists>c < 64. bit w c = True)" for w :: u64
    by (simp add: word_neq_zero_iff)
  obtain k where "scan_words (\<lambda>w. w \<noteq> 0) m s (m_bitcount s) 0 = Some (of_nat k)"
    "of_nat k * 64 < m_bitcount s \<longleftrightarrow> (\<exists>i < 64 * words_below (m_bitcount s). bits m s i = True)"
    by (rule scan_guard_iff [OF assms stop, of m s])
  then show ?thesis by (simp add: is_zero_def)
qed

lemma word64_neq_ones: "w \<noteq> - 1 \<longleftrightarrow> (\<exists>c < 64. bit w c = False)" for w :: u64
  by (simp add: word_neq_minus_one_iff)

text \<open>When the size is a positive multiple of 64, \<open>has_zero\<close> decides whether a bit is clear.\<close>

lemma has_zero_spec:
  assumes "64 dvd unat (m_bitcount s)" "0 < unat (m_bitcount s)"
  shows "has_zero m s = Inr (\<exists>i < unat (m_bitcount s). \<not> bits m s i)"
proof -
  let ?n = "m_bitcount s"
  obtain q where q: "unat ?n = 64 * q" "0 < q" using assms by (auto elim: dvdE)
  have lt: "64 * q < 2 ^ 64" using q(1) unat_u64_less [of ?n] by simp
  have "1 \<le> ?n" using assms(2) by (simp add: word_le_nat_alt)
  then have minus: "unat (?n - 1) = 64 * q - 1" using q by (simp add: unat_sub)
  have room: "room (?n - 1)" using minus lt by (simp add: room_def)
  have wb: "words_below (?n - 1) = q" using minus q(2) by (simp add: words_below_def)
  have rem: "?n mod 64 = 0" using q by (simp add: word_arith_nat_mod)
  obtain k where k: "scan_words (\<lambda>w. w \<noteq> - 1) m s (?n - 1) 0 = Some (of_nat k)"
    "of_nat k * 64 < ?n - 1 \<longleftrightarrow> (\<exists>i < 64 * words_below (?n - 1). bits m s i = False)"
    by (rule scan_guard_iff [OF room word64_neq_ones, of m s])
  then show ?thesis using wb q rem by (simp add: has_zero_def)
qed

text \<open>The number of bytes the constructor asks for: whole words for the whole bytes of the set.\<close>

lemma alloc_size_eq: "ROUND_UP (drop_bit 3 n) 8 = of_nat (8 * ((unat n div 8 + 7) div 8))"
proof -
  have u: "unat (drop_bit 3 n) = unat n div 8" by (simp only: unat_drop_bit_eq) (simp add: drop_bit_eq_div)
  have "unat (drop_bit 3 n + 7) = unat n div 8 + 7"
    using u unat_u64_less [of n] by (simp add: unat_word_ariths)
  then show ?thesis
    using and_minus_power_two [of 3 "drop_bit 3 n + 7"] by (simp add: ROUND_UP_def add.commute)
qed

lemma unat_alloc_size: "unat (ROUND_UP (drop_bit 3 n) 8) = 8 * ((unat n div 8 + 7) div 8)"
  unfolding alloc_size_eq using unat_u64_less [of n] by (intro unat_of_nat_u64) simp

section \<open>The interface the page allocators use\<close>

text \<open>
  A bit vector with a search for the first clear bit. \<open>cap\<close> is the number of bits the search
  looks at and \<open>ok\<close> the condition under which the loops end. The two laws of \<open>find\<close> and the two
  update laws are all that the page allocators use.
\<close>

definition claim_first ::
  "('s \<Rightarrow> u64 result) \<Rightarrow> (u64 \<Rightarrow> 's \<Rightarrow> 's result) \<Rightarrow> 's \<Rightarrow> (u64 \<times> 's) result" where
  "claim_first search mark s = rbind (search s) (\<lambda>i. rbind (mark i s) (\<lambda>s'. Inr (i, s')))"

locale bit_vector =
  fixes get :: "'s \<Rightarrow> nat \<Rightarrow> bool"
    and search :: "'s \<Rightarrow> u64 result"
    and mark :: "u64 \<Rightarrow> 's \<Rightarrow> 's result"
    and unmark :: "u64 \<Rightarrow> 's \<Rightarrow> 's result"
    and cap :: "'s \<Rightarrow> nat"
    and ok :: "'s \<Rightarrow> bool"
    and full :: fault
  assumes cap_small: "ok s \<Longrightarrow> cap s \<le> 2 ^ 64"
    and search_some: "ok s \<Longrightarrow> i < cap s \<Longrightarrow> \<not> get s i \<Longrightarrow>
      \<exists>p. search s = Inr p \<and> unat p < cap s \<and> \<not> get s (unat p) \<and> (\<forall>j < unat p. get s j)"
    and search_none: "ok s \<Longrightarrow> (\<And>i. i < cap s \<Longrightarrow> get s i) \<Longrightarrow> search s = Inl full"
    and mark_get: "ok s \<Longrightarrow> \<exists>s'. mark p s = Inr s' \<and> ok s' \<and> cap s' = cap s
      \<and> (\<forall>i < 2 ^ 64. get s' i = (i = unat p \<or> get s i))"
    and unmark_get: "ok s \<Longrightarrow> \<exists>s'. unmark p s = Inr s' \<and> ok s' \<and> cap s' = cap s
      \<and> (\<forall>i < 2 ^ 64. get s' i = (i \<noteq> unat p \<and> get s i))"
begin

lemma claim_first_some:
  assumes "ok s" "i < cap s" "\<not> get s i"
  obtains p s' where "claim_first search mark s = Inr (p, s')" "ok s'" "cap s' = cap s"
    "unat p < cap s" "\<not> get s (unat p)" "\<And>j. j < unat p \<Longrightarrow> get s j"
    "\<And>j. j < 2 ^ 64 \<Longrightarrow> get s' j = (j = unat p \<or> get s j)"
proof -
  obtain p where p: "search s = Inr p" "unat p < cap s" "\<not> get s (unat p)" "\<forall>j < unat p. get s j"
    using search_some [OF assms] by blast
  moreover obtain s' where "mark p s = Inr s'" "ok s'" "cap s' = cap s"
    "\<forall>i < 2 ^ 64. get s' i = (i = unat p \<or> get s i)"
    using mark_get [OF assms(1)] by blast
  ultimately show ?thesis using that [of p s'] by (simp add: claim_first_def)
qed

lemma claim_first_full:
  "ok s \<Longrightarrow> (\<And>i. i < cap s \<Longrightarrow> get s i) \<Longrightarrow> claim_first search mark s = Inl full"
  by (simp add: claim_first_def search_none)

lemma claim_first_iff:
  assumes "ok s"
  shows "(\<exists>p s'. claim_first search mark s = Inr (p, s')) \<longleftrightarrow> (\<exists>i < cap s. \<not> get s i)"
  using claim_first_some [OF assms] claim_first_full [OF assms] by (metis Inl_Inr_False)

end

text \<open>A bitset in memory, as the state of the interface.\<close>

type_synonym bitset_state = "mem \<times> dynamic_bitset"

definition bs_get :: "bitset_state \<Rightarrow> nat \<Rightarrow> bool" where
  "bs_get ms i = bits (fst ms) (snd ms) i"

definition bs_find :: "bitset_state \<Rightarrow> u64 result" where
  "bs_find ms = first_clear (fst ms) (snd ms)"

definition bs_mark :: "u64 \<Rightarrow> bitset_state \<Rightarrow> bitset_state result" where
  "bs_mark pos ms = rbind (reference_set (subscript (snd ms) pos) (fst ms)) (\<lambda>m. Inr (m, snd ms))"

definition bs_unmark :: "u64 \<Rightarrow> bitset_state \<Rightarrow> bitset_state result" where
  "bs_unmark pos ms = rbind (reference_clear (subscript (snd ms) pos) (fst ms)) (\<lambda>m. Inr (m, snd ms))"

definition bs_cap :: "bitset_state \<Rightarrow> nat" where
  "bs_cap ms = 64 * words_below (m_bitcount (snd ms))"

lemmas bs_defs = bs_get_def bs_find_def bs_mark_def bs_unmark_def bs_cap_def

interpretation bsv: bit_vector bs_get bs_find bs_mark bs_unmark bs_cap
  "\<lambda>ms. room (m_bitcount (snd ms))" "Panic ''Your set doesnt have clear bits dumbass''"
proof (unfold_locales, goal_cases)
  case (1 ms)
  then show ?case using words_below_small [of "m_bitcount (snd ms)"] by (simp add: bs_cap_def)
next
  case (2 ms i)
  then show ?case using first_clear_spec [of "snd ms" "fst ms"] by (auto simp: bs_defs split: if_splits)
next
  case (3 ms)
  then show ?case using first_clear_spec [of "snd ms" "fst ms"] by (auto simp: bs_defs split: if_splits)
next
  case (4 ms p)
  then show ?case using reference_set_spec [of "snd ms" p "fst ms"] by (auto simp: bs_defs)
next
  case (5 ms p)
  then show ?case using reference_clear_spec [of "snd ms" p "fst ms"] by (auto simp: bs_defs)
qed

lemma split_64:
  fixes n :: nat
  assumes "\<And>q r. n = 64 * q + r \<Longrightarrow> r < 64 \<Longrightarrow> thesis"
  shows thesis
  by (rule assms [of "n div 64" "n mod 64"]) simp_all

lemma add_64_div:
  "(64 * q + r + c) div 64 = q + (r + c) div (64 :: nat)"
  "((64 * q + r) div 8 + 7) div 8 = q + (r div 8 + 7) div (8 :: nat)"
proof -
  show "(64 * q + r + c) div 64 = q + (r + c) div (64 :: nat)" by (simp add: add.assoc)
  have "(64 * q + r) div 8 = 8 * q + r div (8 :: nat)"
    using div_mult_self4 [of 8 "8 * q" r] by (simp add: mult.assoc)
  then show "((64 * q + r) div 8 + 7) div 8 = q + (r div 8 + 7) div (8 :: nat)"
    by (simp add: add.assoc)
qed

lemma ceil_64:
  assumes "r < (64 :: nat)"
  shows "(r + 63) div 64 = (if r = 0 then 0 else 1)"
    and "(r + 126) div 64 = (if r \<le> 1 then 1 else 2)"
    and "(r div 8 + 7) div 8 = (if r < 8 then 0 else 1)"
  using assms by (auto intro!: div_nat_eqI)

section \<open>Properties\<close>

text \<open>
  C17: \<open>first_clear\<close> returns the least clear bit among the bits it scans (whole words up to the
  size of the set) if there is one, and otherwise panics; it never runs forever as long as the
  size leaves room for one more word.
\<close>

theorem bitset_first_clear_least:
  assumes "room (m_bitcount s)"
  shows "if \<exists>i < 64 * words_below (m_bitcount s). \<not> bits m s i
    then \<exists>p. first_clear m s = Inr p \<and> unat p < 64 * words_below (m_bitcount s)
      \<and> \<not> bits m s (unat p) \<and> (\<forall>j < unat p. bits m s j)
    else first_clear m s = Inl (Panic ''Your set doesnt have clear bits dumbass'')"
  by (rule first_clear_spec [OF assms])

lemma load_le_zero [simp]: "load_le n (\<lambda>_. 0) a = (0 :: 'a::len word)"
  by (induction n arbitrary: a) simp_all

lemma bits_zero_mem [simp]: "\<not> bits (\<lambda>_. 0) s i"
  by (simp add: bits_def word_at_def load64_def)

theorem bitset_first_clear_least_witness:
  "first_clear (\<lambda>_. 0) \<lparr>m_set = 0x1000, m_bitcount = 128\<rparr> = Inr 0"
proof -
  let ?s = "\<lparr>m_set = 0x1000, m_bitcount = 128\<rparr> :: dynamic_bitset"
  have room: "room (m_bitcount ?s)" and n: "words_below (m_bitcount ?s) = 2"
    by (simp_all add: room_def words_below_def)
  obtain p where "first_clear (\<lambda>_. 0) ?s = Inr p" "\<forall>j < unat p. bits (\<lambda>_. 0) ?s j"
    using bitset_first_clear_least [OF room, of "\<lambda>_. 0"] n
    by (auto split: if_splits dest: spec [of _ 0])
  then show ?thesis by (metis bits_zero_mem gr0I unat_0_iff)
qed

text \<open>
  The proxy returned by \<open>operator[]\<close> addresses exactly one bit: \<open>set\<close>, \<open>clear\<close> and \<open>flip\<close>
  change that bit as their names say and no other bit of the set, reading gives its value, and
  none of them ever shifts by a count outside the word.
\<close>

theorem bitset_reference_one_bit:
  "(\<exists>m'. reference_set (subscript s pos) m = Inr m'
      \<and> (\<forall>i < 2 ^ 64. bits m' s i = (i = unat pos \<or> bits m s i)))
   \<and> (\<exists>m'. reference_clear (subscript s pos) m = Inr m'
      \<and> (\<forall>i < 2 ^ 64. bits m' s i = (i \<noteq> unat pos \<and> bits m s i)))
   \<and> (\<exists>m'. reference_flip (subscript s pos) m = Inr m'
      \<and> (\<forall>i < 2 ^ 64. bits m' s i = (bits m s i \<noteq> (i = unat pos))))
   \<and> reference_bool (subscript s pos) m = Inr (bits m s (unat pos))
   \<and> reference_not (subscript s pos) m = Inr (\<not> bits m s (unat pos))"
  using reference_set_spec reference_clear_spec reference_flip_spec reference_bool_spec
    reference_not_spec by blast

theorem bitset_reference_one_bit_witness:
  "\<exists>m'. reference_set (subscript \<lparr>m_set = 0x1000, m_bitcount = 128\<rparr> 70) (\<lambda>_. 0) = Inr m'
     \<and> bits m' \<lparr>m_set = 0x1000, m_bitcount = 128\<rparr> 70
     \<and> \<not> bits m' \<lparr>m_set = 0x1000, m_bitcount = 128\<rparr> 71"
  using bitset_reference_one_bit [of "\<lparr>m_set = 0x1000, m_bitcount = 128\<rparr>" 70 "\<lambda>_. 0"] by auto

text \<open>
  \<open>clear()\<close> clears every bit of the set. It also clears more: its loop bound \<open>m_bitcount + 63\<close>
  makes it write \<open>(m_bitcount + 126) div 64\<close> words, which for every size but those of the form
  \<open>64 k + 1\<close> is one word more than the set has.
\<close>

theorem bitset_clear_effect:
  assumes "unat (m_bitcount s) \<le> 2 ^ 64 - 127"
  shows "\<exists>m'. bitset_clear s m = Inr m'
    \<and> (\<forall>i < 2 ^ 64. bits m' s i = (64 * ((unat (m_bitcount s) + 126) div 64) \<le> i \<and> bits m s i))
    \<and> (unat (m_bitcount s) + 126) div 64
       = words_below (m_bitcount s) + (if unat (m_bitcount s) mod 64 = 1 then 0 else 1)"
proof -
  have "(n + 126) div 64 = (n + 63) div 64 + (if n mod 64 = 1 then 0 else 1)" for n :: nat
    by (rule split_64 [of n]) (simp add: add_64_div ceil_64)
  then show ?thesis
    using fill_spec [OF words_below_fill(1) [OF assms], of 0 m]
    unfolding bitset_clear_def words_below_fill(2) [OF assms] by (auto simp: words_below_def)
qed

theorem bitset_clear_effect_witness:
  "\<exists>m'. bitset_clear \<lparr>m_set = 0x1000, m_bitcount = 64\<rparr> (\<lambda>_. 1) = Inr m'
     \<and> \<not> bits m' \<lparr>m_set = 0x1000, m_bitcount = 64\<rparr> 64"
  using bitset_clear_effect [of "\<lparr>m_set = 0x1000, m_bitcount = 64\<rparr>" "\<lambda>_. 1"] by auto

text \<open>
  The constructor's request covers all words the set uses exactly when the size is not
  congruent to 1, \<dots>, 7 modulo 64: the byte count is rounded down before it is rounded up to whole
  words, so the last few bits of such a set have no memory.
\<close>

theorem bitset_alloc_covers_iff:
  assumes "unat (m_mem_end a) + unat n < 2 ^ 64"
    and "dynamic_bitset_new DumbAllocator_alloc n a = (s, a')"
  shows "unat (m_set s) + 8 * words_below (m_bitcount s) \<le> unat (m_mem_end a')
    \<longleftrightarrow> unat n mod 64 \<notin> {1..7}"
proof -
  let ?sz = "8 * ((unat n div 8 + 7) div 8)"
  obtain q r where n: "unat n = 64 * q + r" "r < 64" by (rule split_64)
  have sz: "unat (ROUND_UP (drop_bit 3 n) 8) = 8 * (q + (r div 8 + 7) div 8)"
    unfolding unat_alloc_size n(1) by (simp only: add_64_div)
  have s: "m_set s = m_mem_end a" "m_bitcount s = n"
    "m_mem_end a' = m_mem_end a + ROUND_UP (drop_bit 3 n) 8"
    using assms(2) by (auto simp: dynamic_bitset_new_def DumbAllocator_alloc_def Let_def)
  have "8 * (q + (r div 8 + 7) div 8) \<le> unat n" using n by (simp add: ceil_64)
  then have "unat (m_mem_end a') = unat (m_mem_end a) + 8 * (q + (r div 8 + 7) div 8)"
    using assms(1) sz unfolding s(3) by (subst unat_add_no_wrap) simp_all
  moreover have "words_below n = q + (r + 63) div 64" by (simp add: words_below_def n add_64_div)
  ultimately show ?thesis using n by (auto simp: s ceil_64)
qed

theorem bitset_alloc_covers_iff_witness:
  "\<not> unat (0x1000 :: u64) + 8 * words_below 65
     \<le> unat (m_mem_end (snd (dynamic_bitset_new DumbAllocator_alloc 65 \<lparr>m_mem_end = 0x1000\<rparr>)))"
  using bitset_alloc_covers_iff [of "\<lparr>m_mem_end = 0x1000\<rparr>" 65,
      OF _ prod.collapse [symmetric]]
  by (simp add: dynamic_bitset_new_def DumbAllocator_alloc_def Let_def)

text \<open>
  \<open>has_zero\<close> decides whether a bit of the set is clear when the size is a positive multiple of
  64. For any other size with more than one bit in the last word a clear bit beyond the size makes
  it answer true, even if every bit of the set is set.
\<close>

theorem bitset_has_zero:
  assumes "0 < unat (m_bitcount s)" and "room (m_bitcount s)"
  shows "(64 dvd unat (m_bitcount s) \<longrightarrow>
      has_zero m s = Inr (\<exists>i < unat (m_bitcount s). \<not> bits m s i))
    \<and> (1 < unat (m_bitcount s) mod 64 \<longrightarrow>
      (\<exists>i < 64 * words_below (m_bitcount s). unat (m_bitcount s) \<le> i \<and> \<not> bits m s i) \<longrightarrow>
      has_zero m s = Inr True)"
proof (intro conjI impI)
  assume "64 dvd unat (m_bitcount s)"
  then show "has_zero m s = Inr (\<exists>i < unat (m_bitcount s). \<not> bits m s i)"
    by (rule has_zero_spec [OF _ assms(1)])
next
  let ?n = "m_bitcount s"
  assume r: "1 < unat ?n mod 64" and stray: "\<exists>i < 64 * words_below ?n. unat ?n \<le> i \<and> \<not> bits m s i"
  have minus: "unat (?n - 1) = unat ?n - 1" using assms(1) by (simp add: unat_sub word_le_nat_alt)
  obtain q t where n: "unat ?n = 64 * q + t" "t < 64" by (rule split_64)
  have "(unat ?n - 1 + 63) div 64 = (64 * q + t + 62) div 64" using r n by simp
  then have "words_below (?n - 1) = words_below ?n"
    using r n by (simp add: words_below_def minus add_64_div ceil_64 div_nat_eqI)
  moreover have room: "room (?n - 1)" using assms(2) minus by (simp add: room_def)
  obtain k where "scan_words (\<lambda>w. w \<noteq> - 1) m s (?n - 1) 0 = Some (of_nat k)"
    "of_nat k * 64 < ?n - 1 \<longleftrightarrow> (\<exists>i < 64 * words_below (?n - 1). bits m s i = False)"
    by (rule scan_guard_iff [OF room word64_neq_ones, of m s])
  ultimately show "has_zero m s = Inr True" using stray by (auto simp: has_zero_def)
qed

theorem bitset_has_zero_witness:
  "has_zero (\<lambda>_. 0) \<lparr>m_set = 0x1000, m_bitcount = 64\<rparr> = Inr True"
  using bitset_has_zero [of "\<lparr>m_set = 0x1000, m_bitcount = 64\<rparr>" "\<lambda>_. 0"]
  by (auto simp: room_def intro: exI [of _ 0])

end
