(* ===== verification/PageAlloc.thy ===== *)
theory PageAlloc
  imports Bitset
begin

text \<open>
  The physical page allocator (memory/paging.h, memory/paging.cpp): \<open>BitSetPageAllocator\<close> on top of
  a \<open>dynamic_bitset\<close>, and the singleton \<open>PageAllocator\<close> that hands out pages at their higher-half
  virtual addresses. The two singletons the code reaches through \<open>getInstance()\<close>
  (\<open>DumbAllocator\<close>, \<open>PageAllocator\<close>) and the machine memory form the record \<open>kmem\<close>.

  The interface \<open>page_source\<close> states what an allocator of pages promises; the lemma that no page is
  handed out twice is proved once for it and used for both classes.
\<close>

section \<open>Operations\<close>

definition PAGE_SIZE :: u64 where
  "PAGE_SIZE = 0x1000"

definition PAGE_ROUND_UP :: "u64 \<Rightarrow> u64" where
  "PAGE_ROUND_UP x = ROUND_UP x PAGE_SIZE"

definition BitSetPageAllocator_new :: "u64 \<Rightarrow> dumb_allocator \<Rightarrow> dynamic_bitset \<times> dumb_allocator" where
  "BitSetPageAllocator_new pagecnt a = dynamic_bitset_new DumbAllocator_alloc pagecnt a"

definition BitSetPageAllocator_alloc :: "dynamic_bitset \<Rightarrow> mem \<Rightarrow> (u64 \<times> mem) result" where
  "BitSetPageAllocator_alloc pages m =
     rbind (first_clear m pages) (\<lambda>indx.
     rbind (reference_set (subscript pages indx) m) (\<lambda>m'.
     Inr (push_bit 12 indx, m')))"

definition BitSetPageAllocator_free :: "dynamic_bitset \<Rightarrow> u64 \<Rightarrow> mem \<Rightarrow> mem result" where
  "BitSetPageAllocator_free pages pageaddr m =
     reference_clear (subscript pages (drop_bit 12 pageaddr)) m"

record page_allocator =
  m_kernel_base :: u64
  m_page_count :: u64
  m_allocator :: dynamic_bitset

record kmem =
  k_mem :: mem
  k_dumb :: dumb_allocator
  k_pages :: page_allocator

definition paging_init :: "u64 \<Rightarrow> u64 \<Rightarrow> u64 \<Rightarrow> kmem \<Rightarrow> kmem" where
  "paging_init kernel_base kernel_end page_count k =
     (let k1 = k\<lparr>k_dumb := DumbAllocator_init kernel_end (k_dumb k)\<rparr>;
          k2 = k1\<lparr>k_pages := (k_pages k1)\<lparr>m_kernel_base := kernel_base\<rparr>\<rparr>;
          k3 = k2\<lparr>k_pages := (k_pages k2)\<lparr>m_page_count := page_count\<rparr>\<rparr>;
          (pages, a) = BitSetPageAllocator_new page_count (k_dumb k3)
      in k3\<lparr>k_dumb := a, k_pages := (k_pages k3)\<lparr>m_allocator := pages\<rparr>\<rparr>)"

definition V2P :: "u64 \<Rightarrow> kmem \<Rightarrow> u64" where
  "V2P vaddr k = vaddr - m_kernel_base (k_pages k)"

definition P2V :: "u64 \<Rightarrow> kmem \<Rightarrow> u64" where
  "P2V paddr k = paddr + m_kernel_base (k_pages k)"

definition page_count :: "kmem \<Rightarrow> u64" where
  "page_count k = m_page_count (k_pages k)"

definition alloc_page :: "kmem \<Rightarrow> (u64 \<times> kmem) result" where
  "alloc_page k =
     rbind (BitSetPageAllocator_alloc (m_allocator (k_pages k)) (k_mem k)) (\<lambda>(p, m).
       Inr (m_kernel_base (k_pages k) + p, k\<lparr>k_mem := m\<rparr>))"

definition free_page :: "u64 \<Rightarrow> kmem \<Rightarrow> kmem result" where
  "free_page pageaddr k =
     rbind (BitSetPageAllocator_free (m_allocator (k_pages k))
              (pageaddr - m_kernel_base (k_pages k)) (k_mem k)) (\<lambda>m.
       Inr (k\<lparr>k_mem := m\<rparr>))"

section \<open>The contract of a page allocator\<close>

text \<open>
  Runs of a client: \<open>H\<close> is the set of pages the client holds. It may ask for a page at any time and
  give back a page it holds.
\<close>

inductive page_run ::
  "('s \<Rightarrow> (u64 \<times> 's) result) \<Rightarrow> (u64 \<Rightarrow> 's \<Rightarrow> 's result) \<Rightarrow> 's \<Rightarrow> 's \<Rightarrow> u64 set \<Rightarrow> bool"
  for alloc free s0 where
  run_start: "page_run alloc free s0 s0 {}"
| run_alloc: "page_run alloc free s0 s H \<Longrightarrow> alloc s = Inr (a, s') \<Longrightarrow>
    page_run alloc free s0 s' (insert a H)"
| run_free: "page_run alloc free s0 s H \<Longrightarrow> a \<in> H \<Longrightarrow> free a s = Inr s' \<Longrightarrow>
    page_run alloc free s0 s' (H - {a})"

locale page_source =
  fixes alloc :: "'s \<Rightarrow> (u64 \<times> 's) result"
    and free :: "u64 \<Rightarrow> 's \<Rightarrow> 's result"
    and used :: "'s \<Rightarrow> u64 \<Rightarrow> bool"
    and frames :: "'s \<Rightarrow> u64 set"
    and ok :: "'s \<Rightarrow> bool"
  assumes alloc_fresh: "ok s \<Longrightarrow> alloc s = Inr (a, s') \<Longrightarrow>
      ok s' \<and> frames s' = frames s \<and> a \<in> frames s \<and> \<not> used s a
      \<and> (\<forall>b \<in> frames s. used s' b = (b = a \<or> used s b))"
    and alloc_total: "ok s \<Longrightarrow> b \<in> frames s \<Longrightarrow> \<not> used s b \<Longrightarrow> \<exists>a s'. alloc s = Inr (a, s')"
    and free_frees: "ok s \<Longrightarrow> a \<in> frames s \<Longrightarrow> \<exists>s'. free a s = Inr s'
      \<and> ok s' \<and> frames s' = frames s \<and> (\<forall>b \<in> frames s. used s' b = (b \<noteq> a \<and> used s b))"
begin

lemma run_invariant:
  assumes "page_run alloc free s0 s H" "ok s0"
  shows "ok s \<and> frames s = frames s0 \<and> H \<subseteq> frames s \<and> (\<forall>a \<in> H. used s a)"
  using assms
proof (induction rule: page_run.induct)
  case run_start
  then show ?case by simp
next
  case (run_alloc s H a s')
  then show ?case using alloc_fresh [of s a s'] by auto
next
  case (run_free s H a s')
  then have "a \<in> frames s" by auto
  then show ?case using run_free free_frees [of s a] by auto
qed

lemma never_twice:
  assumes "page_run alloc free s0 s H" "ok s0" "alloc s = Inr (a, s')"
  shows "a \<notin> H \<and> a \<in> frames s0"
  using run_invariant [OF assms(1,2)] alloc_fresh [OF _ assms(3)] by auto

lemma frames_conserved:
  assumes "page_run alloc free s0 s H" "ok s0" "\<And>a. a \<in> frames s0 \<Longrightarrow> \<not> used s0 a"
  shows "{a \<in> frames s. used s a} = H"
  using assms
proof (induction rule: page_run.induct)
  case run_start
  then show ?case by auto
next
  case (run_alloc s H a s')
  have "ok s" using run_invariant [OF run_alloc.hyps(1) run_alloc.prems(1)] by simp
  then show ?case using run_alloc alloc_fresh [of s a s'] by blast
next
  case (run_free s H a s')
  have "ok s" "a \<in> frames s"
    using run_invariant [OF run_free.hyps(1) run_free.prems(1)] run_free.hyps(2) by auto
  then show ?case using run_free free_frees [of s a] by force
qed

end

section \<open>Page addresses\<close>

definition page_frames :: "u64 \<Rightarrow> nat \<Rightarrow> u64 set" where
  "page_frames base n = (\<lambda>i. base + push_bit 12 (of_nat i)) ` {..<n}"

lemma unat_push_12: "unat (p :: u64) < 2 ^ 52 \<Longrightarrow> unat (push_bit 12 p) = 4096 * unat p"
  by (simp add: push_bit_eq_mult unat_word_ariths mult.commute)

lemma drop_push_12: "unat (p :: u64) < 2 ^ 52 \<Longrightarrow> drop_bit 12 (push_bit 12 p) = p"
proof -
  assume p: "unat p < 2 ^ 52"
  have "unat (drop_bit 12 (push_bit 12 p)) = unat (push_bit 12 p) div 4096"
    by (simp only: unat_drop_bit_eq) (simp add: drop_bit_eq_div)
  then show ?thesis using unat_push_12 [OF p] by (simp add: word_unat_eq_iff)
qed

lemma page_frames_iff:
  assumes "n \<le> 2 ^ 52"
  shows "a \<in> page_frames base n \<longleftrightarrow> (\<exists>p. unat p < n \<and> a = base + push_bit 12 p)"
proof
  assume "a \<in> page_frames base n"
  then obtain i where "i < n" "a = base + push_bit 12 (of_nat i)" by (auto simp: page_frames_def)
  then show "\<exists>p. unat p < n \<and> a = base + push_bit 12 p"
    using assms by (intro exI [of _ "of_nat i"]) (simp add: unat_of_nat_u64)
next
  assume "\<exists>p. unat p < n \<and> a = base + push_bit 12 p"
  then obtain p where p: "unat p < n" "a = base + push_bit 12 p" by blast
  then show "a \<in> page_frames base n"
    unfolding page_frames_def by (intro image_eqI [of _ _ "unat p"]) auto
qed

text \<open>Which pages the bitmap marks as taken, and how far the search of the bitmap looks.\<close>

definition page_used :: "u64 \<Rightarrow> bitset_state \<Rightarrow> u64 \<Rightarrow> bool" where
  "page_used base ms a = bs_get ms (unat (drop_bit 12 (a - base)))"

definition pages_ok :: "bitset_state \<Rightarrow> bool" where
  "pages_ok ms \<longleftrightarrow> unat (m_bitcount (snd ms)) \<le> 2 ^ 52"

lemma pages_ok_room: "pages_ok ms \<Longrightarrow> room (m_bitcount (snd ms))"
  by (simp add: pages_ok_def room_def)

lemma pages_ok_cap: "pages_ok ms \<Longrightarrow> bs_cap ms \<le> 2 ^ 52"
  by (simp add: pages_ok_def bs_cap_def words_below_def)

lemma bs_mark_frame: "bs_mark p ms = Inr ms' \<Longrightarrow> snd ms' = snd ms"
  by (auto simp: bs_mark_def fault_simps)

lemma bs_unmark_frame: "bs_unmark p ms = Inr ms' \<Longrightarrow> snd ms' = snd ms"
  by (auto simp: bs_unmark_def fault_simps)

lemma page_used_push [simp]:
  "unat p < 2 ^ 52 \<Longrightarrow> page_used base ms (base + push_bit 12 p) = bs_get ms (unat p)"
  by (simp add: page_used_def drop_push_12)

lemma push_12_inj:
  "unat p < 2 ^ 52 \<Longrightarrow> unat q < 2 ^ 52 \<Longrightarrow> push_bit 12 p = push_bit 12 q \<longleftrightarrow> p = (q :: u64)"
  by (metis drop_push_12)

text \<open>Claiming the first clear bit of a page bitmap, read at the level of page addresses.\<close>

lemma claim_page:
  assumes ok: "pages_ok ms" and claim: "claim_first bs_find bs_mark ms = Inr (p, ms')"
  shows "unat p < bs_cap ms \<and> pages_ok ms' \<and> snd ms' = snd ms
    \<and> \<not> bs_get ms (unat p) \<and> (\<forall>j < unat p. bs_get ms j)
    \<and> (\<forall>j < 2 ^ 64. bs_get ms' j = (j = unat p \<or> bs_get ms j))"
proof -
  obtain i where i: "i < bs_cap ms" "\<not> bs_get ms i"
    using bsv.claim_first_iff [OF pages_ok_room [OF ok]] claim by blast
  obtain q ms'' where q: "claim_first bs_find bs_mark ms = Inr (q, ms'')" "unat q < bs_cap ms"
    "\<not> bs_get ms (unat q)" "\<And>j. j < unat q \<Longrightarrow> bs_get ms j"
    "\<And>j. j < 2 ^ 64 \<Longrightarrow> bs_get ms'' j = (j = unat q \<or> bs_get ms j)"
    by (rule bsv.claim_first_some [OF pages_ok_room [OF ok] i]) blast
  have "snd ms' = snd ms"
    using claim by (auto simp: claim_first_def fault_simps dest: bs_mark_frame)
  then show ?thesis using q claim ok by (simp add: pages_ok_def)
qed

lemma unmark_page:
  assumes ok: "pages_ok ms"
  obtains ms' where "bs_unmark p ms = Inr ms'" "pages_ok ms'" "snd ms' = snd ms"
    "\<And>j. j < 2 ^ 64 \<Longrightarrow> bs_get ms' j = (j \<noteq> unat p \<and> bs_get ms j)"
  using bsv.unmark_get [OF pages_ok_room [OF ok], of p] bs_unmark_frame ok
  by (auto simp: pages_ok_def)

lemma page_used_after:
  assumes "b \<in> page_frames base n" "n \<le> 2 ^ 52" "unat p < 2 ^ 52"
    and "\<And>j. j < 2 ^ 64 \<Longrightarrow> bs_get ms' j = f (j = unat p) (bs_get ms j)"
  shows "page_used base ms' b = f (b = base + push_bit 12 p) (page_used base ms b)"
proof -
  obtain q where q: "unat q < n" "b = base + push_bit 12 q"
    using assms(1,2) by (auto simp: page_frames_iff)
  then have "unat q < 2 ^ 52" using assms(2) by simp
  moreover have "q = p \<longleftrightarrow> unat q = unat p" by (simp add: word_unat_eq_iff)
  ultimately show ?thesis using assms(3,4) q(2) by (simp add: push_12_inj)
qed

section \<open>\<open>BitSetPageAllocator\<close> keeps the contract\<close>

definition bspa_alloc :: "bitset_state \<Rightarrow> (u64 \<times> bitset_state) result" where
  "bspa_alloc ms = rbind (BitSetPageAllocator_alloc (snd ms) (fst ms)) (\<lambda>(p, m). Inr (p, (m, snd ms)))"

definition bspa_free :: "u64 \<Rightarrow> bitset_state \<Rightarrow> bitset_state result" where
  "bspa_free a ms = rbind (BitSetPageAllocator_free (snd ms) a (fst ms)) (\<lambda>m. Inr (m, snd ms))"

lemma bspa_alloc_eq:
  "bspa_alloc ms = rbind (claim_first bs_find bs_mark ms) (\<lambda>(p, ms'). Inr (push_bit 12 p, ms'))"
  by (simp add: bspa_alloc_def BitSetPageAllocator_alloc_def claim_first_def bs_find_def bs_mark_def
      rbind_assoc)

lemma bspa_free_eq: "bspa_free a ms = bs_unmark (drop_bit 12 a) ms"
  by (simp add: bspa_free_def BitSetPageAllocator_free_def bs_unmark_def)

lemma alloc_page_eq:
  "alloc_page k = rbind (bspa_alloc (k_mem k, m_allocator (k_pages k))) (\<lambda>(p, ms).
     Inr (m_kernel_base (k_pages k) + p, k\<lparr>k_mem := fst ms\<rparr>))"
  by (simp add: alloc_page_def bspa_alloc_def rbind_assoc case_prod_unfold)

lemma free_page_eq:
  "free_page a k = rbind (bspa_free (a - m_kernel_base (k_pages k)) (k_mem k, m_allocator (k_pages k)))
     (\<lambda>ms. Inr (k\<lparr>k_mem := fst ms\<rparr>))"
  by (simp add: free_page_def bspa_free_def rbind_assoc)

lemma bspa_alloc_frames:
  assumes ok: "pages_ok ms" and a: "bspa_alloc ms = Inr (a, ms')"
  shows "pages_ok ms' \<and> snd ms' = snd ms \<and> base + a \<in> page_frames base (bs_cap ms)
    \<and> \<not> page_used base ms (base + a)
    \<and> (\<forall>b \<in> page_frames base (bs_cap ms). page_used base ms' b = (b = base + a \<or> page_used base ms b))"
proof -
  note cap = pages_ok_cap [OF ok]
  obtain p where p: "claim_first bs_find bs_mark ms = Inr (p, ms')" "a = push_bit 12 p"
    using a by (auto simp: bspa_alloc_eq fault_simps)
  note c = claim_page [OF ok p(1)]
  have lt: "unat p < 2 ^ 52" using c cap by simp
  show ?thesis
    using c lt p(2) page_used_after [OF _ cap lt, of _ base ms' "(\<or>)" ms] page_frames_iff [OF cap]
    by auto
qed

lemma bspa_alloc_total:
  assumes ok: "pages_ok ms" and b: "b \<in> page_frames base (bs_cap ms)" "\<not> page_used base ms b"
  shows "\<exists>a ms'. bspa_alloc ms = Inr (a, ms')"
proof -
  note cap = pages_ok_cap [OF ok]
  obtain q where q: "unat q < bs_cap ms" "b = base + push_bit 12 q"
    using b(1) page_frames_iff [OF cap] by auto
  then have "\<not> bs_get ms (unat q)" using b(2) cap by simp
  then show ?thesis
    using bsv.claim_first_iff [OF pages_ok_room [OF ok]] q(1) by (auto simp: bspa_alloc_eq)
qed

lemma bspa_free_frames:
  assumes ok: "pages_ok ms" and a: "a \<in> page_frames base (bs_cap ms)"
  shows "\<exists>ms'. bspa_free (a - base) ms = Inr ms' \<and> pages_ok ms' \<and> snd ms' = snd ms
    \<and> (\<forall>b \<in> page_frames base (bs_cap ms). page_used base ms' b = (b \<noteq> a \<and> page_used base ms b))"
proof -
  note cap = pages_ok_cap [OF ok]
  obtain p where p: "unat p < bs_cap ms" "a = base + push_bit 12 p"
    using a page_frames_iff [OF cap] by auto
  have lt: "unat p < 2 ^ 52" using p(1) cap by simp
  obtain ms' where "bs_unmark p ms = Inr ms'" "pages_ok ms'" "snd ms' = snd ms"
    "\<And>j. j < 2 ^ 64 \<Longrightarrow> bs_get ms' j = (j \<noteq> unat p \<and> bs_get ms j)"
    by (rule unmark_page [OF ok]) blast
  then show ?thesis
    using p(2) lt page_used_after [OF _ cap lt, of _ base ms' "\<lambda>e u. \<not> e \<and> u" ms]
    by (auto simp: bspa_free_eq drop_push_12)
qed

interpretation bspa: page_source bspa_alloc bspa_free "page_used 0" "\<lambda>ms. page_frames 0 (bs_cap ms)" pages_ok
proof (unfold_locales, goal_cases)
  case (1 ms a ms')
  then show ?case using bspa_alloc_frames [of ms a ms' 0] by (simp add: bs_cap_def)
next
  case (2 ms b)
  then show ?case by (rule bspa_alloc_total)
next
  case (3 ms a)
  then show ?case using bspa_free_frames [of ms a 0] by (auto simp: bs_cap_def)
qed

section \<open>\<open>PageAllocator\<close> keeps the contract\<close>

definition k_bitmap :: "kmem \<Rightarrow> bitset_state" where
  "k_bitmap k = (k_mem k, m_allocator (k_pages k))"

definition k_used :: "kmem \<Rightarrow> u64 \<Rightarrow> bool" where
  "k_used k a = page_used (m_kernel_base (k_pages k)) (k_bitmap k) a"

definition k_frames :: "kmem \<Rightarrow> u64 set" where
  "k_frames k = page_frames (m_kernel_base (k_pages k)) (bs_cap (k_bitmap k))"

definition k_ok :: "kmem \<Rightarrow> bool" where
  "k_ok k \<longleftrightarrow> pages_ok (k_bitmap k)"

lemmas k_defs = k_bitmap_def k_used_def k_frames_def k_ok_def

lemma k_bitmap_update: "snd ms = m_allocator (k_pages k) \<Longrightarrow> k_bitmap (k\<lparr>k_mem := fst ms\<rparr>) = ms"
  by (simp add: k_bitmap_def prod_eq_iff)

interpretation kpa: page_source alloc_page free_page k_used k_frames k_ok
proof (unfold_locales, goal_cases)
  case (1 k a k')
  then obtain p ms where p: "bspa_alloc (k_bitmap k) = Inr (p, ms)"
    "a = m_kernel_base (k_pages k) + p" "k' = k\<lparr>k_mem := fst ms\<rparr>"
    by (auto simp: alloc_page_eq fault_simps k_bitmap_def)
  have ok: "pages_ok (k_bitmap k)" using 1 by (simp add: k_ok_def)
  note f = bspa_alloc_frames [OF ok p(1), of "m_kernel_base (k_pages k)"]
  then have "snd ms = m_allocator (k_pages k)" by (simp add: k_bitmap_def)
  then have ms: "k_bitmap k' = ms" using p(3) by (simp add: k_bitmap_update)
  then show ?case
    using f p by (simp add: k_used_def k_frames_def k_ok_def bs_cap_def)
next
  case (2 k b)
  then show ?case
    using bspa_alloc_total [of "k_bitmap k" b "m_kernel_base (k_pages k)"]
    by (force simp: k_defs alloc_page_eq)
next
  case (3 k a)
  then obtain ms where ms: "bspa_free (a - m_kernel_base (k_pages k)) (k_bitmap k) = Inr ms" "pages_ok ms"
    "snd ms = m_allocator (k_pages k)"
    "\<forall>b \<in> k_frames k. page_used (m_kernel_base (k_pages k)) ms b = (b \<noteq> a \<and> k_used k b)"
    using bspa_free_frames [of "k_bitmap k" a "m_kernel_base (k_pages k)"] by (auto simp: k_defs)
  then show ?case
    using k_bitmap_update [OF ms(3)] by (auto simp: free_page_eq k_bitmap_def k_used_def k_frames_def k_ok_def bs_cap_def)
qed

section \<open>Lowest page first, and running out\<close>

lemma alloc_page_first:
  assumes "k_ok k" "i < bs_cap (k_bitmap k)" "\<not> bs_get (k_bitmap k) i"
    "\<And>j. j < i \<Longrightarrow> bs_get (k_bitmap k) j"
  obtains k' where "alloc_page k = Inr (m_kernel_base (k_pages k) + of_nat (4096 * i), k')"
    "k_ok k'" "k_pages k' = k_pages k" "bs_cap (k_bitmap k') = bs_cap (k_bitmap k)"
    "\<And>j. j < 2 ^ 64 \<Longrightarrow> bs_get (k_bitmap k') j = (j = i \<or> bs_get (k_bitmap k) j)"
proof -
  let ?ms = "k_bitmap k"
  have ok: "pages_ok ?ms" using assms(1) by (simp add: k_ok_def)
  obtain p ms where p: "claim_first bs_find bs_mark ?ms = Inr (p, ms)"
    using bsv.claim_first_iff [OF pages_ok_room [OF ok]] assms(2,3) by auto
  note c = claim_page [OF ok p]
  have eq: "unat p = i" using c assms(3,4) by (meson linorder_neqE_nat)
  have lt: "unat p < 2 ^ 52" using c pages_ok_cap [OF ok] by simp
  have "push_bit 12 p = of_nat (4096 * i)"
    using unat_push_12 [OF lt] eq lt by (simp add: word_unat_eq_iff unat_word_ariths unat_of_nat_u64)
  then have a: "alloc_page k = Inr (m_kernel_base (k_pages k) + of_nat (4096 * i), k\<lparr>k_mem := fst ms\<rparr>)"
    using p by (simp add: alloc_page_eq bspa_alloc_eq k_bitmap_def)
  have "k_bitmap (k\<lparr>k_mem := fst ms\<rparr>) = ms" using c by (intro k_bitmap_update) (simp add: k_bitmap_def)
  then show ?thesis
    using that [OF a] c eq by (simp add: k_ok_def bs_cap_def)
qed

lemma alloc_page_full:
  assumes "k_ok k" "\<And>i. i < bs_cap (k_bitmap k) \<Longrightarrow> bs_get (k_bitmap k) i"
  shows "alloc_page k = Inl (Panic ''Your set doesnt have clear bits dumbass'')"
proof -
  have "room (m_bitcount (snd (k_bitmap k)))" using assms(1) pages_ok_room by (simp add: k_ok_def)
  from bsv.claim_first_full [OF this assms(2)] show ?thesis
    by (simp add: alloc_page_eq bspa_alloc_eq k_bitmap_def)
qed

fun alloc_pages :: "nat \<Rightarrow> kmem \<Rightarrow> (u64 list \<times> kmem) result" where
  "alloc_pages 0 k = Inr ([], k)"
| "alloc_pages (Suc n) k =
     rbind (alloc_page k) (\<lambda>(a, k'). rbind (alloc_pages n k') (\<lambda>(as, k''). Inr (a # as, k'')))"

lemma alloc_pages_from:
  assumes "k_ok k" "i + n \<le> bs_cap (k_bitmap k)"
    "\<And>j. j < bs_cap (k_bitmap k) \<Longrightarrow> bs_get (k_bitmap k) j = (j < i)"
  shows "\<exists>k'. alloc_pages n k =
    Inr (map (\<lambda>j. m_kernel_base (k_pages k) + of_nat (4096 * j)) [i ..< i + n], k')"
  using assms
proof (induction n arbitrary: i k)
  case 0
  then show ?case by simp
next
  case (Suc n)
  have cap: "bs_cap (k_bitmap k) \<le> 2 ^ 52" using Suc.prems(1) pages_ok_cap unfolding k_ok_def by blast
  obtain k' where k': "alloc_page k = Inr (m_kernel_base (k_pages k) + of_nat (4096 * i), k')"
    "k_ok k'" "k_pages k' = k_pages k" "bs_cap (k_bitmap k') = bs_cap (k_bitmap k)"
    "\<And>j. j < 2 ^ 64 \<Longrightarrow> bs_get (k_bitmap k') j = (j = i \<or> bs_get (k_bitmap k) j)"
    by (rule alloc_page_first [of k i]) (use Suc.prems in auto)
  have "bs_get (k_bitmap k') j = (j < Suc i)" if "j < bs_cap (k_bitmap k')" for j
    using that k'(4,5) Suc.prems(3) cap by auto
  then obtain k'' where "alloc_pages n k' =
    Inr (map (\<lambda>j. m_kernel_base (k_pages k') + of_nat (4096 * j)) [Suc i ..< Suc i + n], k'')"
    using Suc.IH [of k' "Suc i"] Suc.prems(2) k'(2,4) by auto
  moreover have "[i ..< i + Suc n] = i # [Suc i ..< Suc i + n]" by (simp add: upt_conv_Cons)
  ultimately show ?case using k'(1,3) by (simp del: upt_Suc)
qed

section \<open>Properties\<close>

definition k_example :: kmem where
  "k_example = \<lparr>k_mem = (\<lambda>_. 0), k_dumb = \<lparr>m_mem_end = 0x2000\<rparr>,
     k_pages = \<lparr>m_kernel_base = 0xFFFFFFFF80000000, m_page_count = 512,
       m_allocator = \<lparr>m_set = 0xFFFFFFFF80200000, m_bitcount = 512\<rparr>\<rparr>\<rparr>"

lemma k_example_simps:
  "k_ok k_example" "bs_cap (k_bitmap k_example) = 512" "\<not> bs_get (k_bitmap k_example) i"
  "m_kernel_base (k_pages k_example) = 0xFFFFFFFF80000000" "page_count k_example = 512"
  by (simp_all add: k_example_def k_defs pages_ok_def bs_cap_def words_below_def bs_get_def page_count_def)

text \<open>
  C3: no page is handed out twice. Whatever sequence of \<open>alloc_page\<close> and \<open>free_page\<close> calls a
  client makes (freeing only pages it holds), a page that \<open>alloc_page\<close> returns is not among the
  pages it still holds, and is one of the pages the bitmap manages.
\<close>

theorem page_never_handed_out_twice:
  assumes "page_run alloc_page free_page k0 k H" and "k_ok k0" and "alloc_page k = Inr (a, k')"
  shows "a \<notin> H \<and> a \<in> k_frames k0"
  by (rule kpa.never_twice [OF assms])

theorem page_never_handed_out_twice_witness:
  "\<exists>k' a k''. alloc_page k_example = Inr (0xFFFFFFFF80000000, k') \<and> alloc_page k' = Inr (a, k'')
     \<and> a \<noteq> 0xFFFFFFFF80000000"
proof -
  obtain k' where k': "alloc_page k_example = Inr (0xFFFFFFFF80000000, k')" "k_ok k'"
    "bs_cap (k_bitmap k') = 512" "\<And>j. j < 2 ^ 64 \<Longrightarrow> bs_get (k_bitmap k') j = (j = 0)"
    by (rule alloc_page_first [of k_example 0]) (simp_all add: k_example_simps)
  obtain a k'' where a: "alloc_page k' = Inr (a, k'')"
    by (rule alloc_page_first [of k' 1]) (simp_all add: k')
  have "page_run alloc_page free_page k_example k' {0xFFFFFFFF80000000}"
    by (rule page_run.run_alloc [where alloc = alloc_page, OF page_run.run_start k'(1)])
  from page_never_handed_out_twice [OF this k_example_simps(1) a] k'(1) a show ?thesis by blast
qed

text \<open>
  C14: the bitmap accounts for the pages exactly. If no page was in use at the start, then after any
  run the pages marked as used are precisely the pages the client holds; in particular freeing
  everything makes every page available again.
\<close>

theorem page_bitmap_accounts:
  assumes "page_run alloc_page free_page k0 k H" and "k_ok k0"
    and "\<And>a. a \<in> k_frames k0 \<Longrightarrow> \<not> k_used k0 a"
  shows "{a \<in> k_frames k. k_used k a} = H"
  by (rule kpa.frames_conserved [OF assms])

theorem page_bitmap_accounts_witness: "{a \<in> k_frames k_example. k_used k_example a} = {}"
  by (rule page_bitmap_accounts [OF page_run.run_start])
     (simp_all add: k_example_simps k_used_def page_used_def)

text \<open>
  C32: pages come lowest address first. From an empty bitmap the first \<open>n\<close> calls of \<open>alloc_page\<close>
  return the pages 0, 1, \<dots>, \<open>n - 1\<close> of physical memory at their virtual addresses. In particular
  nothing reserves the pages that hold the kernel image: the 257th page is the one at physical
  address 0x100000, where the kernel is loaded.
\<close>

theorem alloc_pages_sequential:
  assumes "k_ok k" and "n \<le> bs_cap (k_bitmap k)"
    and "\<And>j. j < bs_cap (k_bitmap k) \<Longrightarrow> \<not> bs_get (k_bitmap k) j"
  shows "\<exists>k'. alloc_pages n k =
    Inr (map (\<lambda>j. m_kernel_base (k_pages k) + of_nat (4096 * j)) [0 ..< n], k')"
  using alloc_pages_from [of k 0 n] assms by auto

theorem alloc_pages_sequential_witness:
  "\<exists>as k'. alloc_pages 257 k_example = Inr (as, k') \<and> as ! 256 = 0xFFFFFFFF80000000 + 0x100000"
proof -
  obtain k' where "alloc_pages 257 k_example =
    Inr (map (\<lambda>j. 0xFFFFFFFF80000000 + of_nat (4096 * j)) [0 ..< 257], k')"
    using alloc_pages_sequential [of k_example 257] by (auto simp: k_example_simps)
  then show ?thesis by (simp add: nth_map nth_upt del: upt_Suc)
qed

text \<open>
  C33: \<open>alloc_page\<close> panics exactly when the bitmap has no clear bit left in the words it scans; it
  never fails in any other way.
\<close>

theorem alloc_page_panics_iff:
  assumes "k_ok k"
  shows "if \<exists>a \<in> k_frames k. \<not> k_used k a then \<exists>a k'. alloc_page k = Inr (a, k')
    else alloc_page k = Inl (Panic ''Your set doesnt have clear bits dumbass'')"
proof (cases "\<exists>a \<in> k_frames k. \<not> k_used k a")
  case True
  then show ?thesis using kpa.alloc_total [OF assms] by auto
next
  case False
  have ok: "pages_ok (k_bitmap k)" using assms by (simp add: k_ok_def)
  have "bs_get (k_bitmap k) i" if "i < bs_cap (k_bitmap k)" for i
  proof -
    have i: "unat (of_nat i :: u64) = i" using that pages_ok_cap [OF ok] by (simp add: unat_of_nat_u64)
    have "m_kernel_base (k_pages k) + push_bit 12 (of_nat i) \<in> k_frames k"
      using that by (auto simp: k_frames_def page_frames_def)
    with False have "k_used k (m_kernel_base (k_pages k) + push_bit 12 (of_nat i))" by blast
    then show ?thesis using i that pages_ok_cap [OF ok] by (simp add: k_used_def)
  qed
  then show ?thesis using False alloc_page_full [OF assms] by auto
qed

theorem alloc_page_panics_iff_witness:
  "alloc_page (k_example\<lparr>k_mem := (\<lambda>_. 255)\<rparr>) = Inl (Panic ''Your set doesnt have clear bits dumbass'')"
proof -
  let ?k = "k_example\<lparr>k_mem := (\<lambda>_. 255)\<rparr>"
  have "load64 (\<lambda>_. 255) a = - 1" for a by (rule bit_word_eqI) (simp add: bit_load64 bit_255 del: bit_numeral_word_iff)
  then have "bs_get (k_bitmap ?k) i" for i by (simp add: k_bitmap_def bs_get_def bits_def word_at_def)
  then have all: "k_used ?k a" for a by (simp add: k_used_def page_used_def)
  have "k_ok ?k" by (simp add: k_example_def k_defs pages_ok_def)
  from alloc_page_panics_iff [OF this] all show ?thesis by auto
qed

text \<open>
  When the number of pages is not a multiple of 64 the allocator runs past it: once all pages
  below the page count are in use and a stray bit of the last word is clear, \<open>alloc_page\<close> succeeds
  and returns a page that lies beyond the managed memory.
\<close>

theorem alloc_page_beyond_page_count:
  assumes "k_ok k" and "m_bitcount (m_allocator (k_pages k)) = page_count k"
    and "\<And>j. j < unat (page_count k) \<Longrightarrow> bs_get (k_bitmap k) j"
    and "i < 64 * words_below (page_count k)" and "\<not> bs_get (k_bitmap k) i"
  shows "\<exists>a k'. alloc_page k = Inr (a, k') \<and> 4096 * unat (page_count k) \<le> unat (V2P a k)"
proof -
  let ?ms = "k_bitmap k"
  have ok: "pages_ok ?ms" using assms(1) by (simp add: k_ok_def)
  have "i < bs_cap ?ms" using assms(2,4) by (simp add: bs_cap_def k_bitmap_def)
  then obtain p ms where p: "claim_first bs_find bs_mark ?ms = Inr (p, ms)"
    using bsv.claim_first_iff [OF pages_ok_room [OF ok]] assms(5) by auto
  note c = claim_page [OF ok p]
  have "unat (page_count k) \<le> unat p" using c assms(3) by (meson not_le)
  moreover have "unat p < 2 ^ 52" using c pages_ok_cap [OF ok] by simp
  moreover have "alloc_page k = Inr (m_kernel_base (k_pages k) + push_bit 12 p, k\<lparr>k_mem := fst ms\<rparr>)"
    using p by (simp add: alloc_page_eq bspa_alloc_eq k_bitmap_def)
  ultimately show ?thesis by (simp add: V2P_def unat_push_12)
qed

theorem alloc_page_beyond_page_count_witness:
  "\<exists>a k'. alloc_page (k_example\<lparr>k_pages := (k_pages k_example)\<lparr>m_page_count := 0x10,
       m_allocator := \<lparr>m_set = 0, m_bitcount = 0x10\<rparr>\<rparr>, k_mem := (\<lambda>b. if b < 2 then 255 else 0)\<rparr>)
     = Inr (a, k')"
proof -
  let ?m = "\<lambda>b :: u64. if b < 2 then 255 else 0 :: u8"
  let ?s = "\<lparr>m_set = 0, m_bitcount = 0x10\<rparr> :: dynamic_bitset"
  let ?k = "k_example\<lparr>k_pages := (k_pages k_example)\<lparr>m_page_count := 0x10, m_allocator := ?s\<rparr>, k_mem := ?m\<rparr>"
  have bit: "bits ?m ?s j = (j < 16)" if "j < 64" for j
  proof -
    have "unat (of_nat (j div 8) :: u64) = j div 8" using that by (intro unat_of_nat_u64) simp
    then show ?thesis using that
      by (auto simp: bits_def word_at_def bit_load64 bit_255 word_less_nat_alt div_less_iff_less_mult
          simp del: bit_numeral_word_iff)
  qed
  show ?thesis
    using alloc_page_beyond_page_count [of ?k 20] bit
    by (auto simp: k_example_def k_defs pages_ok_def page_count_def bs_get_def words_below_def)
qed

text \<open>
  Freeing the page just allocated undoes the allocation: every page of the bitmap has the status
  it had before.
\<close>

theorem alloc_free_roundtrip:
  assumes "k_ok k" and "alloc_page k = Inr (a, k')"
  shows "\<exists>k''. free_page a k' = Inr k'' \<and> k_pages k'' = k_pages k
    \<and> (\<forall>b \<in> k_frames k. k_used k'' b = k_used k b)"
proof -
  note al = kpa.alloc_fresh [OF assms]
  then obtain k'' where k'': "free_page a k' = Inr k''"
    "\<forall>b \<in> k_frames k. k_used k'' b = (b \<noteq> a \<and> k_used k' b)"
    using kpa.free_frees [of k' a] by auto
  have "k_pages k'' = k_pages k"
    using k''(1) assms(2) by (auto simp: alloc_page_eq free_page_eq fault_simps)
  then show ?thesis using k'' al by blast
qed

theorem alloc_free_roundtrip_witness:
  "\<exists>a k' k''. alloc_page k_example = Inr (a, k') \<and> free_page a k' = Inr k''
     \<and> k_pages k'' = k_pages k_example"
proof -
  obtain a k' where "alloc_page k_example = Inr (a, k')"
    by (rule alloc_page_first [of k_example 0]) (simp_all add: k_example_simps)
  then show ?thesis using alloc_free_roundtrip [OF k_example_simps(1)] by blast
qed

text \<open>
  \<open>paging_init\<close> puts the bitmap at the end of the kernel, moves the bump allocator past it and
  records base and page count, but writes no memory: which pages count as used at the start is
  whatever the memory behind the kernel image happens to hold.
\<close>

theorem paging_init_effect:
  "let k' = paging_init base kend n k in
    k_mem k' = k_mem k \<and> m_kernel_base (k_pages k') = base \<and> page_count k' = n
    \<and> m_allocator (k_pages k') = \<lparr>m_set = kend, m_bitcount = n\<rparr>
    \<and> m_mem_end (k_dumb k') = kend + of_nat (8 * ((unat n div 8 + 7) div 8))
    \<and> bs_get (k_bitmap k') i = bit (load64 (k_mem k) (kend + 8 * of_nat (i div 64))) (i mod 64)"
  by (simp add: paging_init_def Let_def BitSetPageAllocator_new_def dynamic_bitset_new_def
      DumbAllocator_alloc_def DumbAllocator_init_def page_count_def bs_get_def k_bitmap_def bits_def
      word_at_def alloc_size_eq)

lemma store_word_frame:
  assumes "w < n" "n < 2 ^ 61" "8 * n \<le> unat (b - base)"
  shows "store64 (base + 8 * of_nat w) v m b = m b"
proof (rule store64_frame)
  have w: "unat (8 * of_nat w :: u64) = 8 * w"
    using assms(1,2) unat_of_nat_u64 [of "8 * w"] by simp
  then have "8 * of_nat w \<le> b - base" using assms by (simp add: word_le_nat_alt)
  then have "unat ((b - base) - 8 * of_nat w) = unat (b - base) - 8 * w" using w by (simp add: unat_sub)
  then show "8 \<le> b - (base + 8 * of_nat w)"
    using assms by (simp add: word_le_nat_alt diff_diff_eq)
qed

text \<open>
  Allocating a page touches the bitmap only: every byte outside the words of the bitmap keeps
  its value, so no allocation can damage a page that was handed out.
\<close>

theorem alloc_page_memory_frame:
  assumes "k_ok k" and "alloc_page k = Inr (a, k')"
    and "8 * words_below (m_bitcount (m_allocator (k_pages k)))
      \<le> unat (b - m_set (m_allocator (k_pages k)))"
  shows "k_mem k' b = k_mem k b"
proof -
  let ?s = "m_allocator (k_pages k)"
  have ok: "pages_ok (k_bitmap k)" using assms(1) by (simp add: k_ok_def)
  obtain p ms where p: "claim_first bs_find bs_mark (k_bitmap k) = Inr (p, ms)" "k_mem k' = fst ms"
    using assms(2) by (auto simp: alloc_page_eq bspa_alloc_eq fault_simps k_bitmap_def)
  have "unat p < 64 * words_below (m_bitcount ?s)"
    using claim_page [OF ok p(1)] by (simp add: bs_cap_def k_bitmap_def)
  then have w: "unat p div 64 < words_below (m_bitcount ?s)"
    by (simp add: div_less_iff_less_mult mult.commute)
  have small: "words_below (m_bitcount ?s) < 2 ^ 61" using words_below_small [of "m_bitcount ?s"] by simp
  obtain v where "fst ms = store64 (m_set ?s + 8 * of_nat (unat p div 64)) v (k_mem k)"
    using p(1) by (auto simp: claim_first_def fault_simps bs_mark_def reference_set_def subscript_def
        bitmask_subscript get_word_eq k_bitmap_def)
  then show ?thesis using store_word_frame [OF w small assms(3)] p(2) by simp
qed

theorem alloc_page_memory_frame_witness:
  "\<exists>a k'. alloc_page k_example = Inr (a, k') \<and> k_mem k' 0xFFFFFFFF80200040 = 0"
proof -
  obtain a k' where a: "alloc_page k_example = Inr (a, k')"
    by (rule alloc_page_first [of k_example 0]) (simp_all add: k_example_simps)
  have "8 * words_below (m_bitcount (m_allocator (k_pages k_example)))
      \<le> unat (0xFFFFFFFF80200040 - m_set (m_allocator (k_pages k_example)))"
    by (simp add: k_example_def words_below_def)
  from alloc_page_memory_frame [OF k_example_simps(1) a this] a show ?thesis
    by (simp add: k_example_def)
qed

end
