(* ===== verification/BootPaging.thy ===== *)
theory BootPaging
  imports PageTables PageAlloc
begin

text \<open>
  The page tables the boot code sets up (boot/boot.s, \<open>_start\<close> and \<open>_start_in_higher_half\<close>) and the address space
  they give the kernel. The boot code runs on physical memory; \<open>page_walk\<close> is the translation of the processor in
  4-level paging, as its manual defines it, with nothing cached. It takes the index of every table from the bits of the
  address itself and uses no macro of the kernel.
\<close>

section \<open>The processor's walk\<close>

definition canonical :: "u64 \<Rightarrow> bool" where
  "canonical va \<longleftrightarrow> drop_bit 47 va = 0 \<or> drop_bit 47 va = 0x1FFFF"

text \<open>The address of an entry that maps \<open>2 ^ n\<close> bytes, or of the next table for \<open>n = 12\<close>.\<close>

definition entry_addr :: "nat \<Rightarrow> u64 \<Rightarrow> u64" where
  "entry_addr n e = push_bit n (drop_bit n (take_bit 52 e))"

definition page_walk :: "mem \<Rightarrow> u64 \<Rightarrow> u64 \<Rightarrow> u64 option" where
  "page_walk m cr3 va =
     (let e4 = load64 m (entry_addr 12 cr3 + 8 * take_bit 9 (drop_bit 39 va))
      in if \<not> canonical va \<or> \<not> bit e4 0 then None
      else let e3 = load64 m (entry_addr 12 e4 + 8 * take_bit 9 (drop_bit 30 va))
      in if \<not> bit e3 0 then None
      else if bit e3 7 then Some (entry_addr 30 e3 OR take_bit 30 va)
      else let e2 = load64 m (entry_addr 12 e3 + 8 * take_bit 9 (drop_bit 21 va))
      in if \<not> bit e2 0 then None
      else if bit e2 7 then Some (entry_addr 21 e2 OR take_bit 21 va)
      else let e1 = load64 m (entry_addr 12 e2 + 8 * take_bit 9 (drop_bit 12 va))
      in if \<not> bit e1 0 then None
      else Some (entry_addr 12 e1 OR take_bit 12 va))"

section \<open>Operations of the boot code\<close>

definition PAGE_PRESENT :: u32 where "PAGE_PRESENT = push_bit 0 1"
definition PAGE_WRITE :: u32 where "PAGE_WRITE = push_bit 1 1"
definition PAGE_SIZE_BIT :: u32 where "PAGE_SIZE_BIT = push_bit 7 1"
definition KERNEL_VIRTUAL_BASE :: u64 where "KERNEL_VIRTUAL_BASE = 0xFFFFFFFF80000000"
definition ENTRY :: "u64 \<Rightarrow> nat \<Rightarrow> u64" where "ENTRY addr off = drop_bit off addr AND 0x1FF"
definition KERNEL_PML4_ENTRY :: u64 where "KERNEL_PML4_ENTRY = ENTRY KERNEL_VIRTUAL_BASE 39"
definition KERNEL_PDPT_ENTRY :: u64 where "KERNEL_PDPT_ENTRY = ENTRY KERNEL_VIRTUAL_BASE 30"

text \<open>
  \<open>_start\<close>, with 32-bit registers: both entries of the PML4 point to the one PDPT, whose two entries map the first
  gigabyte. \<open>pml4\<close> and \<open>pdpt\<close> are the link addresses of the tables.
\<close>

definition start_tables :: "u64 \<Rightarrow> u64 \<Rightarrow> mem \<Rightarrow> mem" where
  "start_tables pml4 pdpt m =
     (let eax = ucast (pdpt - KERNEL_VIRTUAL_BASE) OR (PAGE_PRESENT OR PAGE_WRITE) :: u32;
          edx = ucast (pml4 - KERNEL_VIRTUAL_BASE) :: u32;
          m1 = store32 (ucast edx) eax m;
          edx1 = edx + ucast (KERNEL_PML4_ENTRY * 8);
          m2 = store32 (ucast edx1) eax m1;
          eax1 = 0 OR (PAGE_PRESENT OR PAGE_WRITE OR PAGE_SIZE_BIT);
          edx2 = ucast (pdpt - KERNEL_VIRTUAL_BASE) :: u32;
          m3 = store32 (ucast edx2) eax1 m2;
          edx3 = edx2 + ucast (KERNEL_PDPT_ENTRY * 8)
      in store32 (ucast edx3) eax1 m3)"

text \<open>A 64-bit store through the page tables; \<open>rax\<close> is aligned, so that the store stays within one page.\<close>

definition vstore64 :: "u64 \<Rightarrow> u64 \<Rightarrow> u64 \<Rightarrow> mem \<Rightarrow> mem result" where
  "vstore64 cr3 va w m =
     (case page_walk m cr3 va of None \<Rightarrow> Inl (Undefined ''page fault'') | Some pa \<Rightarrow> Inr (store64 pa w m))"

text \<open>\<open>_start_in_higher_half\<close> clears the first entry of both tables.\<close>

definition drop_identity :: "u64 \<Rightarrow> u64 \<Rightarrow> u64 \<Rightarrow> mem \<Rightarrow> mem result" where
  "drop_identity cr3 pml4 pdpt m = rbind (vstore64 cr3 pml4 0 m) (vstore64 cr3 pdpt 0)"

section \<open>The tables\<close>

text \<open>Page-aligned, distinct tables linked into the first gigabyte of the higher half, empty in the image.\<close>

definition tables_at :: "u64 \<Rightarrow> u64 \<Rightarrow> bool" where
  "tables_at pml4 pdpt \<longleftrightarrow> pml4 \<noteq> pdpt \<and>
     (\<forall>t \<in> {pml4, pdpt}. 4096 dvd unat (t - KERNEL_VIRTUAL_BASE) \<and> unat (t - KERNEL_VIRTUAL_BASE) < 2 ^ 30)"

definition table_empty :: "mem \<Rightarrow> u64 \<Rightarrow> bool" where
  "table_empty m t \<longleftrightarrow> (\<forall>i < 512. load64 m (t - KERNEL_VIRTUAL_BASE + 8 * of_nat i) = 0)"

text \<open>The entries \<open>ix4\<close> of the PML4 point to the PDPT, whose entries \<open>ix3\<close> map the first gigabyte.\<close>

definition maps_gigabyte :: "u64 \<Rightarrow> u64 \<Rightarrow> nat set \<Rightarrow> nat set \<Rightarrow> mem \<Rightarrow> bool" where
  "maps_gigabyte p4 p3 ix4 ix3 m \<longleftrightarrow>
     (\<forall>i < 512. load64 m (p4 + 8 * of_nat i) = (if i \<in> ix4 then p3 OR 3 else 0)) \<and>
     (\<forall>i < 512. load64 m (p3 + 8 * of_nat i) = (if i \<in> ix3 then 0x83 else 0))"

lemma table_slice: "take_bit 9 (drop_bit off va) = (of_nat (unat va div 2 ^ off mod 512) :: u64)"
proof -
  have "unat (take_bit 9 (drop_bit off va)) = unat va div 2 ^ off mod 512"
    by (simp only: unsigned_take_bit_eq unat_drop_bit_eq) (simp add: take_bit_eq_mod drop_bit_eq_div)
  then show ?thesis by (metis word_of_unat)
qed

lemma entry_addr_table:
  assumes "4096 dvd unat p" "unat p < 2 ^ 30"
  shows "entry_addr 12 (p OR 3) = p" "entry_addr 12 p = p"
proof -
  have low: "\<not> bit p k" if "k < 12" for k
  proof -
    have "bit (unat p) k \<longleftrightarrow> odd (unat p div 2 ^ k)" by (simp add: bit_iff_odd)
    moreover have "even (unat p div 2 ^ k)"
    proof -
      obtain q where "unat p = 2 ^ 12 * q" using assms(1) by (auto elim: dvdE)
      moreover have "(2 :: nat) ^ 12 = 2 ^ k * (2 * 2 ^ (11 - k))" using that by (simp flip: power_add power_Suc)
      ultimately have "unat p = 2 ^ k * (2 * (2 ^ (11 - k) * q))" by (simp only: mult.assoc)
      then have "unat p div 2 ^ k = 2 * (2 ^ (11 - k) * q)"
        by (simp only: nonzero_mult_div_cancel_left [OF power_not_zero [OF zero_neq_numeral [symmetric]]])
      then show ?thesis by (simp only: even_mult_iff) simp
    qed
    ultimately show ?thesis by (simp add: bit_unsigned_iff)
  qed
  have high: "\<not> bit p k" if "30 \<le> k" for k
  proof -
    have "unat p < 2 ^ k" using assms(2) that by (meson less_le_trans one_le_numeral power_increasing)
    then have "\<not> bit (unat p) k" by (simp only: bit_iff_odd div_less) simp
    then show ?thesis by (simp only: bit_unsigned_iff) simp
  qed
  have three: "bit (3 :: u64) k \<longleftrightarrow> k < 2" for k
    using bit_mask_iff [of 2 k, where 'a = u64] by (auto simp: mask_numeral)
  have mid: "12 \<le> k \<and> k < 30" if "bit p k" for k using low [of k] high [of k] that by (meson not_le)
  have "bit (entry_addr 12 w) k = bit p k" if "w = p \<or> w = p OR 3" "k < 64" for w k
    using that mid [of k]
    by (cases "bit p k") (auto simp: entry_addr_def bit_simps three simp del: bit_numeral_word_iff)
  then show "entry_addr 12 (p OR 3) = p" "entry_addr 12 p = p" by (auto intro!: bit_word_eqI)
qed

lemma page_walk_gigabyte:
  assumes "maps_gigabyte p4 p3 ix4 ix3 m" "4096 dvd unat p4" "unat p4 < 2 ^ 30" "4096 dvd unat p3" "unat p3 < 2 ^ 30"
  shows "page_walk m p4 va =
    (if canonical va \<and> unat va div 2 ^ 39 mod 512 \<in> ix4 \<and> unat va div 2 ^ 30 mod 512 \<in> ix3 then Some (take_bit 30 va) else None)"
proof -
  let ?i = "unat va div 2 ^ 39 mod 512" and ?j = "unat va div 2 ^ 30 mod 512"
  have e4: "load64 m (entry_addr 12 p4 + 8 * take_bit 9 (drop_bit 39 va)) = (if ?i \<in> ix4 then p3 OR 3 else 0)"
    using assms(1) unfolding table_slice by (simp add: entry_addr_table [OF assms(2,3)] maps_gigabyte_def)
  have e3: "load64 m (p3 + 8 * take_bit 9 (drop_bit 30 va)) = (if ?j \<in> ix3 then 0x83 else 0)"
    using assms(1) unfolding table_slice by (simp add: maps_gigabyte_def)
  have b: "bit (p3 OR 3) 0" by (simp add: bit_or_iff)
  have z: "entry_addr 30 0x83 = 0" by (simp add: entry_addr_def take_bit_eq_mask)
  show ?thesis
  proof (cases "canonical va \<and> ?i \<in> ix4")
    case True
    then show ?thesis
      unfolding page_walk_def Let_def e4 by (simp add: entry_addr_table [OF assms(4,5)] e3 b z)
  next
    case False
    then show ?thesis unfolding page_walk_def Let_def e4 by auto
  qed
qed
lemma table_cell:
  fixes p :: u64
  assumes "unat p < 2 ^ 30" "i < 512"
  shows "unat (p + 8 * of_nat i) = unat p + 8 * i"
proof -
  have "unat p + 8 * i < 2 ^ 64" using assms by simp
  then have "unat (of_nat (unat p + 8 * i) :: u64) = unat p + 8 * i" by (rule unat_of_nat_u64)
  then show ?thesis by (simp only: of_nat_add of_nat_mult word_of_unat of_nat_numeral)
qed

lemma tables_disjoint:
  assumes "tables_at pml4 pdpt" "i < 512" "j < 512"
  shows "disjoint64 (pml4 - KERNEL_VIRTUAL_BASE + 8 * of_nat i) (pdpt - KERNEL_VIRTUAL_BASE + 8 * of_nat j)"
    "disjoint64 (pdpt - KERNEL_VIRTUAL_BASE + 8 * of_nat i) (pml4 - KERNEL_VIRTUAL_BASE + 8 * of_nat j)"
proof -
  define p4 p3 where "p4 = pml4 - KERNEL_VIRTUAL_BASE" and "p3 = pdpt - KERNEL_VIRTUAL_BASE"
  have ok: "4096 dvd unat p4" "unat p4 < 2 ^ 30" "4096 dvd unat p3" "unat p3 < 2 ^ 30" "p4 \<noteq> p3"
    using assms(1) by (simp_all add: tables_at_def p4_def p3_def)
  have "unat p4 \<noteq> unat p3" using ok(5) by (simp add: word_unat_eq_iff)
  then have gap: "unat p4 + 4096 \<le> unat p3 \<or> unat p3 + 4096 \<le> unat p4"
    using ok(1,3) by (auto elim!: dvdE)
  have "disjoint64 (p4 + 8 * of_nat i) (p3 + 8 * of_nat j)" if "i < 512" "j < 512" for i j
    using gap that ok(2,4) by (intro disjoint64_nat) (auto simp: table_cell)
  then show "disjoint64 (pml4 - KERNEL_VIRTUAL_BASE + 8 * of_nat i) (pdpt - KERNEL_VIRTUAL_BASE + 8 * of_nat j)"
    "disjoint64 (pdpt - KERNEL_VIRTUAL_BASE + 8 * of_nat i) (pml4 - KERNEL_VIRTUAL_BASE + 8 * of_nat j)"
    using assms(2,3) by (simp_all add: p4_def p3_def disjoint64_sym)
qed

lemma store_cell:
  assumes "i < 512" "j < 512"
  shows "load64 (store64 (t + 8 * of_nat i) w m) (t + 8 * of_nat j) = (if i = j then w else load64 m (t + 8 * of_nat j))"
  using assms disjoint64_array [of i j t] by auto

lemma u32_cell:
  assumes "unat p < 2 ^ 30" "i < 512"
  shows "ucast (ucast p + ucast (8 * of_nat i :: u64) :: u32) = p + 8 * of_nat i" (is "?l = ?r")
proof -
  have "unat (8 * of_nat i :: u64) = 8 * i" using table_cell [of 0 i] assms(2) by simp
  then have "(of_nat (8 * i) :: u32) = ucast (8 * of_nat i :: u64)" by (metis of_nat_unat)
  then have "(ucast p :: u32) + ucast (8 * of_nat i :: u64) = of_nat (unat p + 8 * i)"
    by (simp only: of_nat_add of_nat_unat)
  then have "?l = of_nat (unat (of_nat (unat p + 8 * i) :: u32))" by (simp only: of_nat_unat)
  also have "\<dots> = of_nat (unat p + 8 * i)" using assms by (subst unat_of_nat_u32) simp_all
  finally show ?thesis by (simp only: of_nat_add of_nat_mult word_of_unat of_nat_numeral)
qed

lemma start_tables_stores:
  assumes "tables_at pml4 pdpt"
  shows "start_tables pml4 pdpt m =
    (let p4 = pml4 - KERNEL_VIRTUAL_BASE; p3 = pdpt - KERNEL_VIRTUAL_BASE
     in store32 (p3 + 8 * of_nat 510) 0x83 (store32 (p3 + 8 * of_nat 0) 0x83
         (store32 (p4 + 8 * of_nat 511) (ucast p3 OR 3) (store32 (p4 + 8 * of_nat 0) (ucast p3 OR 3) m))))"
proof -
  define p4 p3 where "p4 = pml4 - KERNEL_VIRTUAL_BASE" and "p3 = pdpt - KERNEL_VIRTUAL_BASE"
  have p: "unat p4 < 2 ^ 30" "unat p3 < 2 ^ 30" using assms by (simp_all add: tables_at_def p4_def p3_def)
  have ix: "KERNEL_PML4_ENTRY * 8 = 8 * of_nat 511" "KERNEL_PDPT_ENTRY * 8 = 8 * of_nat 510"
    by (simp_all add: KERNEL_PML4_ENTRY_def KERNEL_PDPT_ENTRY_def ENTRY_def KERNEL_VIRTUAL_BASE_def)
  have flags: "PAGE_PRESENT OR PAGE_WRITE = 3" "0 OR (PAGE_PRESENT OR PAGE_WRITE OR PAGE_SIZE_BIT) = 0x83"
    by (simp_all add: PAGE_PRESENT_def PAGE_WRITE_def PAGE_SIZE_BIT_def)
  have zero: "ucast (ucast p4 :: u32) = p4 + 8 * of_nat 0" "ucast (ucast p3 :: u32) = p3 + 8 * of_nat 0"
    using u32_cell [OF p(1), of 0] u32_cell [OF p(2), of 0] by simp_all
  have last: "ucast (ucast p4 + ucast (8 * of_nat 511 :: u64) :: u32) = p4 + 8 * of_nat 511"
    "ucast (ucast p3 + ucast (8 * of_nat 510 :: u64) :: u32) = p3 + 8 * of_nat 510"
    by (intro u32_cell p, simp)+
  show ?thesis
    unfolding start_tables_def Let_def ix flags p4_def [symmetric] p3_def [symmetric] zero last ..
qed

lemma start_maps:
  assumes "tables_at pml4 pdpt" "table_empty m pml4" "table_empty m pdpt"
  shows "maps_gigabyte (pml4 - KERNEL_VIRTUAL_BASE) (pdpt - KERNEL_VIRTUAL_BASE) {0, 511} {0, 510} (start_tables pml4 pdpt m)"
proof -
  define p4 p3 where "p4 = pml4 - KERNEL_VIRTUAL_BASE" and "p3 = pdpt - KERNEL_VIRTUAL_BASE"
  have dis: "disjoint64 (p4 + 8 * of_nat i) (p3 + 8 * of_nat j)" "disjoint64 (p3 + 8 * of_nat i) (p4 + 8 * of_nat j)"
    if "i < 512" "j < 512" for i j
    using tables_disjoint [OF assms(1) that] by (simp_all add: p4_def p3_def)
  have across: "load64 (store64 (p4 + 8 * of_nat i) w n) (p3 + 8 * of_nat j) = load64 n (p3 + 8 * of_nat j)"
    "load64 (store64 (p3 + 8 * of_nat i) w n) (p4 + 8 * of_nat j) = load64 n (p4 + 8 * of_nat j)"
    if "i < 512" "j < 512" for i j w n
    using dis [OF that] by (simp_all only: load64_store64_disjoint)
  have none: "load64 m (p4 + 8 * of_nat i) = 0" "load64 m (p3 + 8 * of_nat i) = 0" if "i < 512" for i
    using assms(2,3) that by (simp_all add: table_empty_def p4_def p3_def)
  have "unat p3 < 2 ^ 30" using assms(1) by (simp add: tables_at_def p3_def)
  then have wide: "ucast (ucast p3 :: u32) = p3" using u32_cell [of p3 0] by simp
  have v: "ucast (ucast p3 OR 3 :: u32) = p3 OR 3" "ucast (0x83 :: u32) = (0x83 :: u64)"
    using wide by (simp_all add: unsigned_or_eq)
  note cells = store_cell across none
  have chain: "store32 (p3 + 8 * of_nat y) 0x83 (store32 (p3 + 8 * of_nat z) 0x83
      (store32 (p4 + 8 * of_nat x) (ucast p3 OR 3) (store32 (p4 + 8 * of_nat z) (ucast p3 OR 3) m))) =
    store64 (p3 + 8 * of_nat y) 0x83 (store64 (p3 + 8 * of_nat z) 0x83
      (store64 (p4 + 8 * of_nat x) (p3 OR 3) (store64 (p4 + 8 * of_nat z) (p3 OR 3) m)))"
    if "x < 512" "y < 512" "z < 512" "z \<noteq> x" "z \<noteq> y" for x y z
    using that by (simp add: store32_as_64 cells v)
  have "start_tables pml4 pdpt m =
    store64 (p3 + 8 * of_nat 510) 0x83 (store64 (p3 + 8 * of_nat 0) 0x83
      (store64 (p4 + 8 * of_nat 511) (p3 OR 3) (store64 (p4 + 8 * of_nat 0) (p3 OR 3) m)))"
    unfolding start_tables_stores [OF assms(1)] Let_def p4_def [symmetric] p3_def [symmetric]
    by (rule chain) simp_all
  moreover have "maps_gigabyte p4 p3 {z, x} {z, y} (store64 (p3 + 8 * of_nat y) 0x83 (store64 (p3 + 8 * of_nat z) 0x83
      (store64 (p4 + 8 * of_nat x) (p3 OR 3) (store64 (p4 + 8 * of_nat z) (p3 OR 3) m))))"
    if "x < 512" "y < 512" "z < 512" for x y z
    using that unfolding maps_gigabyte_def by (simp add: cells)
  from this [of 511 510 0] have "maps_gigabyte p4 p3 {0, 511} {0, 510} (store64 (p3 + 8 * of_nat 510) 0x83
      (store64 (p3 + 8 * of_nat 0) 0x83 (store64 (p4 + 8 * of_nat 511) (p3 OR 3) (store64 (p4 + 8 * of_nat 0) (p3 OR 3) m))))"
    by linarith
  ultimately show ?thesis by (simp only: p4_def p3_def)
qed

section \<open>The window of the kernel\<close>

lemma gigabyte_index:
  fixes n :: nat
  assumes "n < 2 ^ 64"
  shows "(n div 2 ^ 47 = 0 \<or> n div 2 ^ 47 = 0x1FFFF) \<and> n div 2 ^ 39 mod 512 = 511 \<and> n div 2 ^ 30 mod 512 = 510
    \<longleftrightarrow> n div 2 ^ 30 = 0x3FFFFFFFE"
proof -
  define q where "q = n div 2 ^ 30"
  have q: "n div 2 ^ 39 = q div 512" "n div 2 ^ 47 = q div 131072" by (simp_all add: q_def flip: div_mult2_eq)
  have "(q div 131072 = 0 \<or> q div 131072 = 0x1FFFF) \<and> q div 512 mod 512 = 511 \<and> q mod 512 = 510 \<longleftrightarrow> q = 0x3FFFFFFFE"
  proof
    assume as: "(q div 131072 = 0 \<or> q div 131072 = 0x1FFFF) \<and> q div 512 mod 512 = 511 \<and> q mod 512 = 510"
    define r where "r = q div 512"
    define s where "s = r div 512"
    have r: "r = 512 * s + 511" using as div_mult_mod_eq [of r 512] by (simp add: s_def r_def)
    have "q div 131072 = r div 256" by (simp add: r_def flip: div_mult2_eq)
    moreover have "r div 256 = 2 * s + 1" using r by simp
    ultimately have "s = 65535" using as by auto
    moreover have "q = 512 * r + 510" using as div_mult_mod_eq [of q 512] by (simp add: r_def)
    ultimately show "q = 0x3FFFFFFFE" using r by simp
  qed simp
  then show ?thesis unfolding q q_def [symmetric] .
qed

lemma kernel_window:
  "canonical va \<and> unat va div 2 ^ 39 mod 512 = 511 \<and> unat va div 2 ^ 30 mod 512 = 510 \<longleftrightarrow> va - KERNEL_VIRTUAL_BASE < 2 ^ 30"
proof -
  have "canonical va \<longleftrightarrow> unat va div 2 ^ 47 = 0 \<or> unat va div 2 ^ 47 = 0x1FFFF"
    by (simp add: canonical_def word_unat_eq_iff drop_bit_eq_div unat_div)
  then have "canonical va \<and> unat va div 2 ^ 39 mod 512 = 511 \<and> unat va div 2 ^ 30 mod 512 = 510 \<longleftrightarrow> unat va div 2 ^ 30 = 0x3FFFFFFFE"
    using gigabyte_index [OF unat_u64_less [of va]] by simp
  also have "\<dots> \<longleftrightarrow> 0x3FFFFFFFE \<le> unat va div 2 ^ 30 \<and> unat va div 2 ^ 30 < 0x3FFFFFFFF" by linarith
  also have "\<dots> \<longleftrightarrow> 0xFFFFFFFF80000000 \<le> unat va \<and> unat va < 0xFFFFFFFFC0000000"
    by (simp add: less_eq_div_iff_mult_less_eq div_less_iff_less_mult)
  also have "\<dots> \<longleftrightarrow> va - KERNEL_VIRTUAL_BASE < 2 ^ 30"
  proof (cases "unat KERNEL_VIRTUAL_BASE \<le> unat va")
    case True
    then have "unat (va - KERNEL_VIRTUAL_BASE) = unat va - 0xFFFFFFFF80000000"
      by (simp add: unat_sub word_le_nat_alt KERNEL_VIRTUAL_BASE_def)
    then show ?thesis using True by (auto simp: word_less_nat_alt KERNEL_VIRTUAL_BASE_def)
  next
    case False
    then have "unat (va - KERNEL_VIRTUAL_BASE) = unat va + 2 ^ 31"
      by (simp add: unat_sub_if' KERNEL_VIRTUAL_BASE_def)
    then show ?thesis using False by (auto simp: word_less_nat_alt KERNEL_VIRTUAL_BASE_def)
  qed
  finally show ?thesis .
qed

lemma window_offset:
  assumes "va - KERNEL_VIRTUAL_BASE < 2 ^ 30"
  shows "take_bit 30 va = va - KERNEL_VIRTUAL_BASE"
proof -
  define x where "x = va - KERNEL_VIRTUAL_BASE"
  have va: "va = x + KERNEL_VIRTUAL_BASE" by (simp add: x_def)
  have x: "unat x < 2 ^ 30" using assms by (simp add: x_def word_less_nat_alt)
  have dvd: "(2 :: nat) ^ 30 dvd 2 ^ 64" by (rule le_imp_power_dvd) simp
  have "unat (take_bit 30 va) = (unat x + 0xFFFFFFFF80000000) mod 2 ^ 64 mod 2 ^ 30"
    by (simp add: va KERNEL_VIRTUAL_BASE_def unsigned_take_bit_eq take_bit_eq_mod unat_word_ariths)
  also have "\<dots> = (unat x + 0x3FFFFFFFE * 2 ^ 30) mod 2 ^ 30" using mod_mod_cancel [OF dvd] by simp
  also have "\<dots> = unat x" using x by (simp only: mod_mult_self1 mod_less)
  finally show ?thesis by (simp add: x_def word_unat_eq_iff)
qed

lemma table_mapped:
  assumes "maps_gigabyte (pml4 - KERNEL_VIRTUAL_BASE) (pdpt - KERNEL_VIRTUAL_BASE) ix4 ix3 m" "511 \<in> ix4" "510 \<in> ix3"
    and "tables_at pml4 pdpt" "t \<in> {pml4, pdpt}"
  shows "page_walk m (pml4 - KERNEL_VIRTUAL_BASE) t = Some (t - KERNEL_VIRTUAL_BASE)"
proof -
  have t: "t - KERNEL_VIRTUAL_BASE < 2 ^ 30" using assms(4,5) by (auto simp: tables_at_def word_less_nat_alt)
  have "canonical t \<and> unat t div 2 ^ 39 mod 512 \<in> ix4 \<and> unat t div 2 ^ 30 mod 512 \<in> ix3"
    using t [folded kernel_window] assms(2,3) by simp
  then show ?thesis
    using assms(4) window_offset [OF t] by (simp add: page_walk_gigabyte [OF assms(1)] tables_at_def)
qed

lemma drop_identity_maps:
  assumes "tables_at pml4 pdpt"
    "maps_gigabyte (pml4 - KERNEL_VIRTUAL_BASE) (pdpt - KERNEL_VIRTUAL_BASE) {0, 511} {0, 510} m"
  shows "drop_identity (pml4 - KERNEL_VIRTUAL_BASE) pml4 pdpt m =
      Inr (store64 (pdpt - KERNEL_VIRTUAL_BASE) 0 (store64 (pml4 - KERNEL_VIRTUAL_BASE) 0 m))" (is ?run)
    and "maps_gigabyte (pml4 - KERNEL_VIRTUAL_BASE) (pdpt - KERNEL_VIRTUAL_BASE) {511} {510}
      (store64 (pdpt - KERNEL_VIRTUAL_BASE) 0 (store64 (pml4 - KERNEL_VIRTUAL_BASE) 0 m))" (is ?maps)
proof -
  define p4 p3 where "p4 = pml4 - KERNEL_VIRTUAL_BASE" and "p3 = pdpt - KERNEL_VIRTUAL_BASE"
  have dis: "disjoint64 (p4 + 8 * of_nat i) (p3 + 8 * of_nat j)" "disjoint64 (p3 + 8 * of_nat i) (p4 + 8 * of_nat j)"
    if "i < 512" "j < 512" for i j
    using tables_disjoint [OF assms(1) that] by (simp_all add: p4_def p3_def)
  have cells: "load64 (store64 p4 w n) (p4 + 8 * of_nat j) = (if j = 0 then w else load64 n (p4 + 8 * of_nat j))"
    "load64 (store64 p3 w n) (p3 + 8 * of_nat j) = (if j = 0 then w else load64 n (p3 + 8 * of_nat j))"
    "load64 (store64 p4 w n) (p3 + 8 * of_nat j) = load64 n (p3 + 8 * of_nat j)"
    "load64 (store64 p3 w n) (p4 + 8 * of_nat j) = load64 n (p4 + 8 * of_nat j)"
    if "j < 512" for j w n
    using dis [of 0 j] that store_cell [of 0 j p4 w n] store_cell [of 0 j p3 w n] by auto
  have e: "load64 m (p4 + 8 * of_nat i) = (if i \<in> {0, 511} then p3 OR 3 else 0)"
    "load64 m (p3 + 8 * of_nat i) = (if i \<in> {0, 510} then 0x83 else 0)" if "i < 512" for i
    using assms(2) that by (simp_all add: maps_gigabyte_def p4_def p3_def)
  have m1: "maps_gigabyte p4 p3 {511} {0, 510} (store64 p4 0 m)"
    using e(1) [of 511] unfolding maps_gigabyte_def by (simp add: cells e)
  have "maps_gigabyte p4 p3 {511} {510} (store64 p3 0 (store64 p4 0 m))"
    using e(1) [of 511] e(2) [of 510] cells(3) [of 510 0 m] unfolding maps_gigabyte_def by (simp add: cells e)
  then show ?maps by (simp only: p4_def p3_def)
  show ?run
    using table_mapped [OF assms(2) _ _ assms(1), of pml4] table_mapped [OF m1 [unfolded p4_def p3_def] _ _ assms(1), of pdpt]
    by (simp add: drop_identity_def vstore64_def)
qed

text \<open>The memory after the boot code, and what it leaves alone.\<close>

definition boot_memory :: "u64 \<Rightarrow> u64 \<Rightarrow> mem \<Rightarrow> mem result" where
  "boot_memory pml4 pdpt m = drop_identity (pml4 - KERNEL_VIRTUAL_BASE) pml4 pdpt (start_tables pml4 pdpt m)"

lemma store_cell_frame:
  assumes "4096 \<le> b - p" "i < 512"
  shows "store64 (p + 8 * of_nat i) w m b = m b"
proof (rule store64_frame)
  have i: "unat (8 * of_nat i :: u64) = 8 * i" using table_cell [of 0 i] assms(2) by simp
  have "unat (b - p - 8 * of_nat i) = unat (b - p) - 8 * i"
    using assms i by (subst unat_sub) (simp_all add: word_le_nat_alt)
  then show "8 \<le> b - (p + 8 * of_nat i)" using assms by (simp add: word_le_nat_alt diff_diff_eq)
qed

lemma start_tables_frame:
  assumes "tables_at pml4 pdpt" "4096 \<le> b - (pml4 - KERNEL_VIRTUAL_BASE)" "4096 \<le> b - (pdpt - KERNEL_VIRTUAL_BASE)"
  shows "start_tables pml4 pdpt m b = m b"
proof -
  have "store64 (pml4 - KERNEL_VIRTUAL_BASE + 8 * of_nat i) w n b = n b" "store64 (pdpt - KERNEL_VIRTUAL_BASE + 8 * of_nat i) w n b = n b"
    if "i < 512" for i w n
    using store_cell_frame [OF assms(2) that] store_cell_frame [OF assms(3) that] by simp_all
  then have frame: "store32 (pml4 - KERNEL_VIRTUAL_BASE + 8 * of_nat i) w n b = n b"
    "store32 (pdpt - KERNEL_VIRTUAL_BASE + 8 * of_nat i) w n b = n b"
    if "i < 512" for i w n using that by (simp_all only: store32_as_64)
  show ?thesis
    unfolding start_tables_stores [OF assms(1)] Let_def by (subst frame, simp)+ (rule refl)
qed

lemma boot_memory_maps:
  assumes "tables_at pml4 pdpt" "table_empty m pml4" "table_empty m pdpt"
  obtains m' where "boot_memory pml4 pdpt m = Inr m'"
    "maps_gigabyte (pml4 - KERNEL_VIRTUAL_BASE) (pdpt - KERNEL_VIRTUAL_BASE) {511} {510} m'"
    "\<And>b. 4096 \<le> b - (pml4 - KERNEL_VIRTUAL_BASE) \<Longrightarrow> 4096 \<le> b - (pdpt - KERNEL_VIRTUAL_BASE) \<Longrightarrow> m' b = m b"
proof -
  note d = drop_identity_maps [OF assms(1) start_maps [OF assms]]
  show thesis
  proof (rule that)
    show "boot_memory pml4 pdpt m = Inr (store64 (pdpt - KERNEL_VIRTUAL_BASE) 0
      (store64 (pml4 - KERNEL_VIRTUAL_BASE) 0 (start_tables pml4 pdpt m)))"
      by (simp add: boot_memory_def d(1))
    fix b
    assume b: "4096 \<le> b - (pml4 - KERNEL_VIRTUAL_BASE)" "4096 \<le> b - (pdpt - KERNEL_VIRTUAL_BASE)"
    show "store64 (pdpt - KERNEL_VIRTUAL_BASE) 0 (store64 (pml4 - KERNEL_VIRTUAL_BASE) 0 (start_tables pml4 pdpt m)) b = m b"
      using store_cell_frame [OF b(1), of 0] store_cell_frame [OF b(2), of 0] start_tables_frame [OF assms(1) b] by simp
  qed (rule d(2))
qed

lemma walk_boot_memory:
  assumes "tables_at pml4 pdpt" "maps_gigabyte (pml4 - KERNEL_VIRTUAL_BASE) (pdpt - KERNEL_VIRTUAL_BASE) {511} {510} m'"
  shows "page_walk m' (pml4 - KERNEL_VIRTUAL_BASE) va =
    (if va - KERNEL_VIRTUAL_BASE < 2 ^ 30 then Some (va - KERNEL_VIRTUAL_BASE) else None)"
  using assms(1) window_offset [of va] kernel_window [of va]
  by (simp add: page_walk_gigabyte [OF assms(2)] tables_at_def)

section \<open>Claims\<close>

text \<open>
  C11: The address space of the kernel. While the boot code still runs at physical addresses, the first gigabyte is
  mapped to itself and to \<open>KERNEL_VIRTUAL_BASE\<close>. Clearing the first entries through the higher half does not fault,
  and afterwards exactly the gigabyte from \<open>KERNEL_VIRTUAL_BASE\<close> on is mapped, to the first gigabyte of physical
  memory; every other address faults. No memory but the two tables has changed.
\<close>

theorem boot_maps_higher_half:
  assumes "tables_at pml4 pdpt" "table_empty m pml4" "table_empty m pdpt"
  shows "(\<forall>pa < 2 ^ 30. page_walk (start_tables pml4 pdpt m) (pml4 - KERNEL_VIRTUAL_BASE) pa = Some pa \<and>
      page_walk (start_tables pml4 pdpt m) (pml4 - KERNEL_VIRTUAL_BASE) (KERNEL_VIRTUAL_BASE + pa) = Some pa) \<and>
    (\<exists>m'. boot_memory pml4 pdpt m = Inr m' \<and>
      (\<forall>va. page_walk m' (pml4 - KERNEL_VIRTUAL_BASE) va =
        (if va - KERNEL_VIRTUAL_BASE < 2 ^ 30 then Some (va - KERNEL_VIRTUAL_BASE) else None)) \<and>
      (\<forall>b. 4096 \<le> b - (pml4 - KERNEL_VIRTUAL_BASE) \<longrightarrow> 4096 \<le> b - (pdpt - KERNEL_VIRTUAL_BASE) \<longrightarrow> m' b = m b))"
proof (intro conjI allI impI)
  fix pa :: u64
  assume pa: "pa < 2 ^ 30"
  have "unat pa < 2 ^ 30" using pa by (simp add: word_less_nat_alt)
  then have "canonical pa \<and> unat pa div 2 ^ 39 mod 512 = 0 \<and> unat pa div 2 ^ 30 mod 512 = 0"
    by (simp add: canonical_def drop_bit_eq_div word_unat_eq_iff unat_div)
  moreover have "take_bit 30 pa = pa"
    using \<open>unat pa < 2 ^ 30\<close> by (simp add: word_unat_eq_iff unsigned_take_bit_eq take_bit_nat_eq_self)
  ultimately show "page_walk (start_tables pml4 pdpt m) (pml4 - KERNEL_VIRTUAL_BASE) pa = Some pa"
    using assms(1) by (simp add: page_walk_gigabyte [OF start_maps [OF assms]] tables_at_def)
  have "(KERNEL_VIRTUAL_BASE + pa) - KERNEL_VIRTUAL_BASE < 2 ^ 30" using pa by simp
  from window_offset [OF this] this [folded kernel_window]
  show "page_walk (start_tables pml4 pdpt m) (pml4 - KERNEL_VIRTUAL_BASE) (KERNEL_VIRTUAL_BASE + pa) = Some pa"
    using assms(1) by (simp add: page_walk_gigabyte [OF start_maps [OF assms]] tables_at_def)
next
  obtain m' where "boot_memory pml4 pdpt m = Inr m'"
    "maps_gigabyte (pml4 - KERNEL_VIRTUAL_BASE) (pdpt - KERNEL_VIRTUAL_BASE) {511} {510} m'"
    "\<And>b. 4096 \<le> b - (pml4 - KERNEL_VIRTUAL_BASE) \<Longrightarrow> 4096 \<le> b - (pdpt - KERNEL_VIRTUAL_BASE) \<Longrightarrow> m' b = m b"
    by (rule boot_memory_maps [OF assms]) blast
  then show "\<exists>m'. boot_memory pml4 pdpt m = Inr m' \<and>
      (\<forall>va. page_walk m' (pml4 - KERNEL_VIRTUAL_BASE) va =
        (if va - KERNEL_VIRTUAL_BASE < 2 ^ 30 then Some (va - KERNEL_VIRTUAL_BASE) else None)) \<and>
      (\<forall>b. 4096 \<le> b - (pml4 - KERNEL_VIRTUAL_BASE) \<longrightarrow> 4096 \<le> b - (pdpt - KERNEL_VIRTUAL_BASE) \<longrightarrow> m' b = m b)"
    using walk_boot_memory [OF assms(1)] by blast
qed

text \<open>Tables where the linker script puts them.\<close>

lemma tables_example:
  "tables_at 0xFFFFFFFF80109000 0xFFFFFFFF8010A000" "table_empty (\<lambda>_. 0) t"
  by (simp_all add: tables_at_def KERNEL_VIRTUAL_BASE_def table_empty_def load64_def dvd_def)

theorem boot_maps_higher_half_witness:
  "tables_at 0xFFFFFFFF80109000 0xFFFFFFFF8010A000 \<and>
   (\<exists>m'. boot_memory 0xFFFFFFFF80109000 0xFFFFFFFF8010A000 (\<lambda>_. 0) = Inr m' \<and>
     page_walk m' 0x109000 0xFFFFFFFF800B8000 = Some 0xB8000 \<and> page_walk m' 0x109000 0xB8000 = None)"
proof -
  have cr3: "0xFFFFFFFF80109000 - KERNEL_VIRTUAL_BASE = 0x109000" by (simp add: KERNEL_VIRTUAL_BASE_def)
  obtain m' where m': "boot_memory 0xFFFFFFFF80109000 0xFFFFFFFF8010A000 (\<lambda>_. 0) = Inr m'"
    "\<And>va. page_walk m' 0x109000 va = (if va - KERNEL_VIRTUAL_BASE < 2 ^ 30 then Some (va - KERNEL_VIRTUAL_BASE) else None)"
    using boot_maps_higher_half [OF tables_example(1,2,2)] unfolding cr3 by blast
  then show ?thesis using tables_example(1) m'(2) [of "0xFFFFFFFF800B8000"] m'(2) [of "0xB8000"]
    by (simp add: KERNEL_VIRTUAL_BASE_def)
qed

text \<open>
  C24: \<open>PageAllocator\<close> agrees with the page tables only below one gigabyte. \<open>alloc_page\<close> takes the lowest page \<open>i\<close> whose
  bit is clear, marks it and no other one, and returns the kernel's base plus \<open>4096 * i\<close>. On the page tables of the boot
  code every byte of that page is mapped to the same byte of the physical page \<open>i\<close> if \<open>i\<close> is below \<open>2 ^ 18\<close>, that is, in
  the first gigabyte; otherwise every access to the page faults, although the allocator has handed it out.
\<close>

theorem allocated_page_mapped_iff:
  assumes "tables_at pml4 pdpt" "table_empty m pml4" "table_empty m pdpt" "boot_memory pml4 pdpt m = Inr m'"
    and "m_kernel_base (k_pages k) = KERNEL_VIRTUAL_BASE" "k_ok k" "i < bs_cap (k_bitmap k)" "\<not> bs_get (k_bitmap k) i"
    and "\<And>j. j < i \<Longrightarrow> bs_get (k_bitmap k) j"
  shows "\<exists>va k'. alloc_page k = Inr (va, k') \<and> va = KERNEL_VIRTUAL_BASE + of_nat (4096 * i) \<and> k_ok k' \<and>
    (\<forall>j < 2 ^ 64. bs_get (k_bitmap k') j = (j = i \<or> bs_get (k_bitmap k) j)) \<and>
    (\<forall>off < 4096. page_walk m' (pml4 - KERNEL_VIRTUAL_BASE) (va + of_nat off) =
      (if i < 2 ^ 18 then Some (of_nat (4096 * i + off)) else None))"
proof -
  obtain m'' where "boot_memory pml4 pdpt m = Inr m''"
    "maps_gigabyte (pml4 - KERNEL_VIRTUAL_BASE) (pdpt - KERNEL_VIRTUAL_BASE) {511} {510} m''"
    by (rule boot_memory_maps [OF assms(1-3)]) blast
  then have walk: "page_walk m' (pml4 - KERNEL_VIRTUAL_BASE) x =
    (if x - KERNEL_VIRTUAL_BASE < 2 ^ 30 then Some (x - KERNEL_VIRTUAL_BASE) else None)" for x
    using walk_boot_memory [OF assms(1)] assms(4) by simp
  have "i < 2 ^ 52" using assms(6,7) pages_ok_cap [of "k_bitmap k"] by (simp add: k_ok_def)
  then have off: "unat (of_nat (4096 * i + off) :: u64) = 4096 * i + off" if "off < 4096" for off
    using that by (intro unat_of_nat_u64) simp
  have "page_walk m' (pml4 - KERNEL_VIRTUAL_BASE) (KERNEL_VIRTUAL_BASE + of_nat (4096 * i) + of_nat off) =
    (if i < 2 ^ 18 then Some (of_nat (4096 * i + off)) else None)" if "off < 4096" for off
  proof -
    have "KERNEL_VIRTUAL_BASE + of_nat (4096 * i) + of_nat off - KERNEL_VIRTUAL_BASE = (of_nat (4096 * i + off) :: u64)"
      by simp
    moreover have "(of_nat (4096 * i + off) :: u64) < 2 ^ 30 \<longleftrightarrow> i < 2 ^ 18"
      using off [OF that] that by (simp only: word_less_nat_alt) auto
    ultimately show ?thesis by (simp only: walk)
  qed
  then show ?thesis
    using alloc_page_first [OF assms(6-9)] unfolding assms(5) by (metis (no_types, lifting))
qed

text \<open>An allocator for 2 GiB that has given away the first gigabyte.\<close>

definition k_large :: kmem where
  "k_large = \<lparr>k_mem = (\<lambda>b. if b < 0x8000 then 255 else 0), k_dumb = \<lparr>m_mem_end = 0x2000\<rparr>,
     k_pages = \<lparr>m_kernel_base = 0xFFFFFFFF80000000, m_page_count = 0x80000,
       m_allocator = \<lparr>m_set = 0, m_bitcount = 0x80000\<rparr>\<rparr>\<rparr>"

lemma k_large_bit: "j < 2 ^ 19 \<Longrightarrow> bs_get (k_bitmap k_large) j \<longleftrightarrow> j < 2 ^ 18"
proof -
  assume j: "j < 2 ^ 19"
  have "8 * (j div 64) + j mod 64 div 8 = j div 8"
    using div_mult2_eq [of j 8 8] mod_mult2_eq [of j 8 8] by simp
  then have w: "(8 * of_nat (j div 64) + of_nat (j mod 64 div 8) :: u64) = of_nat (j div 8)"
    by (metis of_nat_add of_nat_mult of_nat_numeral)
  have "unat (of_nat (j div 8) :: u64) = j div 8" using j by (intro unat_of_nat_u64) simp
  then have lt: "(of_nat (j div 8) :: u64) < 0x8000 \<longleftrightarrow> j < 2 ^ 18"
    by (simp add: word_less_nat_alt div_less_iff_less_mult del: of_nat_div unsigned_of_nat)
  have "bit (k_mem k_large b) (j mod 64 mod 8) \<longleftrightarrow> b < 0x8000" for b
    by (simp add: k_large_def bit_255 del: bit_numeral_word_iff)
  moreover have "m_set (m_allocator (k_pages k_large)) = 0" by (simp add: k_large_def)
  ultimately show ?thesis
    by (simp only: k_bitmap_def bs_get_def bits_def word_at_def bit_load64 fst_conv snd_conv add_0_left w lt) simp
qed

lemma k_large_ok:
  "k_ok k_large" "bs_cap (k_bitmap k_large) = 2 ^ 19" "m_kernel_base (k_pages k_large) = 0xFFFFFFFF80000000"
  by (simp_all add: k_large_def k_defs pages_ok_def bs_cap_def words_below_def)

theorem allocated_page_mapped_iff_witness:
  "\<exists>m' k' k2. boot_memory 0xFFFFFFFF80109000 0xFFFFFFFF8010A000 (\<lambda>_. 0) = Inr m' \<and>
     alloc_page k_example = Inr (0xFFFFFFFF80000000, k') \<and> page_walk m' 0x109000 0xFFFFFFFF80000123 = Some 0x123 \<and>
     alloc_page k_large = Inr (0xFFFFFFFFC0000000, k2) \<and> page_walk m' 0x109000 0xFFFFFFFFC0000000 = None"
proof -
  have cr3: "0xFFFFFFFF80109000 - KERNEL_VIRTUAL_BASE = 0x109000" by (simp add: KERNEL_VIRTUAL_BASE_def)
  obtain m' where m': "boot_memory 0xFFFFFFFF80109000 0xFFFFFFFF8010A000 (\<lambda>_. 0) = Inr m'"
    by (rule boot_memory_maps [OF tables_example(1,2,2)])
  note claim = allocated_page_mapped_iff [OF tables_example(1,2,2) m', unfolded cr3]
  have one: "\<exists>k'. alloc_page k_example = Inr (0xFFFFFFFF80000000, k') \<and>
    (\<forall>off < 4096. page_walk m' 0x109000 (0xFFFFFFFF80000000 + of_nat off) = Some (of_nat off))"
    using claim [where k = k_example and i = 0] by (simp add: k_example_simps KERNEL_VIRTUAL_BASE_def) blast
  have two: "\<exists>k'. alloc_page k_large = Inr (0xFFFFFFFFC0000000, k') \<and>
    (\<forall>off < 4096. page_walk m' 0x109000 (0xFFFFFFFFC0000000 + of_nat off) = None)"
    using claim [where k = k_large and i = "2 ^ 18"]
    by (simp add: k_large_bit k_large_ok KERNEL_VIRTUAL_BASE_def) blast
  from one two obtain k1 k2 where k: "alloc_page k_example = Inr (0xFFFFFFFF80000000, k1)"
    "alloc_page k_large = Inr (0xFFFFFFFFC0000000, k2)"
    and w: "\<And>off. off < 4096 \<Longrightarrow> page_walk m' 0x109000 (0xFFFFFFFF80000000 + of_nat off) = Some (of_nat off)"
      "\<And>off. off < 4096 \<Longrightarrow> page_walk m' 0x109000 (0xFFFFFFFFC0000000 + of_nat off) = None"
    by blast
  have "page_walk m' 0x109000 0xFFFFFFFF80000123 = Some 0x123" using w(1) [of "0x123"] by simp
  moreover have "page_walk m' 0x109000 0xFFFFFFFFC0000000 = None" using w(2) [of 0] by simp
  ultimately show ?thesis using m' k by blast
qed

end
