(* ===== verification/Printf.thy ===== *)
theory Printf
  imports Prelude
begin

text \<open>
  The number conversions of utils/printf.cpp. Each fills a 128-character buffer (\<open>toStrResult\<close>) from
  the back; a write outside the buffer is \<open>Undefined\<close>. The reference functions \<open>numeral_text\<close>, \<open>dec_text\<close>,
  \<open>hex_text\<close> and \<open>bin_text\<close>, with digits of their own, say which string each conversion is meant to produce, and
  \<open>read_decimal\<close> and \<open>read_signed\<close> are strict readers of decimal numerals.
\<close>

section \<open>The result buffer\<close>

type_synonym toStrResult = "char list"

definition NUL :: char where
  "NUL = CHR 0x00"

definition toStr_empty :: toStrResult where
  "toStr_empty = replicate 128 NUL"

definition put :: "int \<Rightarrow> char \<Rightarrow> toStrResult \<Rightarrow> toStrResult result" where
  "put i c buf =
     (if 0 \<le> i \<and> i < int (length buf) then Inr (buf[nat i := c])
      else Inl (Undefined ''write outside toStrResult.data''))"

text \<open>Reading the buffer as a C string.\<close>

definition c_string :: "char list \<Rightarrow> string result" where
  "c_string buf =
     (if NUL \<in> set buf then Inr (takeWhile (\<lambda>c. c \<noteq> NUL) buf)
      else Inl (Undefined ''string without terminator''))"

section \<open>The loops\<close>

text \<open>\<open>while (b > 0) { indx++; padding--; b /= base; }\<close>\<close>

fun count_loop :: "nat \<Rightarrow> nat \<Rightarrow> int \<times> int \<Rightarrow> int \<times> int" where
  "count_loop base b (indx, padding) =
     (if 0 < b \<and> 1 < base then count_loop base (b div base) (indx + 1, padding - 1)
      else (indx, padding))"

text \<open>\<open>while (x > 0) { res.data[--indx] = digit(x % base); x /= base; }\<close>\<close>

fun write_loop :: "(nat \<Rightarrow> char) \<Rightarrow> nat \<Rightarrow> nat \<Rightarrow> int \<Rightarrow> toStrResult \<Rightarrow> toStrResult result" where
  "write_loop digit base x indx buf =
     (if 0 < x \<and> 1 < base
      then rbind (put (indx - 1) (digit (x mod base)) buf) (write_loop digit base (x div base) (indx - 1))
      else Inr buf)"

text \<open>\<open>while (padding > 0) { res.data[1 + (padding--)] = '0'; indx++; }\<close>\<close>

function pad_loop :: "int \<Rightarrow> int \<Rightarrow> toStrResult \<Rightarrow> (int \<times> toStrResult) result" where
  "pad_loop padding indx buf =
     (if 0 < padding
      then rbind (put (1 + padding) (CHR ''0'') buf) (\<lambda>buf'. pad_loop (padding - 1) (indx + 1) buf')
      else Inr (indx, buf))"
  by pat_completeness auto
termination
  by (relation "measure (\<lambda>(padding, indx, buf). nat padding)") auto

text \<open>\<open>while (indx < bound) { res.data[indx++] = '0'; }\<close>\<close>

function zero_loop :: "int \<Rightarrow> int \<Rightarrow> toStrResult \<Rightarrow> (int \<times> toStrResult) result" where
  "zero_loop bound indx buf =
     (if indx < bound
      then rbind (put indx (CHR ''0'') buf) (\<lambda>buf'. zero_loop bound (indx + 1) buf')
      else Inr (indx, buf))"
  by pat_completeness auto
termination
  by (relation "measure (\<lambda>(bound, indx, buf). nat (bound - indx))") auto

declare count_loop.simps [simp del] write_loop.simps [simp del]
  pad_loop.simps [simp del] zero_loop.simps [simp del]

section \<open>The conversions\<close>

definition dec_digit :: "nat \<Rightarrow> char" where
  "dec_digit d = char_of (d + 48)"

definition hex_digit_table :: string where
  "hex_digit_table = ''0123456789ABCDEF''"

definition bin_digit :: "nat \<Rightarrow> char" where
  "bin_digit d = (if d = 1 then CHR ''1'' else CHR ''0'')"

text \<open>
  \<open>itos\<close> takes an \<open>int64_t\<close>; negating the least one overflows, which C++ leaves undefined.
\<close>

definition itos :: "int \<Rightarrow> toStrResult result" where
  "itos a =
     (if a = 0 then put 0 (CHR ''0'') toStr_empty
      else rbind
        (if a < 0
         then if a = - (2 ^ 63) then Inl (Undefined ''negation overflow'')
              else rbind (put 0 (CHR ''-'') toStr_empty) (\<lambda>buf. Inr (1, - a, buf))
         else Inr (0, a, toStr_empty))
        (\<lambda>(indx, a', buf).
           let (indx', _) = count_loop 10 (nat a') (indx, 0)
           in write_loop dec_digit 10 (nat a') indx' buf))"

definition utos :: "u64 \<Rightarrow> toStrResult result" where
  "utos a =
     (if a = 0 then put 0 (CHR ''0'') toStr_empty
      else let (indx, _) = count_loop 10 (unat a) (0, 0)
           in write_loop dec_digit 10 (unat a) indx toStr_empty)"

definition itox :: "u64 \<Rightarrow> int \<Rightarrow> toStrResult result" where
  "itox x padding =
     rbind (put 0 (CHR ''0'') toStr_empty) (\<lambda>buf.
     rbind (put 1 (CHR ''x'') buf) (\<lambda>buf.
       if x = 0
       then rbind (zero_loop (padding + 2) 2 buf) (\<lambda>(indx, buf).
              if padding = 0 then put indx (CHR ''0'') buf else Inr buf)
       else let (indx, padding') = count_loop 16 (unat x) (2, padding)
            in rbind (pad_loop padding' indx buf) (\<lambda>(indx', buf').
                 write_loop (\<lambda>d. hex_digit_table ! d) 16 (unat x) indx' buf')))"

text \<open>\<open>itob\<close> counts the digits of the value after storing it in an \<open>int\<close>.\<close>

definition itob :: "u64 \<Rightarrow> int \<Rightarrow> toStrResult result" where
  "itob x padding =
     rbind (put 0 (CHR ''0'') toStr_empty) (\<lambda>buf.
     rbind (put 1 (CHR ''b'') buf) (\<lambda>buf.
       if x = 0
       then rbind (zero_loop padding 2 buf) (\<lambda>(indx, buf). Inr buf)
       else let b = sint (ucast x :: u32);
                (indx, padding') = count_loop 2 (nat b) (2, padding)
            in rbind (pad_loop padding' indx buf) (\<lambda>(indx', buf').
                 write_loop bin_digit 2 (unat x) indx' buf')))"

section \<open>Reference: positional numerals\<close>

fun digs :: "nat \<Rightarrow> nat \<Rightarrow> nat list" where
  "digs base n = (if 0 < n \<and> 1 < base then digs base (n div base) @ [n mod base] else [])"

declare digs.simps [simp del]

definition numeral_string :: "(nat \<Rightarrow> char) \<Rightarrow> nat \<Rightarrow> nat \<Rightarrow> string" where
  "numeral_string digit base n = (if n = 0 then [digit 0] else map digit (digs base n))"

lemma digs_0 [simp]: "digs base 0 = []"
  by (simp add: digs.simps)

lemma digs_pos: "0 < n \<Longrightarrow> 1 < base \<Longrightarrow> digs base n = digs base (n div base) @ [n mod base]"
  by (simp add: digs.simps)

lemma count_loop_digs:
  "1 < base \<Longrightarrow> count_loop base n (i, p) = (i + int (length (digs base n)), p - int (length (digs base n)))"
proof (induction base n "(i, p)" arbitrary: i p rule: count_loop.induct)
  case (1 base b indx padding)
  then show ?case
    by (cases "b = 0") (auto simp: count_loop.simps [of base b] count_loop.simps [of base 0] digs_pos)
qed

lemma length_digs_bound:
  assumes "1 < base" "n < base ^ k"
  shows "length (digs base n) \<le> k"
  using assms(2)
proof (induction k arbitrary: n)
  case 0
  then show ?case by simp
next
  case (Suc k)
  show ?case
  proof (cases "n = 0")
    case False
    have "n div base < base ^ k"
      using Suc.prems assms(1) by (simp add: div_less_iff_less_mult mult.commute)
    then show ?thesis using Suc.IH False assms(1) by (simp add: digs_pos)
  qed simp
qed

lemma length_digs_lower:
  assumes "1 < base" "base ^ k \<le> n"
  shows "k < length (digs base n)"
  using assms(2)
proof (induction k arbitrary: n)
  case 0
  then show ?case using assms(1) by (simp add: digs_pos)
next
  case (Suc k)
  have pos: "0 < n" using Suc.prems assms(1) by (metis not_gr0 not_le zero_less_power less_trans zero_less_one)
  have "base ^ k \<le> n div base" using Suc.prems assms(1) by (simp add: less_eq_div_iff_mult_less_eq mult.commute)
  then show ?case using Suc.IH pos assms(1) by (simp add: digs_pos)
qed

lemma write_loop_digs:
  assumes "1 < base" "length (digs base n) \<le> i" "i \<le> length buf"
  shows "write_loop digit base n (int i) buf =
    Inr (take (i - length (digs base n)) buf @ map digit (digs base n) @ drop i buf)"
  using assms(2,3)
proof (induction n arbitrary: i buf rule: less_induct)
  case (less n)
  show ?case
  proof (cases "n = 0")
    case True
    then show ?thesis by (simp add: write_loop.simps)
  next
    case False
    let ?L = "length (digs base (n div base))"
    have d: "digs base n = digs base (n div base) @ [n mod base]" using False assms(1) by (simp add: digs_pos)
    have i: "Suc ?L \<le> i" using less.prems d by simp
    then obtain i' where i': "i = Suc i'" "?L \<le> i'" by (cases i) auto
    have "n div base < n" using False assms(1) by simp
    then have "write_loop digit base (n div base) (int i') (buf[i' := digit (n mod base)]) =
      Inr (take (i' - ?L) (buf[i' := digit (n mod base)]) @ map digit (digs base (n div base))
        @ drop i' (buf[i' := digit (n mod base)]))"
      using less.IH [of "n div base" i' "buf[i' := digit (n mod base)]"] i' less.prems by simp
    moreover have "drop i' (buf[i' := digit (n mod base)]) = digit (n mod base) # drop i buf"
      using i' less.prems(2) Cons_nth_drop_Suc [of i' "buf[i' := digit (n mod base)]"]
      by (simp add: drop_update_cancel)
    ultimately show ?thesis
      using False assms(1) i' less.prems d
      by (simp add: write_loop.simps [of digit base n] put_def take_update_cancel)
  qed
qed

lemma pad_loop_spec:
  assumes "2 + p \<le> length buf"
  shows "pad_loop (int p) i buf =
    Inr (i + int p, take 2 buf @ replicate p (CHR ''0'') @ drop (2 + p) buf)"
  using assms
proof (induction p arbitrary: i buf)
  case 0
  then show ?case by (simp add: pad_loop.simps)
next
  case (Suc p)
  have "pad_loop (int p) (i + 1) (buf[2 + p := CHR ''0'']) =
    Inr (i + 1 + int p, take 2 buf @ replicate p (CHR ''0'') @ CHR ''0'' # drop (2 + Suc p) buf)"
    using Suc.IH [of "buf[2 + p := CHR ''0'']" "i + 1"] Suc.prems
      Cons_nth_drop_Suc [of "2 + p" "buf[2 + p := CHR ''0'']"]
    by (simp add: drop_update_cancel take_update_cancel)
  moreover have "nat (int p + 2) = 2 + p" by simp
  ultimately show ?case
    using Suc.prems
    by (simp add: pad_loop.simps [of "int (Suc p)"] pad_loop.simps [of "1 + int p"] put_def
        replicate_app_Cons_same algebra_simps)
qed

lemma zero_loop_spec:
  assumes "i + p \<le> length buf"
  shows "zero_loop (int (i + p)) (int i) buf =
    Inr (int (i + p), take i buf @ replicate p (CHR ''0'') @ drop (i + p) buf)"
  using assms
proof (induction p arbitrary: i buf)
  case 0
  then show ?case by (simp add: zero_loop.simps)
next
  case (Suc p)
  have "take (Suc i) (buf[i := CHR ''0'']) = take i buf @ [CHR ''0'']"
    using Suc.prems by (simp add: take_Suc_conv_app_nth)
  then have "zero_loop (int (Suc i + p)) (int (Suc i)) (buf[i := CHR ''0'']) =
    Inr (int (Suc i + p), take i buf @ CHR ''0'' # replicate p (CHR ''0'') @ drop (Suc i + p) buf)"
    using Suc.IH [of "Suc i" "buf[i := CHR ''0'']"] Suc.prems by (simp add: drop_update_cancel)
  then show ?case
    using Suc.prems
    by (simp add: zero_loop.simps [of "int (i + Suc p)" "int i"] zero_loop.simps [of "1 + (int i + int p)" "int i"]
        put_def algebra_simps)
qed

lemma zero_loop_stop: "b \<le> i \<Longrightarrow> zero_loop b i buf = Inr (i, buf)"
  by (simp add: zero_loop.simps)

section \<open>What the buffers hold\<close>

lemma c_string_append:
  "NUL \<notin> set t \<Longrightarrow> 0 < n \<Longrightarrow> c_string (t @ replicate n NUL) = Inr t"
  by (simp add: c_string_def takeWhile_append)

lemma digs_less: "d \<in> set (digs base n) \<Longrightarrow> d < base"
proof (induction n rule: less_induct)
  case (less n)
  show ?case
  proof (cases "0 < n \<and> 1 < base")
    case True
    then have "n div base < n" by simp
    then show ?thesis using less.IH [of "n div base"] less.prems True by (auto simp: digs.simps [of base n])
  next
    case False
    then show ?thesis using less.prems by (simp add: digs.simps [of base n])
  qed
qed

lemma length_digs_mono: "m \<le> n \<Longrightarrow> 1 < base \<Longrightarrow> length (digs base m) \<le> length (digs base n)"
proof (induction n arbitrary: m rule: less_induct)
  case (less n)
  show ?case
  proof (cases "m = 0")
    case False
    then have "n div base < n" "m div base \<le> n div base" using less.prems by (auto simp: div_le_mono)
    then show ?thesis using less.IH [of "n div base" "m div base"] less.prems False by (simp add: digs_pos)
  qed simp
qed

lemma dec_digit_not_NUL: "d < 10 \<Longrightarrow> dec_digit d \<noteq> NUL"
proof
  assume "d < 10" "dec_digit d = NUL"
  then have "of_char (char_of (d + 48) :: char) = (0 :: nat)" by (simp add: dec_digit_def NUL_def)
  then show False using \<open>d < 10\<close> by simp
qed

lemma hex_digit_not_NUL: "d < 16 \<Longrightarrow> hex_digit_table ! d \<noteq> NUL"
  by (auto simp: hex_digit_table_def NUL_def less_Suc_eq numeral_eq_Suc)

lemma bin_digit_not_NUL: "bin_digit d \<noteq> NUL"
  by (simp add: bin_digit_def NUL_def)

lemma write_after_prefix:
  assumes "1 < base" "length (digs base n) \<le> m"
  shows "write_loop digit base n (int (length pre + length (digs base n))) (pre @ replicate m NUL) =
    Inr (pre @ map digit (digs base n) @ replicate (m - length (digs base n)) NUL)"
  using write_loop_digs [OF assms(1), of n "length pre + length (digs base n)" "pre @ replicate m NUL" digit]
    assms(2) by simp

lemma c_string_numeral:
  assumes "\<And>d. d < base \<Longrightarrow> digit d \<noteq> NUL" "NUL \<notin> set pre" "0 < k"
  shows "c_string (pre @ map digit (digs base n) @ replicate k NUL) = Inr (pre @ map digit (digs base n))"
proof -
  have "NUL \<notin> set (pre @ map digit (digs base n))"
    using assms(1,2) digs_less by fastforce
  from c_string_append [OF this assms(3)] show ?thesis by simp
qed

lemma put_first: "put 0 c toStr_empty = Inr (c # replicate 127 NUL)"
  by (simp add: put_def toStr_empty_def numeral_eq_Suc)

lemma put_second: "put 1 c (b # replicate 127 NUL) = Inr (b # c # replicate 126 NUL)"
  by (simp add: put_def numeral_eq_Suc)

lemma dec_digs_bound: "n < 2 ^ 64 \<Longrightarrow> length (digs 10 n) \<le> 20"
  by (rule length_digs_bound) simp_all

lemma dec_digit_0 [simp]: "dec_digit 0 = CHR ''0''"
  by code_simp

lemma prefix_not_NUL [simp]: "CHR ''-'' \<noteq> NUL" "CHR ''0'' \<noteq> NUL" "CHR ''x'' \<noteq> NUL" "CHR ''b'' \<noteq> NUL"
  by (simp_all add: NUL_def)

lemma c_string_zero: "c_string (CHR ''0'' # replicate 127 NUL) = Inr ''0''"
  using c_string_append [of "''0''" 127] by (simp add: NUL_def)

lemma utos_string: "rbind (utos a) c_string = Inr (numeral_string dec_digit 10 (unat a))"
proof (cases "a = 0")
  case True
  then show ?thesis by (simp add: utos_def put_first numeral_string_def c_string_zero)
next
  case False
  have L: "length (digs 10 (unat a)) \<le> 20" by (rule dec_digs_bound [OF unat_u64_less])
  have "write_loop dec_digit 10 (unat a) (int (length (digs 10 (unat a)))) toStr_empty =
    Inr (map dec_digit (digs 10 (unat a)) @ replicate (128 - length (digs 10 (unat a))) NUL)"
    using write_after_prefix [of 10 "unat a" 128 dec_digit "[]"] L by (simp add: toStr_empty_def)
  then show ?thesis
    using False L c_string_numeral [of 10 dec_digit "[]"] dec_digit_not_NUL
    by (simp add: utos_def count_loop_digs numeral_string_def unat_eq_zero)
qed

lemma itos_string:
  assumes "- (2 ^ 63) < a" "a < 2 ^ 63"
  shows "rbind (itos a) c_string =
    Inr ((if a < 0 then ''-'' else []) @ numeral_string dec_digit 10 (nat \<bar>a\<bar>))"
proof (cases "a = 0")
  case True
  then show ?thesis by (simp add: itos_def put_first numeral_string_def c_string_zero)
next
  case False
  let ?n = "nat \<bar>a\<bar>"
  let ?pre = "if a < 0 then ''-'' else []"
  have L: "length (digs 10 ?n) \<le> 20" using assms by (intro dec_digs_bound) simp
  have w: "write_loop dec_digit 10 ?n (int (length ?pre + length (digs 10 ?n)))
      (?pre @ replicate (128 - length ?pre) NUL) =
    Inr (?pre @ map dec_digit (digs 10 ?n) @ replicate (128 - length ?pre - length (digs 10 ?n)) NUL)"
    using L by (intro write_after_prefix) auto
  have c: "c_string (?pre @ map dec_digit (digs 10 ?n) @ replicate (128 - length ?pre - length (digs 10 ?n)) NUL)
    = Inr (?pre @ map dec_digit (digs 10 ?n))"
    using L by (intro c_string_numeral) (auto simp: dec_digit_not_NUL dest: sym)
  show ?thesis
  proof (cases "a < 0")
    case True
    then show ?thesis
      using w c assms by (simp add: itos_def put_first count_loop_digs numeral_string_def)
  next
    case f: False
    then show ?thesis
      using w c False by (simp add: itos_def count_loop_digs numeral_string_def toStr_empty_def)
  qed
qed

lemma prefix_then_digits:
  assumes "1 < base" "c \<le> length (digs base n)" "length (digs base n) \<le> m" "m \<le> 125"
    and "\<And>d. d < base \<Longrightarrow> digit d \<noteq> NUL" and "h \<noteq> NUL"
  shows "rbind (write_loop digit base n (int (2 + m))
      (CHR ''0'' # h # replicate (m - c) (CHR ''0'') @ replicate (126 - (m - c)) NUL)) c_string =
    Inr (CHR ''0'' # h # replicate (m - length (digs base n)) (CHR ''0'') @ map digit (digs base n))"
proof -
  let ?L = "length (digs base n)"
  let ?buf = "CHR ''0'' # h # replicate (m - c) (CHR ''0'') @ replicate (126 - (m - c)) NUL"
  have "length ?buf = 128" using assms(4) by simp
  then have "write_loop digit base n (int (2 + m)) ?buf =
    Inr (take (2 + m - ?L) ?buf @ map digit (digs base n) @ drop (2 + m) ?buf)"
    using assms by (intro write_loop_digs) auto
  moreover have "take (2 + m - ?L) ?buf = CHR ''0'' # h # replicate (m - ?L) (CHR ''0'')"
    using assms(2,3) by (simp add: numeral_2_eq_2 Suc_diff_le)
  moreover have "drop (2 + m) ?buf = replicate (126 - m) NUL"
    using assms(2,3,4) by simp
  moreover have "c_string ((CHR ''0'' # h # replicate (m - ?L) (CHR ''0'')) @ map digit (digs base n)
      @ replicate (126 - m) NUL) =
    Inr ((CHR ''0'' # h # replicate (m - ?L) (CHR ''0'')) @ map digit (digs base n))"
    using assms(4,5,6) by (intro c_string_numeral) (auto dest: sym)
  ultimately show ?thesis by simp
qed

lemma pad_then_digits:
  assumes "1 < base" "c \<le> length (digs base n)" "length (digs base n) \<le> max c (nat padding)"
    "c \<le> 125" "padding \<le> 125"
    and "\<And>d. d < base \<Longrightarrow> digit d \<noteq> NUL" and "h \<noteq> NUL"
  shows "rbind (rbind (pad_loop (padding - int c) (2 + int c) (CHR ''0'' # h # replicate 126 NUL))
       (\<lambda>(i, buf). write_loop digit base n i buf)) c_string =
    Inr (CHR ''0'' # h # replicate (nat padding - length (digs base n)) (CHR ''0'') @ map digit (digs base n))"
proof -
  define m where "m = max c (nat padding)"
  have pad: "pad_loop (padding - int c) (2 + int c) (CHR ''0'' # h # replicate 126 NUL) =
    Inr (int (2 + m), CHR ''0'' # h # replicate (m - c) (CHR ''0'') @ replicate (126 - (m - c)) NUL)"
  proof (cases "int c < padding")
    case True
    then have "padding - int c = int (m - c)" "m - c \<le> 125" using assms(5) by (auto simp: m_def)
    then show ?thesis
      using pad_loop_spec [of "m - c" "CHR ''0'' # h # replicate 126 NUL" "2 + int c"] True
      by (simp add: m_def numeral_2_eq_2)
  next
    case False
    then show ?thesis by (simp add: pad_loop.simps m_def)
  qed
  have "m - length (digs base n) = nat padding - length (digs base n)"
    using assms(2) by (auto simp: m_def max_def)
  then show ?thesis
    using prefix_then_digits [of base c n m digit h] assms by (simp add: pad rbind_assoc m_def)
qed

lemma uint_ucast_mod: "uint (ucast (x :: u64) :: u32) = uint x mod 2 ^ 32"
  by (simp add: unsigned_ucast_eq take_bit_eq_mod)

lemma mod_upto_twice:
  "0 \<le> k \<Longrightarrow> k < 2 ^ 32 \<Longrightarrow> (k + 2 ^ 31) mod 2 ^ 32 =
    (if k < 2 ^ 31 then k + 2 ^ 31 else k + 2 ^ 31 - 2 ^ 32)" for k :: int
  using mod_add_if_z [of k "2 ^ 32" "2 ^ 31"] by auto

lemma sint_u32_cases:
  "sint (w :: u32) = (if uint w < 2 ^ 31 then uint w else uint w - 2 ^ 32)"
proof -
  have "sint w = (uint w + 2 ^ 31) mod 2 ^ 32 - 2 ^ 31"
    by (simp add: sint_uint signed_take_bit_eq_take_bit_shift take_bit_eq_mod)
  moreover have "(uint w + 2 ^ 31) mod 2 ^ 32 =
      (if uint w < 2 ^ 31 then uint w + 2 ^ 31 else uint w + 2 ^ 31 - 2 ^ 32)"
    using uint_lt2p [of w] uint_ge_0 [of w] by (intro mod_upto_twice) simp_all
  ultimately show ?thesis by simp
qed

lemma sint_ucast_le: "nat (sint (ucast (x :: u64) :: u32)) \<le> unat x"
proof -
  have "uint x mod 2 ^ 32 \<le> uint x" by (rule zmod_le_nonneg_dividend) simp
  then have "sint (ucast x :: u32) \<le> uint x"
    unfolding sint_u32_cases uint_ucast_mod by auto
  then show ?thesis unfolding unat_eq_nat_uint by (rule nat_mono)
qed

lemma sint_ucast_small: "unat (x :: u64) < 2 ^ 31 \<Longrightarrow> nat (sint (ucast x :: u32)) = unat x"
proof -
  assume "unat x < 2 ^ 31"
  then have u: "uint x < 2 ^ 31" unfolding unat_eq_nat_uint by (simp only: nat_less_iff uint_ge_0) simp
  then have "uint x mod 2 ^ 32 = uint x" by (intro mod_pos_pos_trivial) auto
  then have "sint (ucast x :: u32) = uint x" using u unfolding sint_u32_cases uint_ucast_mod by simp
  then show ?thesis unfolding unat_eq_nat_uint by simp
qed

lemma hex_digit_0: "hex_digit_table ! 0 = CHR ''0''"
  by (simp add: hex_digit_table_def)

abbreviation hex_digit :: "nat \<Rightarrow> char" where
  "hex_digit d \<equiv> hex_digit_table ! d"

lemma zero_pad:
  assumes "2 + p \<le> 127" "h \<noteq> NUL"
  shows "c_string (CHR ''0'' # h # replicate p (CHR ''0'') @ replicate (126 - p) NUL) =
    Inr (CHR ''0'' # h # replicate p (CHR ''0''))"
proof -
  have "NUL \<notin> set (CHR ''0'' # h # replicate p (CHR ''0''))" using assms(2) by (auto dest: sym)
  from c_string_append [OF this, of "126 - p"] assms(1) show ?thesis by simp
qed

lemma zero_loop_two:
  assumes "p \<le> 126"
  shows "zero_loop (2 + int p) 2 (CHR ''0'' # h # replicate 126 NUL) =
    Inr (2 + int p, CHR ''0'' # h # replicate p (CHR ''0'') @ replicate (126 - p) NUL)"
  using zero_loop_spec [of 2 p "CHR ''0'' # h # replicate 126 NUL"] assms by (simp add: numeral_2_eq_2)

lemma itox_string:
  assumes "0 \<le> padding" "padding \<le> 125"
  shows "rbind (itox x padding) c_string =
    Inr (''0x'' @ replicate (nat padding - length (numeral_string hex_digit 16 (unat x))) (CHR ''0'')
      @ numeral_string hex_digit 16 (unat x))"
proof (cases "x = 0")
  case True
  show ?thesis
  proof (cases "padding = 0")
    case p: True
    have "put 2 (CHR ''0'') (CHR ''0'' # CHR ''x'' # replicate 126 NUL) =
      Inr (CHR ''0'' # CHR ''x'' # CHR ''0'' # replicate 125 NUL)"
      by (simp add: put_def numeral_eq_Suc)
    then show ?thesis
      using True p zero_pad [of 1 "CHR ''x''"]
      by (simp add: itox_def put_first put_second zero_loop_stop numeral_string_def hex_digit_0)
  next
    case False
    then obtain q where "nat padding = Suc q" using assms(1) by (cases "nat padding") auto
    then have q: "padding = int (Suc q)" by simp
    then show ?thesis
      using True False assms(2) zero_loop_two [of "Suc q" "CHR ''x''"] zero_pad [of "Suc q" "CHR ''x''"]
      by (simp add: itox_def put_first put_second numeral_string_def hex_digit_0 replicate_append_same
          algebra_simps)
  qed
next
  case False
  have L: "length (digs 16 (unat x)) \<le> 16"
    using unat_u64_less [of x] by (intro length_digs_bound) simp_all
  show ?thesis
    using False L assms pad_then_digits [of 16 "length (digs 16 (unat x))" "unat x" padding hex_digit "CHR ''x''"]
      hex_digit_not_NUL
    by (simp add: itox_def put_first put_second count_loop_digs numeral_string_def unat_eq_zero)
qed

lemma itob_string:
  assumes "x \<noteq> 0" "0 \<le> padding" "padding \<le> 125"
    and "unat x < 2 ^ 31 \<or> length (digs 2 (unat x)) \<le> nat padding"
  shows "rbind (itob x padding) c_string =
    Inr (''0b'' @ replicate (nat padding - length (digs 2 (unat x))) (CHR ''0'')
      @ map bin_digit (digs 2 (unat x)))"
proof -
  let ?b = "nat (sint (ucast x :: u32))"
  have le: "length (digs 2 ?b) \<le> length (digs 2 (unat x))"
    by (rule length_digs_mono [OF sint_ucast_le]) simp
  note small = sint_ucast_small [of x]
  have fits: "length (digs 2 (unat x)) \<le> max (length (digs 2 ?b)) (nat padding)"
    using assms(4) small by auto
  have "nat (sint (ucast x :: u32)) < 2 ^ 31"
    using sint_less [of "ucast x :: u32"] by simp
  then have "length (digs 2 ?b) \<le> 31" by (intro length_digs_bound) simp_all
  then show ?thesis
    using assms pad_then_digits [of 2 "length (digs 2 ?b)" "unat x" padding bin_digit "CHR ''b''"] le fits
      bin_digit_not_NUL
    by (simp add: itob_def put_first put_second count_loop_digs Let_def)
qed

lemma write_loop_underflow:
  assumes "1 < base" "i < length (digs base n)" "i \<le> length buf"
  shows "write_loop digit base n (int i) buf = Inl (Undefined ''write outside toStrResult.data'')"
  using assms(2,3)
proof (induction i arbitrary: n buf)
  case 0
  then have "0 < n" by (cases "n = 0") auto
  then show ?case using assms(1) by (simp add: write_loop.simps put_def)
next
  case (Suc i)
  then have n: "0 < n" by (cases "n = 0") auto
  then have "i < length (digs base (n div base))" using Suc.prems(1) assms(1) by (simp add: digs_pos)
  then show ?case
    using Suc.IH [of "n div base" "buf[i := digit (n mod base)]"] Suc.prems(2) n assms(1)
    by (simp add: write_loop.simps [of digit base n] put_def)
qed

lemma foldl_digs:
  "1 < base \<Longrightarrow> foldl (\<lambda>v d. base * v + d) 0 (digs base n) = n"
proof (induction n rule: less_induct)
  case (less n)
  show ?case
  proof (cases "n = 0")
    case False
    then have "n div base < n" using less.prems by simp
    then show ?thesis using less.IH [of "n div base"] less.prems False by (simp add: digs_pos)
  qed simp
qed

section \<open>Reference: the text of a number\<close>

text \<open>
  Numerals as they are meant to be written, with digits of their own: no leading zero, at least one digit.
\<close>

definition digit_chars :: string where
  "digit_chars = ''0123456789ABCDEF''"

fun numeral_text :: "nat \<Rightarrow> nat \<Rightarrow> string" where
  "numeral_text base n =
     (if n < base \<or> base < 2 then [digit_chars ! n]
      else numeral_text base (n div base) @ [digit_chars ! (n mod base)])"

declare numeral_text.simps [simp del]

definition dec_text :: "int \<Rightarrow> string" where
  "dec_text a = (if a < 0 then ''-'' else []) @ numeral_text 10 (nat \<bar>a\<bar>)"

definition padded :: "nat \<Rightarrow> string \<Rightarrow> string" where
  "padded width t = replicate (width - length t) (CHR ''0'') @ t"

definition hex_text :: "nat \<Rightarrow> u64 \<Rightarrow> string" where
  "hex_text width x = ''0x'' @ padded width (numeral_text 16 (unat x))"

definition bin_text :: "nat \<Rightarrow> u64 \<Rightarrow> string" where
  "bin_text width x = ''0b'' @ padded width (numeral_text 2 (unat x))"

lemma numeral_text_eq:
  assumes "1 < base" "\<And>k. k < base \<Longrightarrow> digit k = digit_chars ! k"
  shows "numeral_string digit base n = numeral_text base n"
proof (induction n rule: less_induct)
  case (less n)
  have step: "n mod base < base" using assms(1) by simp
  show ?case
  proof (cases "n < base")
    case True
    then have "digs base n = (if n = 0 then [] else [n])" using assms(1) by (simp add: digs_pos)
    then show ?thesis using True assms by (simp add: numeral_string_def numeral_text.simps)
  next
    case False
    then have "n div base < n" "0 < n div base" "0 < n" using assms(1) by (simp_all add: div_greater_zero_iff)
    then show ?thesis
      using less [of "n div base"] False assms(1) assms(2) [OF step]
      by (simp add: numeral_string_def digs_pos numeral_text.simps [of base n])
  qed
qed

lemma below_ten: "k < 10 \<Longrightarrow> k \<in> {0, 1, 2, 3, 4, 5, 6, 7, 8, 9 :: nat}"
  by auto

lemma numeral_texts:
  "numeral_string dec_digit 10 n = numeral_text 10 n" "numeral_string hex_digit 16 n = numeral_text 16 n"
  "0 < n \<Longrightarrow> map bin_digit (digs 2 n) = numeral_text 2 n"
proof -
  have d: "dec_digit k = digit_chars ! k" if "k < 10" for k
    using below_ten [OF that] by (elim insertE emptyE) (simp_all add: dec_digit_def char_of_def digit_chars_def bit_Suc_0_iff)
  have h: "hex_digit k = digit_chars ! k" for k by (simp add: hex_digit_table_def digit_chars_def)
  have b: "bin_digit k = digit_chars ! k" if "k < 2" for k
    using that by (auto simp: less_2_cases_iff bin_digit_def digit_chars_def)
  show "numeral_string dec_digit 10 n = numeral_text 10 n" by (rule numeral_text_eq) (simp_all add: d)
  show "numeral_string hex_digit 16 n = numeral_text 16 n" by (rule numeral_text_eq) (simp, rule h)
  show "0 < n \<Longrightarrow> map bin_digit (digs 2 n) = numeral_text 2 n"
    using numeral_text_eq [of 2 bin_digit n] b by (simp add: numeral_string_def)
qed

text \<open>The text of each conversion, where it is defined.\<close>

lemma conversion_texts:
  "rbind (utos x) c_string = Inr (numeral_text 10 (unat x))"
  "- (2 ^ 63) < a \<Longrightarrow> a < 2 ^ 63 \<Longrightarrow> rbind (itos a) c_string = Inr (dec_text a)"
  "w \<le> 125 \<Longrightarrow> rbind (itox x (int w)) c_string = Inr (hex_text w x)"
  "x \<noteq> 0 \<Longrightarrow> w \<le> 125 \<Longrightarrow> unat x < 2 ^ 31 \<or> length (numeral_text 2 (unat x)) \<le> w \<Longrightarrow>
     rbind (itob x (int w)) c_string = Inr (bin_text w x)"
proof -
  show "rbind (utos x) c_string = Inr (numeral_text 10 (unat x))" by (simp add: utos_string numeral_texts)
  show "rbind (itos a) c_string = Inr (dec_text a)" if "- (2 ^ 63) < a" "a < 2 ^ 63"
    using itos_string [OF that] by (simp add: dec_text_def numeral_texts)
  show "rbind (itox x (int w)) c_string = Inr (hex_text w x)" if "w \<le> 125"
    using itox_string [of "int w" x] that by (simp add: hex_text_def padded_def numeral_texts)
  assume b: "x \<noteq> 0" "w \<le> 125" "unat x < 2 ^ 31 \<or> length (numeral_text 2 (unat x)) \<le> w"
  have t: "map bin_digit (digs 2 (unat x)) = numeral_text 2 (unat x)"
    using b(1) by (intro numeral_texts) (simp add: unat_gt_0)
  then have "length (digs 2 (unat x)) = length (numeral_text 2 (unat x))" by (metis length_map)
  then show "rbind (itob x (int w)) c_string = Inr (bin_text w x)"
    using itob_string [of x "int w"] b t by (simp add: bin_text_def padded_def)
qed

section \<open>Reference: reading a decimal number\<close>

text \<open>
  A strict reader: a number is a non-empty sequence of digits that does not begin with 0 unless it is 0, and only a number
  other than 0 may have a minus sign.
\<close>

definition is_digit :: "char \<Rightarrow> bool" where
  "is_digit c \<longleftrightarrow> c \<in> set ''0123456789''"

definition read_decimal :: "string \<Rightarrow> nat option" where
  "read_decimal t =
     (if t = [] \<or> (\<exists>c \<in> set t. \<not> is_digit c) \<or> (hd t = CHR ''0'' \<and> tl t \<noteq> []) then None
      else Some (foldl (\<lambda>v c. 10 * v + (of_char c - 48)) 0 t))"

definition read_signed :: "string \<Rightarrow> int option" where
  "read_signed t =
     (if t \<noteq> [] \<and> hd t = CHR ''-''
      then (case read_decimal (tl t) of Some n \<Rightarrow> if n = 0 then None else Some (- int n) | None \<Rightarrow> None)
      else map_option int (read_decimal t))"

lemma of_char_digit: "k < 10 \<Longrightarrow> is_digit (digit_chars ! k) \<and> of_char (digit_chars ! k) - 48 = k"
  by (drule below_ten, elim insertE emptyE) (simp_all add: is_digit_def digit_chars_def)

lemma digit_zero: "k < 10 \<Longrightarrow> digit_chars ! k = CHR ''0'' \<longleftrightarrow> k = 0"
  by (drule below_ten, elim insertE emptyE) (simp_all add: digit_chars_def)

lemma numeral_text_dec:
  "numeral_text 10 n \<noteq> [] \<and> (\<forall>c \<in> set (numeral_text 10 n). is_digit c) \<and>
   (0 < n \<longrightarrow> hd (numeral_text 10 n) \<noteq> CHR ''0'') \<and> foldl (\<lambda>v c. 10 * v + (of_char c - 48)) 0 (numeral_text 10 n) = n"
proof (induction n rule: less_induct)
  case (less n)
  show ?case
  proof (cases "n < 10")
    case True
    then show ?thesis
      unfolding numeral_text.simps [of 10 n] using of_char_digit [of n] digit_zero [of n] by simp
  next
    case False
    then have "n div 10 < n" "0 < n div 10" by simp_all
    with less [of "n div 10"] show ?thesis
      unfolding numeral_text.simps [of 10 n] using False of_char_digit [of "n mod 10"] by (simp add: hd_append)
  qed
qed

lemma read_numeral_text: "read_decimal (numeral_text 10 n) = Some n"
proof (cases "n = 0")
  case True
  then show ?thesis by (simp add: read_decimal_def numeral_text.simps is_digit_def digit_chars_def)
next
  case False
  then show ?thesis using numeral_text_dec [of n] by (auto simp: read_decimal_def)
qed

lemma read_dec_text: "read_signed (dec_text a) = Some a"
proof -
  have no_sign: "\<not> is_digit (CHR ''-'')" by (simp add: is_digit_def)
  have "hd (numeral_text 10 n) \<noteq> CHR ''-''" for n
    using numeral_text_dec [of n] hd_in_set [of "numeral_text 10 n"] no_sign by metis
  moreover have "numeral_text 10 n \<noteq> []" for n using numeral_text_dec by blast
  ultimately show ?thesis by (simp add: read_signed_def dec_text_def read_numeral_text)
qed

section \<open>Properties\<close>

text \<open>
  C39: \<open>utos\<close> prints every unsigned 64-bit value as its decimal numeral. It never leaves its buffer, which then holds a
  terminated string: the digits of the value without a leading zero, and \<open>0\<close> for 0. A strict reader (only digits, at
  least one, no leading zero) gets the value back from it.
\<close>

theorem utos_roundtrip:
  "rbind (utos a) c_string = Inr (numeral_text 10 (unat a)) \<and> read_decimal (numeral_text 10 (unat a)) = Some (unat a)"
  by (simp add: conversion_texts read_numeral_text)

text \<open>
  C40: \<open>itos\<close> prints every signed 64-bit value but the least one as its decimal numeral: a minus sign if, and only if, the
  value is negative, then the digits of its magnitude without a leading zero; 0 is printed as \<open>0\<close>. A strict reader gets the
  value back. On the least value the negation overflows.
\<close>

theorem itos_prints_decimal:
  assumes "- (2 ^ 63) \<le> a" and "a < 2 ^ 63"
  shows "if a = - (2 ^ 63) then itos a = Inl (Undefined ''negation overflow'')
    else rbind (itos a) c_string = Inr ((if a < 0 then ''-'' else []) @ numeral_text 10 (nat \<bar>a\<bar>)) \<and>
      read_signed ((if a < 0 then ''-'' else []) @ numeral_text 10 (nat \<bar>a\<bar>)) = Some a"
proof (cases "a = - (2 ^ 63)")
  case True
  then show ?thesis by (simp add: itos_def)
next
  case False
  then have "- (2 ^ 63) < a" using assms(1) by simp
  from conversion_texts(2) [OF this assms(2)] read_dec_text [of a] False show ?thesis by (simp add: dec_text_def)
qed

theorem itos_prints_decimal_witness:
  "rbind (itos (- 42)) c_string = Inr ''-42'' \<and> rbind (itos 0) c_string = Inr ''0'' \<and>
   itos (- (2 ^ 63)) = Inl (Undefined ''negation overflow'')"
  using itos_prints_decimal [of "- 42"] itos_prints_decimal [of 0] itos_prints_decimal [of "- (2 ^ 63)"]
  by (simp add: numeral_text.simps digit_chars_def)

text \<open>
  \<open>itox\<close> prints \<open>0x\<close>, then zeros up to the requested width, then the hexadecimal digits of the
  value (one zero digit for the value 0), for every value and every width up to 125.
\<close>

theorem itox_prints_hex:
  assumes "0 \<le> padding" and "padding \<le> 125"
  shows "rbind (itox x padding) c_string =
    Inr (''0x'' @ replicate (nat padding - length (numeral_string hex_digit 16 (unat x))) (CHR ''0'')
      @ numeral_string hex_digit 16 (unat x))"
  by (rule itox_string [OF assms])

theorem itox_prints_hex_witness: "rbind (itox 0x3F8 0) c_string = Inr ''0x3F8''"
  using itox_prints_hex [of 0 "0x3F8"]
  by (simp add: numeral_string_def digs.simps hex_digit_table_def)

text \<open>
  \<open>itob\<close> prints \<open>0b\<close>, zeros up to the requested width and the binary digits of a positive value
  if the value is below \<open>2 ^ 31\<close>, or if the requested width (at most 125) holds all its digits.
\<close>

theorem itob_prints_binary:
  assumes "x \<noteq> 0" and "0 \<le> padding" and "padding \<le> 125"
    and "unat x < 2 ^ 31 \<or> length (digs 2 (unat x)) \<le> nat padding"
  shows "rbind (itob x padding) c_string =
    Inr (''0b'' @ replicate (nat padding - length (digs 2 (unat x))) (CHR ''0'')
      @ map bin_digit (digs 2 (unat x)))"
  by (rule itob_string [OF assms])

theorem itob_prints_binary_witness: "rbind (itob 5 4) c_string = Inr ''0b0101''"
  using itob_prints_binary [of 5 4] by (simp add: digs.simps bin_digit_def)

text \<open>
  Outside that range \<open>itob\<close> is wrong. The digits are counted on a copy of the value in an \<open>int\<close>,
  which is negative for values from \<open>2 ^ 31\<close> up to \<open>2 ^ 32\<close>: without padding it then writes below
  the start of its buffer. And the value 0 is printed without any digit when no width is asked
  for, and two zeros short of the width otherwise.
\<close>

theorem itob_defects:
  "(\<forall>x. 2 ^ 31 \<le> unat x \<and> unat x < 2 ^ 32 \<longrightarrow>
      itob x 0 = Inl (Undefined ''write outside toStrResult.data''))
   \<and> (\<forall>p \<le> 125. rbind (itob 0 (int p)) c_string = Inr (''0b'' @ replicate (p - 2) (CHR ''0'')))"
proof (intro conjI allI impI, elim conjE)
  fix x :: u64 assume x: "2 ^ 31 \<le> unat x" "unat x < 2 ^ 32"
  have u: "uint x < 2 ^ 32" "2 ^ 31 \<le> uint x"
    using x unfolding uint_nat by (simp_all del: of_nat_unat)
  then have "uint x mod 2 ^ 32 = uint x" by (intro mod_pos_pos_trivial) simp_all
  then have "sint (ucast x :: u32) \<le> 0" using u unfolding sint_u32_cases uint_ucast_mod by simp
  moreover have "2 < length (digs 2 (unat x))" using length_digs_lower [of 2 31 "unat x"] x(1) by simp
  then have "write_loop bin_digit 2 (unat x) (int 2) (CHR ''0'' # CHR ''b'' # replicate 126 NUL) =
    Inl (Undefined ''write outside toStrResult.data'')"
    by (intro write_loop_underflow) simp_all
  moreover have "x \<noteq> 0" using x(1) by auto
  ultimately show "itob x 0 = Inl (Undefined ''write outside toStrResult.data'')"
    by (simp add: itob_def put_first put_second count_loop_digs pad_loop.simps)
next
  fix p :: nat assume p: "p \<le> 125"
  show "rbind (itob 0 (int p)) c_string = Inr (''0b'' @ replicate (p - 2) (CHR ''0''))"
  proof (cases "p \<le> 2")
    case True
    then show ?thesis using zero_pad [of 0 "CHR ''b''"] by (simp add: itob_def put_first put_second zero_loop_stop)
  next
    case False
    define q where "q = p - 2"
    then have "p = 2 + q" using False by simp
    then show ?thesis using p zero_loop_two [of q "CHR ''b''"] zero_pad [of q "CHR ''b''"]
      by (simp add: itob_def put_first put_second)
  qed
qed

theorem itob_defects_witness:
  "itob 0x80000000 0 = Inl (Undefined ''write outside toStrResult.data'') \<and> rbind (itob 0 0) c_string = Inr ''0b''"
  using itob_defects by (force dest: spec [of _ 0])

end
