(* ===== verification/Vprintf.thy ===== *)
theory Vprintf
  imports Printf
begin

text \<open>
  \<open>vprintf\<close> (utils/printf.h), the formatter behind \<open>Video::printf\<close> and \<open>SerialPort::printf\<close>. The
  template parameter, an object with \<open>putc\<close> and \<open>writestr\<close>, is a pair of state-passing operations;
  the interface \<open>printer\<close> states the one law the formatter needs of them. The variable arguments are
  a list of typed values: reading past the end or at another type is undefined, except that a 64-bit
  value may be read from the slot of an \<open>int\<close>, as the calls in the kernel do.
\<close>

text \<open>
  An argument of type \<open>int\<close> takes an 8-byte slot whose upper half the calling convention leaves
  unspecified: \<open>VA_int hi w\<close> is the value \<open>w\<close> with \<open>hi\<close> found above it.
\<close>

datatype va_arg = VA_int u32 u32 | VA_64 u64 | VA_str string

text \<open>
  The digits of \<open>%x.:16\<close>: \<open>while (*cur_char <= '9' && *cur_char >= '0') padding = padding * 10 + \<dots>\<close>
  in 32-bit arithmetic.
\<close>

fun parse_padding :: "u32 \<Rightarrow> string \<Rightarrow> u32 \<times> string" where
  "parse_padding padding [] = (padding, [])"
| "parse_padding padding (c # cs) =
     (if 48 \<le> (of_char c :: nat) \<and> (of_char c :: nat) \<le> 57
      then parse_padding (padding * 10 + of_nat (of_char c - 48)) cs
      else (padding, c # cs))"

definition padding_spec :: "string \<Rightarrow> u32 \<times> string" where
  "padding_spec r = (if take 2 r = ''.:'' then parse_padding 0 (drop 2 r) else (0, r))"

lemma parse_padding_length: "length (snd (parse_padding p r)) \<le> length r"
  by (induction p r rule: parse_padding.induct) auto

lemma padding_spec_length: "length (snd (padding_spec r)) \<le> length r"
  using parse_padding_length [of 0 "drop 2 r"] by (auto simp: padding_spec_def)

definition bad_arg :: fault where
  "bad_arg = Undefined ''va_arg type mismatch''"

definition take_64 :: "va_arg list \<Rightarrow> (u64 \<times> va_arg list) result" where
  "take_64 args =
     (case args of
        VA_64 l # as \<Rightarrow> Inr (l, as)
      | VA_int hi w # as \<Rightarrow> Inr (ucast w OR push_bit 32 (ucast hi), as)
      | _ \<Rightarrow> Inl bad_arg)"

text \<open>The \<open>switch (fmt_char)\<close>: the remaining arguments and the new state of the printer.\<close>

definition printf_switch ::
  "(char \<Rightarrow> 's \<Rightarrow> 's result) \<Rightarrow> (string \<Rightarrow> 's \<Rightarrow> 's result) \<Rightarrow>
   char \<Rightarrow> u32 \<Rightarrow> va_arg list \<Rightarrow> 's \<Rightarrow> (va_arg list \<times> 's) result" where
  "printf_switch putc writestr fmt_char padding args s =
     (let done = (\<lambda>as r. rbind r (\<lambda>s'. Inr (as, s')));
          number = (\<lambda>conv. rbind (take_64 args) (\<lambda>(l, as).
             rbind (conv l) (\<lambda>buf. rbind (c_string buf) (\<lambda>t. done as (writestr t s)))))
      in if fmt_char = CHR ''c'' then
           (case args of VA_int hi w # as \<Rightarrow> done as (putc (char_of (unat w)) s) | _ \<Rightarrow> Inl bad_arg)
         else if fmt_char = CHR ''d'' then number (\<lambda>l. itos (sint l))
         else if fmt_char = CHR ''u'' then number utos
         else if fmt_char = CHR ''x'' then number (\<lambda>l. itox l (sint padding))
         else if fmt_char = CHR ''b'' then number (\<lambda>l. itob l (sint padding))
         else if fmt_char = CHR ''p'' then number (\<lambda>l. itox l 16)
         else if fmt_char = CHR ''s'' then
           (case args of VA_str t # as \<Rightarrow> done as (writestr t s) | _ \<Rightarrow> Inl bad_arg)
         else if fmt_char = CHR ''%'' then done args (putc (CHR ''%'') s)
         else done args (writestr (''Invalid printf specifier!!!'' @ [CHR 0x0A]) s))"

text \<open>
  The loop over the format string (without its terminator). A \<open>%\<close> at the very end makes the code
  read behind the terminator.
\<close>

function vprintf ::
  "(char \<Rightarrow> 's \<Rightarrow> 's result) \<Rightarrow> (string \<Rightarrow> 's \<Rightarrow> 's result) \<Rightarrow>
   string \<Rightarrow> va_arg list \<Rightarrow> 's \<Rightarrow> 's result" where
  "vprintf putc writestr [] args s = Inr s"
| "vprintf putc writestr (c # cs) args s =
     (if c \<noteq> CHR ''%'' then rbind (putc c s) (\<lambda>s'. vprintf putc writestr cs args s')
      else case cs of
          [] \<Rightarrow> Inl (Undefined ''format read past its end'')
        | fmt_char # r \<Rightarrow>
            rbind (printf_switch putc writestr fmt_char (fst (padding_spec r)) args s) (\<lambda>(args', s').
              vprintf putc writestr (snd (padding_spec r)) args' s'))"
  by pat_completeness auto
termination
proof (relation "measure (\<lambda>(putc, writestr, fmt, args, s). length fmt)", goal_cases)
  case 1
  then show ?case by simp
next
  case 2
  then show ?case by simp
next
  case (3 putc writestr c cs args s f r)
  then show ?case using padding_spec_length [of r] by simp
qed

section \<open>Output as a string\<close>

primrec putc_all :: "(char \<Rightarrow> 's \<Rightarrow> 's result) \<Rightarrow> string \<Rightarrow> 's \<Rightarrow> 's result" where
  "putc_all putc [] s = Inr s"
| "putc_all putc (c # cs) s = rbind (putc c s) (putc_all putc cs)"

lemma putc_all_append: "putc_all putc (t @ u) s = rbind (putc_all putc t s) (putc_all putc u)"
  by (induction t arbitrary: s) (simp_all add: rbind_def split: sum.split)

text \<open>
  The printer that collects its output. \<open>vformat\<close> is the string that \<open>vprintf\<close> sends to it, and by the locale below to every
  printer; which text a format means, independently of the code, is defined in theory \<open>Format\<close>.
\<close>

definition collect_putc :: "char \<Rightarrow> string \<Rightarrow> string result" where
  "collect_putc c s = Inr (s @ [c])"

definition collect_writestr :: "string \<Rightarrow> string \<Rightarrow> string result" where
  "collect_writestr t s = Inr (s @ t)"

definition vformat :: "string \<Rightarrow> va_arg list \<Rightarrow> string result" where
  "vformat fmt args = vprintf collect_putc collect_writestr fmt args []"

lemma rbind_cong: "r = r' \<Longrightarrow> (\<And>x. r' = Inr x \<Longrightarrow> f x = g x) \<Longrightarrow> rbind r f = rbind r' g"
  by (cases r') simp_all

lemma collect_shift:
  "printf_switch collect_putc collect_writestr f p args (u @ t) =
     rbind (printf_switch collect_putc collect_writestr f p args t) (\<lambda>(as, t'). Inr (as, u @ t'))"
  by (auto simp: printf_switch_def Let_def collect_putc_def collect_writestr_def rbind_assoc
      case_prod_unfold split: list.split va_arg.split intro!: rbind_cong)

lemma vprintf_collect_shift:
  "vprintf collect_putc collect_writestr fmt args u =
     rbind (vformat fmt args) (\<lambda>t. Inr (u @ t))"
proof (induction "length fmt" arbitrary: fmt args u rule: less_induct)
  case less
  show ?case
  proof (cases fmt)
    case Nil
    then show ?thesis by (simp add: vformat_def)
  next
    case (Cons c cs)
    show ?thesis
    proof (cases "c = CHR ''%'' \<and> cs \<noteq> []")
      case False
      then show ?thesis
        using Cons less [of cs args "u @ [c]"] less [of cs args "[c]"]
        by (auto simp: vformat_def collect_putc_def rbind_assoc)
    next
      case True
      then obtain f r where fr: "cs = f # r" by (cases cs) auto
      have len: "length (snd (padding_spec r)) < length fmt"
        using padding_spec_length [of r] Cons fr by simp
      have step: "vprintf collect_putc collect_writestr fmt args v =
        rbind (printf_switch collect_putc collect_writestr f (fst (padding_spec r)) args []) (\<lambda>(as, t).
          rbind (vformat (snd (padding_spec r)) as) (\<lambda>t'. Inr (v @ t @ t')))" for v
        using Cons True fr collect_shift [of f _ args v "[]"] less [OF len]
        by (simp add: rbind_assoc case_prod_unfold)
      then show ?thesis by (simp add: vformat_def [of fmt] rbind_assoc case_prod_unfold)
    qed
  qed
qed

text \<open>How \<open>vformat\<close> reads a format: character by character, one conversion at a time.\<close>

lemma vformat_simps:
  "vformat [] args = Inr []"
  "c \<noteq> CHR ''%'' \<Longrightarrow> vformat (c # cs) args = rbind (vformat cs args) (\<lambda>t. Inr (c # t))"
  "vformat ''%'' args = Inl (Undefined ''format read past its end'')"
  "vformat (CHR ''%'' # f # r) args =
     rbind (printf_switch collect_putc collect_writestr f (fst (padding_spec r)) args []) (\<lambda>(as, t).
       rbind (vformat (snd (padding_spec r)) as) (\<lambda>t'. Inr (t @ t')))"
  by (simp_all add: vformat_def [of "[]"] vformat_def [of "c # cs"] vformat_def [of "''%''"]
      vformat_def [of "CHR ''%'' # f # r"] vprintf_collect_shift [of cs] collect_putc_def
      vprintf_collect_shift [of "snd (padding_spec r)"] case_prod_unfold)

locale printer =
  fixes putc :: "char \<Rightarrow> 's \<Rightarrow> 's result"
    and writestr :: "string \<Rightarrow> 's \<Rightarrow> 's result"
  assumes writestr_putc: "writestr t s = putc_all putc t s"
begin

lemma switch_collected:
  "printf_switch putc writestr f p args s =
     rbind (printf_switch collect_putc collect_writestr f p args []) (\<lambda>(as, t).
       rbind (putc_all putc t s) (\<lambda>s'. Inr (as, s')))"
  by (auto simp: printf_switch_def Let_def writestr_putc collect_putc_def collect_writestr_def rbind_assoc
      case_prod_unfold fun_eq_iff split: list.split va_arg.split intro!: rbind_cong)

lemma vprintf_collected:
  "case vformat fmt args of
     Inr t \<Rightarrow> vprintf putc writestr fmt args s = putc_all putc t s
   | Inl e \<Rightarrow> \<exists>e'. vprintf putc writestr fmt args s = Inl e'"
proof (induction "length fmt" arbitrary: fmt args s rule: less_induct)
  case less
  show ?case
  proof (cases fmt)
    case Nil
    then show ?thesis by (simp add: vformat_simps)
  next
    case (Cons c cs)
    show ?thesis
    proof (cases "c = CHR ''%''")
      case False
      then show ?thesis
        using Cons less [of cs args]
        by (cases "putc c s"; cases "vformat cs args") (auto simp: vformat_simps)
    next
      case True
      show ?thesis
      proof (cases cs)
        case Nil
        then show ?thesis using Cons True by (simp add: vformat_simps)
      next
        case fr: (Cons f r)
        have len: "length (snd (padding_spec r)) < length fmt"
          using padding_spec_length [of r] Cons fr by simp
        show ?thesis
        proof (cases "printf_switch collect_putc collect_writestr f (fst (padding_spec r)) args []")
          case (Inl e)
          then show ?thesis using Cons True fr by (simp add: vformat_simps switch_collected)
        next
          case (Inr at)
          then obtain as t where at: "at = (as, t)" by (cases at)
          have out: "vprintf putc writestr fmt args s =
            rbind (putc_all putc t s) (\<lambda>s'. vprintf putc writestr (snd (padding_spec r)) as s')"
            using Cons True fr Inr at switch_collected [of f "fst (padding_spec r)" args s] by (simp add: rbind_assoc)
          have fmt: "vformat fmt args = rbind (vformat (snd (padding_spec r)) as) (\<lambda>t'. Inr (t @ t'))"
            using Cons True fr Inr at by (simp add: vformat_simps)
          show ?thesis
            using less [OF len, of as]
            by (cases "putc_all putc t s"; cases "vformat (snd (padding_spec r)) as")
              (auto simp: out fmt putc_all_append)
        qed
      qed
    qed
  qed
qed

end

lemma putc_all_collect: "putc_all collect_putc t s = Inr (s @ t)"
  by (induction t arbitrary: s) (simp_all add: collect_putc_def)

interpretation collect: printer collect_putc collect_writestr
  by unfold_locales (simp add: collect_writestr_def putc_all_collect)

text \<open>A format without conversions is printed as it stands.\<close>

lemma vformat_plain: "CHR ''%'' \<notin> set fmt \<Longrightarrow> vformat fmt args = Inr fmt"
  by (induction fmt) (auto simp: vformat_simps)

end
