(* ===== verification/Format.thy ===== *)
theory Format
  imports Vprintf
begin

text \<open>
  The meaning of a format string, defined without the code of \<open>vprintf\<close> (utils/printf.h): a format is a sequence of literal
  characters and of conversions with a width, and each conversion has the text of its argument, with the numerals of theory
  \<open>Printf\<close>. The main lemma is that \<open>vprintf\<close> produces this text. A format or an argument list for which the code has no
  defined behaviour, or none that could be meant, has no meaning here: a \<open>%\<close> at the very end; a missing argument or one of
  another type; \<open>%d\<close> of the least number; widths over 125; \<open>%b\<close> of 0 (printed without its digit) and of a value from
  \<open>2 ^ 31\<close> on that is wider than the requested width.
\<close>

section \<open>The meaning of a format\<close>

datatype piece = Literal char | Conversion char nat

definition width_of :: "string \<Rightarrow> nat" where
  "width_of r = (if take 2 r = ''.:'' then foldl (\<lambda>v c. 10 * v + (of_char c - 48)) 0 (takeWhile is_digit (drop 2 r)) else 0)"

definition after_width :: "string \<Rightarrow> string" where
  "after_width r = (if take 2 r = ''.:'' then dropWhile is_digit (drop 2 r) else r)"

lemma length_after_width: "length (after_width r) \<le> length r"
  using length_dropWhile_le [of is_digit "drop 2 r"] by (auto simp: after_width_def)

function pieces :: "string \<Rightarrow> piece list option" where
  "pieces [] = Some []"
| "pieces (c # cs) =
     (if c \<noteq> CHR ''%'' then map_option ((#) (Literal c)) (pieces cs)
      else case cs of
          [] \<Rightarrow> None
        | f # r \<Rightarrow> map_option ((#) (Conversion f (width_of r))) (pieces (after_width r)))"
  by pat_completeness auto
termination
proof (relation "measure length", goal_cases)
  case (3 c cs f r)
  then show ?case using length_after_width [of r] by simp
qed simp_all

text \<open>The text of a 64-bit number.\<close>

definition number_text :: "char \<Rightarrow> nat \<Rightarrow> u64 \<Rightarrow> string option" where
  "number_text f width l =
     (if f = CHR ''d'' \<and> sint l \<noteq> - (2 ^ 63) then Some (dec_text (sint l))
      else if f = CHR ''u'' then Some (numeral_text 10 (unat l))
      else if f = CHR ''x'' \<and> width \<le> 125 then Some (hex_text width l)
      else if f = CHR ''p'' then Some (hex_text 16 l)
      else if f = CHR ''b'' \<and> l \<noteq> 0 \<and> width \<le> 125 \<and> (unat l < 2 ^ 31 \<or> length (numeral_text 2 (unat l)) \<le> width)
        then Some (bin_text width l)
      else None)"

text \<open>
  The text of an argument: a string, a character given as an \<open>int\<close>, or a number, which may be an \<open>int\<close> whose slot has \<open>hi\<close>
  in its upper half.
\<close>

fun argument_text :: "char \<Rightarrow> nat \<Rightarrow> va_arg \<Rightarrow> string option" where
  "argument_text f width (VA_str t) = (if f = CHR ''s'' then Some t else None)"
| "argument_text f width (VA_64 l) = number_text f width l"
| "argument_text f width (VA_int hi w) =
     (if f = CHR ''c'' then Some [char_of (unat w)] else number_text f width (word_cat hi w))"

fun render :: "piece list \<Rightarrow> va_arg list \<Rightarrow> string option" where
  "render [] args = Some []"
| "render (Literal c # ps) args = map_option ((#) c) (render ps args)"
| "render (Conversion f width # ps) args =
     (if f = CHR ''%'' then map_option ((#) (CHR ''%'')) (render ps args)
      else if f \<notin> set ''cduxbps''
        then map_option ((@) (''Invalid printf specifier!!!'' @ [CHR 0x0A])) (render ps args)
      else case args of
          [] \<Rightarrow> None
        | x # xs \<Rightarrow> (case argument_text f width x of None \<Rightarrow> None | Some t \<Rightarrow> map_option ((@) t) (render ps xs)))"

definition format_text :: "string \<Rightarrow> va_arg list \<Rightarrow> string option" where
  "format_text fmt args = (case pieces fmt of None \<Rightarrow> None | Some ps \<Rightarrow> render ps args)"

section \<open>\<open>vprintf\<close> produces it\<close>

lemma is_digit_range: "is_digit c \<longleftrightarrow> 48 \<le> (of_char c :: nat) \<and> (of_char c :: nat) \<le> 57"
proof -
  have "set ''0123456789'' = char_of ` {48..57 :: nat}" by code_simp
  then have "is_digit c \<longleftrightarrow> (\<exists>n \<in> {48..57 :: nat}. c = char_of n)" unfolding is_digit_def by auto
  also have "\<dots> \<longleftrightarrow> 48 \<le> (of_char c :: nat) \<and> (of_char c :: nat) \<le> 57"
    by (auto intro!: bexI [of _ "of_char c"])
  finally show ?thesis .
qed

lemma parse_padding_eq:
  "parse_padding (of_nat v) r =
     (of_nat (foldl (\<lambda>v c. 10 * v + (of_char c - 48)) v (takeWhile is_digit r)), dropWhile is_digit r)"
proof (induction r arbitrary: v)
  case (Cons c r)
  have eq: "(of_nat v * 10 + of_nat (of_char c - 48) :: u32) = of_nat (10 * v + (of_char c - 48))" by simp
  show ?case
    by (cases "is_digit c")
      (simp_all only: parse_padding.simps is_digit_range [symmetric] eq Cons takeWhile.simps dropWhile.simps foldl_Cons foldl_Nil
        if_True if_False simp_thms)
qed simp

lemma padding_spec_eq: "padding_spec r = (of_nat (width_of r), after_width r)"
  using parse_padding_eq [of 0 "drop 2 r"] by (simp add: padding_spec_def width_of_def after_width_def)

lemma sint_width: "width \<le> 125 \<Longrightarrow> sint (of_nat width :: u32) = int width"
  by (simp add: signed_of_nat) (rule signed_take_bit_int_eq_self, simp_all)

lemma slot_cat: "ucast (w :: u32) OR push_bit 32 (ucast (hi :: u32)) = (word_cat hi w :: u64)"
proof (rule bit_word_eqI)
  fix n :: nat assume "n < LENGTH(64)"
  then show "bit (ucast w OR push_bit 32 (ucast hi) :: u64) n \<longleftrightarrow> bit (word_cat hi w :: u64) n"
    using bit_imp_le_length [of w n] by (auto simp: bit_simps bit_word_cat_iff)
qed

text \<open>A number conversion prints the text of the number.\<close>

lemma number_switch:
  assumes "number_text f width l = Some t" "take_64 args = Inr (l, xs)"
  shows "printf_switch collect_putc collect_writestr f (of_nat width) args [] = Inr (xs, t)"
proof -
  have "- (2 ^ 63) < sint l" "sint l < 2 ^ 63" if "sint l \<noteq> - (2 ^ 63)"
    using sint_lt [of l] sint_ge [of l] that by simp_all
  then show ?thesis
    using assms conversion_texts(1,4) [of l] conversion_texts(3) [of width l] conversion_texts(3) [of 16 l] conversion_texts(2) [of "sint l"]
    by (auto simp: number_text_def printf_switch_def Let_def rbind_assoc [symmetric] collect_writestr_def sint_width
        split: if_splits)
qed

lemma argument_switch:
  assumes "argument_text f width x = Some t" "f \<noteq> CHR ''%''"
  shows "printf_switch collect_putc collect_writestr f (of_nat width) (x # xs) [] = Inr (xs, t)"
proof (cases x)
  case (VA_int hi w)
  show ?thesis
  proof (cases "f = CHR ''c''")
    case True
    then show ?thesis using assms VA_int by (simp add: printf_switch_def collect_putc_def)
  next
    case False
    then show ?thesis using assms VA_int by (intro number_switch) (simp_all add: take_64_def slot_cat)
  qed
next
  case (VA_64 l)
  then show ?thesis using assms by (intro number_switch) (simp_all add: take_64_def)
next
  case (VA_str u)
  then show ?thesis using assms by (simp add: printf_switch_def collect_writestr_def split: if_splits)
qed

lemma render_conversion:
  assumes "f \<in> set ''cduxbps''" "f \<noteq> CHR ''%''"
  shows "render (Conversion f width # ps) args =
    (case args of [] \<Rightarrow> None
     | x # xs \<Rightarrow> (case argument_text f width x of None \<Rightarrow> None | Some t \<Rightarrow> map_option ((@) t) (render ps xs)))"
  using assms by (simp only: render.simps if_False simp_thms)

lemma render_vformat:
  assumes "pieces fmt = Some ps" "render ps args = Some t"
  shows "vformat fmt args = Inr t"
  using assms
proof (induction fmt arbitrary: ps args t rule: pieces.induct)
  case 1
  then show ?case by (simp add: vformat_simps)
next
  case (2 c cs)
  show ?case
  proof (cases "c = CHR ''%''")
    case False
    then obtain qs u where "pieces cs = Some qs" "render qs args = Some u" "t = c # u"
      using 2(3,4) by auto
    then show ?thesis using 2(1) False by (simp add: vformat_simps)
  next
    case True
    then obtain f r qs where fr: "cs = f # r" "pieces (after_width r) = Some qs" "ps = Conversion f (width_of r) # qs"
      using 2(3) by (auto split: list.splits)
    have step: "vformat (CHR ''%'' # f # r) xs =
      rbind (printf_switch collect_putc collect_writestr f (of_nat (width_of r)) xs []) (\<lambda>(as, t).
       rbind (vformat (after_width r) as) (\<lambda>t'. Inr (t @ t')))" for xs
      by (simp add: vformat_simps padding_spec_eq)
    note IH = 2(2) [OF _ fr(1,2)]
    show ?thesis
    proof (cases "f \<in> set ''cduxbps''")
      case False
      then show ?thesis using 2(4) IH True
        by (auto simp: fr step printf_switch_def collect_putc_def collect_writestr_def split: if_splits)
    next
      case conv: True
      then have f: "f \<noteq> CHR ''%''" by auto
      obtain x xs u v where "args = x # xs" "argument_text f (width_of r) x = Some u" "render qs xs = Some v" "t = u @ v"
        using 2(4) unfolding fr(3) render_conversion [OF conv f]
        by (auto split: list.splits option.splits)
      then show ?thesis using IH True f by (simp add: fr step argument_switch)
    qed
  qed
qed

lemma format_vformat: "format_text fmt args = Some t \<Longrightarrow> vformat fmt args = Inr t"
  by (auto simp: format_text_def intro: render_vformat split: option.splits)

end
