(* ===== verification/Video.thy ===== *)
theory Video
  imports Format
begin

text \<open>
  The VGA text console \<open>Video\<close> (utils/video.h, utils/video.cpp). The video memory is an unbounded
  array of 16-bit cells indexed as the code indexes \<open>videomem\<close>, so that a write beyond the 80 by 25
  screen is a visible change of a cell from 2000 on. The columns of the lines on screen are kept
  in the ring \<open>pos\<close> with head \<open>pos_head\<close>; the abstraction \<open>screen_of\<close> reads the ring as a stack of
  columns, the current line first, and the memory as 25 rows.
\<close>

section \<open>Operations\<close>

datatype VGA_COLOR =
    BLACK | BLUE | GREEN | CYAN | RED | MAGENTA | BROWN | LIGHT_GREY
  | DARK_GREY | LIGHT_BLUE | LIGHT_GREEN | LIGHT_CYAN | LIGHT_RED | LIGHT_MAGENTA | LIGHT_BROWN | WHITE

primrec color_code :: "VGA_COLOR \<Rightarrow> u8" where
  "color_code BLACK = 0" | "color_code BLUE = 1" | "color_code GREEN = 2" | "color_code CYAN = 3"
| "color_code RED = 4" | "color_code MAGENTA = 5" | "color_code BROWN = 6" | "color_code LIGHT_GREY = 7"
| "color_code DARK_GREY = 8" | "color_code LIGHT_BLUE = 9" | "color_code LIGHT_GREEN = 10"
| "color_code LIGHT_CYAN = 11" | "color_code LIGHT_RED = 12" | "color_code LIGHT_MAGENTA = 13"
| "color_code LIGHT_BROWN = 14" | "color_code WHITE = 15"

definition vga_entry_color :: "VGA_COLOR \<Rightarrow> VGA_COLOR \<Rightarrow> u8" where
  "vga_entry_color fg bg = color_code fg OR push_bit 4 (color_code bg)"

definition vga_entry :: "u8 \<Rightarrow> u8 \<Rightarrow> u16" where
  "vga_entry c color = ucast c OR push_bit 8 (ucast color)"

record video =
  videomem :: "nat \<Rightarrow> u16"
  color :: u8
  pos_head :: u64
  pos :: "u32 list"

definition POS_CALC_INDX :: "video \<Rightarrow> nat \<Rightarrow> nat" where
  "POS_CALC_INDX v ind = unat ((of_nat ind + pos_head v) mod 25)"

definition POS_INDX :: "video \<Rightarrow> nat \<Rightarrow> u32" where
  "POS_INDX v ind = pos v ! POS_CALC_INDX v ind"

definition set_POS_INDX :: "nat \<Rightarrow> u32 \<Rightarrow> video \<Rightarrow> video" where
  "set_POS_INDX ind x v = v\<lparr>pos := (pos v)[POS_CALC_INDX v ind := x]\<rparr>"

definition blank :: u16 where
  "blank = vga_entry (of_char (CHR '' '')) (vga_entry_color BLACK BLACK)"

text \<open>\<open>for (x = 0; x < VGA_WIDTH; x++)\<close> over one row.\<close>

definition blank_row :: "nat \<Rightarrow> (nat \<Rightarrow> u16) \<Rightarrow> nat \<Rightarrow> u16" where
  "blank_row y vm = fold (\<lambda>x vm. vm(y * 80 + x := blank)) [0..<80] vm"

definition copy_row :: "nat \<Rightarrow> nat \<Rightarrow> (nat \<Rightarrow> u16) \<Rightarrow> nat \<Rightarrow> u16" where
  "copy_row dst src vm = fold (\<lambda>x vm. vm(dst * 80 + x := vm (src * 80 + x))) [0..<80] vm"

definition Video_clear :: "video \<Rightarrow> video" where
  "Video_clear v = v\<lparr>videomem := fold blank_row [0..<25] (videomem v), pos := replicate 25 0\<rparr>"

definition Video_new :: "(nat \<Rightarrow> u16) \<Rightarrow> video" where
  "Video_new vm =
     Video_clear \<lparr>videomem = vm, color = vga_entry_color BLACK BLACK, pos_head = 0, pos = replicate 25 0\<rparr>"

definition write_entry :: "u16 \<Rightarrow> u32 \<Rightarrow> u32 \<Rightarrow> video \<Rightarrow> video" where
  "write_entry e x y v = v\<lparr>videomem := (videomem v)(unat y * 80 + unat x := e)\<rparr>"

definition new_line :: "video \<Rightarrow> video" where
  "new_line v =
     (let v1 = v\<lparr>pos_head := (pos_head v + 25 - 1) mod 25\<rparr>;
          v2 = set_POS_INDX 24 0 v1;
          vm = fold (\<lambda>y. copy_row y (y + 1)) [0..<24] (videomem v2)
      in v2\<lparr>videomem := blank_row 24 vm\<rparr>)"

definition del_line :: "video \<Rightarrow> video" where
  "del_line v =
     (let v1 = v\<lparr>pos_head := pos_head v + 1 mod 25\<rparr>;
          vm = fold (\<lambda>y. copy_row (y + 1) y) (rev [0..<24]) (videomem v1)
      in v1\<lparr>videomem := blank_row 0 vm\<rparr>)"

definition putc_plain :: "char \<Rightarrow> video \<Rightarrow> video" where
  "putc_plain c v =
     (let v1 = (if POS_INDX v 24 = 80 then new_line v else v);
          x = POS_INDX v1 24
      in write_entry (vga_entry (of_char c) (color v1)) x 24 (set_POS_INDX 24 (x + 1) v1))"

definition putc_backspace :: "video \<Rightarrow> video" where
  "putc_backspace v =
     (if POS_INDX v 24 > 0 \<and> POS_INDX v 24 \<le> 80
      then let x = POS_INDX v 24 - 1
           in write_entry (vga_entry 0 (color_code BLACK)) x 24 (set_POS_INDX 24 x v)
      else del_line v)"

definition Video_putc :: "char \<Rightarrow> video \<Rightarrow> video" where
  "Video_putc c v =
     (if c = CHR 0x0A then new_line v
      else if c = CHR 0x08 then putc_backspace v
      else if c = CHR 0x09 then (putc_plain (CHR '' '') ^^ 4) v
      else putc_plain c v)"

definition set_color :: "VGA_COLOR \<Rightarrow> VGA_COLOR \<Rightarrow> video \<Rightarrow> video" where
  "set_color fg bg v = v\<lparr>color := vga_entry_color fg bg\<rparr>"

text \<open>\<open>write\<close> on the first \<open>len\<close> characters of \<open>p\<close>; \<open>writestr\<close> passes the length of the string.\<close>

definition Video_write :: "string \<Rightarrow> nat \<Rightarrow> video \<Rightarrow> video" where
  "Video_write p len v = fold (\<lambda>i. Video_putc (p ! i)) [0..<len] v"

definition Video_writestr :: "string \<Rightarrow> video \<Rightarrow> video" where
  "Video_writestr p v = Video_write p (length p) v"

definition Video_printf :: "string \<Rightarrow> va_arg list \<Rightarrow> video \<Rightarrow> video result" where
  "Video_printf fmt args v =
     vprintf (\<lambda>c v. Inr (Video_putc c v)) (\<lambda>t v. Inr (Video_writestr t v)) fmt args v"

definition set_cursor :: "bool \<Rightarrow> video \<Rightarrow> video" where
  "set_cursor on v =
     write_entry (if on then vga_entry (of_char (CHR ''|'')) (color_code WHITE)
                  else vga_entry (of_char (CHR '' '')) (color_code BLACK))
       (POS_INDX v 24 + 1) 24 v"

section \<open>The loops over the video memory\<close>

lemma fold_row:
  assumes "\<And>x. x < n \<Longrightarrow> f x = (\<lambda>vm. vm(y * 80 + x := g x vm))"
    and "\<And>x vm vm'. x < n \<Longrightarrow> (\<And>i. i div 80 \<noteq> y \<Longrightarrow> vm i = vm' i) \<Longrightarrow> g x vm = g x vm'"
    and "n \<le> 80"
  shows "fold f [0..<n] vm = (\<lambda>i. if i div 80 = y \<and> i mod 80 < n then g (i mod 80) vm else vm i)"
  using assms
proof (induction n)
  case 0
  show ?case by simp
next
  case (Suc n)
  let ?vm = "\<lambda>i. if i div 80 = y \<and> i mod 80 < n then g (i mod 80) vm else vm i"
  have IH: "fold f [0..<n] vm = ?vm"
  proof (rule Suc.IH)
    show "f x = (\<lambda>vm. vm(y * 80 + x := g x vm))" if "x < n" for x using that by (intro Suc.prems(1)) simp
    show "g x u = g x u'" if "x < n" "\<And>i. i div 80 \<noteq> y \<Longrightarrow> u i = u' i" for x u u'
      using that(1) by (intro Suc.prems(2) that(2)) simp_all
  qed (use Suc.prems(3) in simp)
  have g: "g n ?vm = g n vm" by (rule Suc.prems(2)) auto
  have idx: "i = y * 80 + n \<longleftrightarrow> i div 80 = y \<and> i mod 80 = n" for i
    using Suc.prems(3) by auto
  have "fold f [0..<Suc n] vm = f n (fold f [0..<n] vm)" by simp
  also have "\<dots> = ?vm(y * 80 + n := g n ?vm)" by (simp only: IH Suc.prems(1) [OF lessI])
  finally have "fold f [0..<Suc n] vm = ?vm(y * 80 + n := g n vm)" by (simp only: g)
  then show ?case by (auto simp: fun_eq_iff fun_upd_apply idx less_Suc_eq)
qed

lemma blank_row_eq: "blank_row y vm = (\<lambda>i. if i div 80 = y then blank else vm i)"
  unfolding blank_row_def by (subst fold_row [of 80 _ y "\<lambda>_ _. blank"]) (auto simp: fun_eq_iff)

lemma copy_row_eq:
  "dst \<noteq> src \<Longrightarrow> copy_row dst src vm = (\<lambda>i. if i div 80 = dst then vm (src * 80 + i mod 80) else vm i)"
  unfolding copy_row_def by (subst fold_row [of 80 _ dst "\<lambda>x vm. vm (src * 80 + x)"]) (auto simp: fun_eq_iff)

lemma clear_rows: "fold blank_row [0..<n] vm = (\<lambda>i. if i div 80 < n then blank else vm i)"
  by (induction n) (auto simp: blank_row_eq fun_eq_iff less_Suc_eq)

lemma scroll_up:
  "fold (\<lambda>y. copy_row y (y + 1)) [0..<n] vm = (\<lambda>i. if i div 80 < n then vm (i + 80) else vm i)"
proof (induction n)
  case (Suc n)
  have "80 + n * 80 + i mod 80 = i + 80" if "i div 80 = n" for i :: nat
    using div_mult_mod_eq [of i 80] unfolding that by linarith
  then show ?case using Suc by (auto simp: copy_row_eq fun_eq_iff less_Suc_eq)
qed simp

lemma scroll_down:
  "fold (\<lambda>y. copy_row (y + 1) y) (rev [0..<n]) vm =
     (\<lambda>i. if 0 < i div 80 \<and> i div 80 \<le> n then vm (i - 80) else vm i)"
proof (induction n arbitrary: vm)
  case (Suc n)
  have last: "n * 80 + i mod 80 = i - 80" if "i div 80 = Suc n" for i :: nat
    using div_mult_mod_eq [of i 80] unfolding that by simp
  have up: "(i - 80) div 80 = i div 80 - 1" for i :: nat by (cases "80 \<le> i") (simp_all add: le_div_geq)
  have "fold (\<lambda>y. copy_row (y + 1) y) (rev [0..<Suc n]) vm =
    fold (\<lambda>y. copy_row (y + 1) y) (rev [0..<n]) (copy_row (Suc n) n vm)" by simp
  also have "\<dots> = (\<lambda>i. if 0 < i div 80 \<and> i div 80 \<le> n then copy_row (Suc n) n vm (i - 80)
    else copy_row (Suc n) n vm i)" by (rule Suc)
  also have "\<dots> = (\<lambda>i. if 0 < i div 80 \<and> i div 80 \<le> Suc n then vm (i - 80) else vm i)"
    by (rule ext) (auto simp: copy_row_eq up last le_Suc_eq)
  finally show ?case .
qed (auto simp: fun_eq_iff)

section \<open>The screen as rows and columns\<close>

text \<open>
  The abstract screen: 25 rows of 80 cells, and the column of each line that is or was on the
  screen, the line being written first.
\<close>

record screen =
  rows :: "u16 list list"
  cols :: "u32 list"

definition screen_of :: "video \<Rightarrow> screen" where
  "screen_of v =
     \<lparr>rows = map (\<lambda>y. map (\<lambda>x. videomem v (y * 80 + x)) [0..<80]) [0..<25],
      cols = rotate (unat (pos_head v) + 24) (pos v)\<rparr>"

definition spec_new_line :: "screen \<Rightarrow> screen" where
  "spec_new_line s = \<lparr>rows = tl (rows s) @ [replicate 80 blank], cols = 0 # butlast (cols s)\<rparr>"

definition spec_del_line :: "screen \<Rightarrow> screen" where
  "spec_del_line s = \<lparr>rows = replicate 80 blank # butlast (rows s), cols = rotate1 (cols s)\<rparr>"

definition spec_write :: "u16 \<Rightarrow> u32 \<Rightarrow> u32 \<Rightarrow> screen \<Rightarrow> screen" where
  "spec_write e x next s =
     s\<lparr>rows := butlast (rows s) @ [(last (rows s))[unat x := e]], cols := next # tl (cols s)\<rparr>"

definition spec_plain :: "u8 \<Rightarrow> char \<Rightarrow> screen \<Rightarrow> screen" where
  "spec_plain attr c s =
     (let s' = (if hd (cols s) = 80 then spec_new_line s else s)
      in spec_write (vga_entry (of_char c) attr) (hd (cols s')) (hd (cols s') + 1) s')"

definition spec_backspace :: "screen \<Rightarrow> screen" where
  "spec_backspace s =
     (if 0 < hd (cols s) then spec_write (vga_entry 0 0) (hd (cols s) - 1) (hd (cols s) - 1) s
      else spec_del_line s)"

definition spec_putc :: "u8 \<Rightarrow> char \<Rightarrow> screen \<Rightarrow> screen" where
  "spec_putc attr c s =
     (if c = CHR 0x0A then spec_new_line s
      else if c = CHR 0x08 then spec_backspace s
      else if c = CHR 0x09 then (spec_plain attr (CHR '' '') ^^ 4) s
      else spec_plain attr c s)"

text \<open>
  The invariant of the console: 25 columns, none beyond the right margin. \<open>del_line\<close> moves the head
  of the ring without reducing it, so that the ring is read correctly as long as the head has room
  left below \<open>2 ^ 64\<close>.
\<close>

definition video_ok :: "video \<Rightarrow> bool" where
  "video_ok v \<longleftrightarrow> length (pos v) = 25 \<and> (\<forall>x \<in> set (pos v). x \<le> 80)"

definition head_room :: "video \<Rightarrow> nat \<Rightarrow> bool" where
  "head_room v n \<longleftrightarrow> max 24 (unat (pos_head v)) + 24 + n < 2 ^ 64"

lemma head_room_mono: "head_room v n \<Longrightarrow> k \<le> n \<Longrightarrow> head_room v k"
  by (simp add: head_room_def)

lemma POS_CALC_less [simp]: "POS_CALC_INDX v i < 25"
proof -
  have "unat ((of_nat i + pos_head v) mod 25) = unat (of_nat i + pos_head v) mod 25"
    by (simp add: unat_mod)
  then show ?thesis by (simp add: POS_CALC_INDX_def)
qed

lemma POS_CALC_24: "head_room v 0 \<Longrightarrow> POS_CALC_INDX v 24 = (unat (pos_head v) + 24) mod 25"
proof -
  assume "head_room v 0"
  then have "unat (24 + pos_head v) = unat (pos_head v) + 24"
    by (subst unat_plus_if_size) (simp add: head_room_def word_size)
  then show ?thesis by (simp add: POS_CALC_INDX_def unat_mod)
qed

lemma rotate_update:
  assumes "xs \<noteq> []"
  shows "rotate n (xs[n mod length xs := x]) = x # tl (rotate n xs)"
proof (rule nth_equalityI)
  fix i assume "i < length (rotate n (xs[n mod length xs := x]))"
  then have i: "i < length xs" by simp
  have "(n + i) mod length xs = n mod length xs \<longleftrightarrow> i = 0"
    using i mod_eq_dvd_iff_nat [of n "n + i" "length xs"] by (auto dest: dvd_imp_le)
  then show "rotate n (xs[n mod length xs := x]) ! i = (x # tl (rotate n xs)) ! i"
    using i by (cases i) (simp_all add: nth_rotate nth_list_update nth_tl)
qed (use assms in simp)

lemma POS_INDX_hd:
  "length (pos v) = 25 \<Longrightarrow> head_room v 0 \<Longrightarrow> POS_INDX v 24 = hd (cols (screen_of v))"
  by (simp add: POS_INDX_def POS_CALC_24 screen_of_def hd_rotate_conv_nth flip: length_0_conv)

lemma screen_of_set_POS:
  "length (pos v) = 25 \<Longrightarrow> head_room v 0 \<Longrightarrow>
     screen_of (set_POS_INDX 24 x v) = (screen_of v)\<lparr>cols := x # tl (cols (screen_of v))\<rparr>"
  using rotate_update [of "pos v" "unat (pos_head v) + 24" x]
  by (simp add: set_POS_INDX_def POS_CALC_24 screen_of_def flip: length_0_conv)

lemma set_POS_preserves [simp]:
  "length (pos (set_POS_INDX i x v)) = length (pos v)"
  "videomem (set_POS_INDX i x v) = videomem v"
  "pos_head (set_POS_INDX i x v) = pos_head v"
  "color (set_POS_INDX i x v) = color v"
  by (simp_all add: set_POS_INDX_def)

section \<open>Refinement\<close>

lemma length_screen_of [simp]:
  "length (rows (screen_of v)) = 25" "length (cols (screen_of v)) = length (pos v)"
  by (simp_all add: screen_of_def)

lemma screen_of_write_entry:
  assumes "x < 80" "length (pos v) = 25"
  shows "screen_of (write_entry e x 24 v) =
     (screen_of v)\<lparr>rows := butlast (rows (screen_of v)) @ [(last (rows (screen_of v)))[unat x := e]]\<rparr>"
proof -
  have x: "unat x < 80" using assms(1) by (simp add: word_less_nat_alt)
  have row: "map (\<lambda>i. (vm(24 * 80 + unat x := e)) (y * 80 + i)) [0..<80] =
      (if y = 24 then (map (\<lambda>i. vm (y * 80 + i)) [0..<80])[unat x := e] else map (\<lambda>i. vm (y * 80 + i)) [0..<80])"
    for vm :: "nat \<Rightarrow> u16" and y
    using x by (auto intro!: nth_equalityI simp: nth_list_update)
  have "[0..<25] = [0..<24] @ [24 :: nat]" by (simp add: upt_rec)
  then show ?thesis
    by (simp only: screen_of_def write_entry_def) (auto simp: row butlast_append fun_upd_def nth_list_update x simp del: upt_Suc intro!: nth_equalityI)
qed

lemma rotate_cols:
  assumes "length xs = Suc n"
  shows "rotate n xs = last xs # butlast xs"
  using assms rotate_append [of "butlast xs" "[last xs]"]
  by (cases xs rule: rev_cases) simp_all

lemma new_line_videomem:
  "videomem (new_line v) =
     (\<lambda>i. if i div 80 = 24 then blank else if i div 80 < 24 then videomem v (i + 80) else videomem v i)"
  by (rule ext) (simp add: new_line_def Let_def blank_row_eq scroll_up [simplified])

lemma del_line_videomem:
  "videomem (del_line v) =
     (\<lambda>i. if i div 80 = 0 then blank else if i div 80 \<le> 24 then videomem v (i - 80) else videomem v i)"
  by (rule ext) (simp add: del_line_def Let_def blank_row_eq scroll_down [simplified])

lemma new_line_preserves [simp]:
  "length (pos (new_line v)) = length (pos v)" "color (new_line v) = color v"
  "unat (pos_head (new_line v)) < 25"
  by (simp_all add: new_line_def Let_def unat_mod)

lemma new_line_head_room: "head_room v n \<Longrightarrow> head_room (new_line v) n"
  using new_line_preserves(3) [of v] unfolding head_room_def by (simp del: new_line_preserves(3))

lemma del_line_preserves [simp]:
  "pos (del_line v) = pos v" "color (del_line v) = color v"
  by (simp_all add: del_line_def Let_def)

lemma del_line_head: "head_room v 1 \<Longrightarrow> unat (pos_head (del_line v)) = unat (pos_head v) + 1"
  by (simp add: del_line_def Let_def head_room_def) (subst unat_plus_if_size, simp add: word_size)

lemma new_line_head:
  "head_room v 0 \<Longrightarrow> unat (pos_head (new_line v)) = (unat (pos_head v) + 24) mod 25"
proof -
  assume "head_room v 0"
  then have "unat (24 + pos_head v) = unat (pos_head v) + 24"
    by (subst unat_plus_if_size) (simp add: head_room_def word_size)
  then show ?thesis by (simp add: new_line_def Let_def unat_mod)
qed

lemma screen_of_new_line:
  assumes "length (pos v) = 25" "head_room v 0"
  shows "screen_of (new_line v) = spec_new_line (screen_of v)"
proof -
  let ?h = "unat (pos_head v)"
  let ?v = "v\<lparr>pos_head := (pos_head v + 25 - 1) mod 25\<rparr>"
  have ring: "cols (screen_of (new_line v)) = cols (screen_of (set_POS_INDX 24 0 ?v))"
    by (simp add: new_line_def Let_def screen_of_def)
  have head: "unat (pos_head ?v) = (?h + 24) mod 25"
    using new_line_head [OF assms(2)] by (simp add: new_line_def Let_def)
  have "rotate (unat (pos_head ?v) + 24) (pos v) = rotate (24 + (?h + 24)) (pos v)"
    using rotate_conv_mod [of "(?h + 24) mod 25 + 24" "pos v"] rotate_conv_mod [of "24 + (?h + 24)" "pos v"]
    unfolding head assms(1) by (simp add: mod_simps add.commute)
  also have "\<dots> = rotate 24 (rotate (?h + 24) (pos v))" by (simp only: rotate_rotate)
  also have "\<dots> = last (cols (screen_of v)) # butlast (cols (screen_of v))"
    using assms(1) by (subst rotate_cols) (simp_all add: screen_of_def)
  finally have "cols (screen_of (set_POS_INDX 24 0 ?v)) = 0 # butlast (cols (screen_of v))"
    using assms head by (subst screen_of_set_POS) (simp_all add: head_room_def screen_of_def)
  moreover have "rows (screen_of (new_line v)) = tl (rows (screen_of v)) @ [replicate 80 blank]"
    by (rule nth_equalityI)
      (auto simp: screen_of_def new_line_videomem nth_append nth_tl algebra_simps intro!: nth_equalityI)
  ultimately show ?thesis by (simp add: spec_new_line_def ring)
qed

lemma screen_of_del_line:
  assumes "length (pos v) = 25" "head_room v 1"
  shows "screen_of (del_line v) = spec_del_line (screen_of v)"
proof -
  have "cols (screen_of (del_line v)) = rotate1 (cols (screen_of v))"
    using rotate_Suc [of "unat (pos_head v) + 24" "pos v"] by (simp add: screen_of_def del_line_head [OF assms(2)])
  moreover have "rows (screen_of (del_line v)) = replicate 80 blank # butlast (rows (screen_of v))"
    by (rule nth_equalityI)
      (auto simp: screen_of_def del_line_videomem nth_Cons nth_butlast algebra_simps split: nat.split intro!: nth_equalityI)
  ultimately show ?thesis by (simp add: spec_del_line_def)
qed

lemma del_line_head_room: "head_room v (Suc n) \<Longrightarrow> head_room (del_line v) n"
  using del_line_head [of v] by (auto simp: head_room_def max_def split: if_splits)

text \<open>Invariant and frame: every operation keeps the columns in range and writes only the screen.\<close>

definition same_beyond :: "video \<Rightarrow> video \<Rightarrow> bool" where
  "same_beyond v v' \<longleftrightarrow> (\<forall>i \<ge> 2000. videomem v' i = videomem v i)"

lemma same_beyond_trans: "same_beyond u v \<Longrightarrow> same_beyond v w \<Longrightarrow> same_beyond u w"
  by (simp add: same_beyond_def)

lemma col_Suc: "x \<le> 80 \<Longrightarrow> unat (x + 1 :: u32) = unat x + 1"
  by (subst unat_plus_if_size) (simp add: word_size word_le_nat_alt)

lemma video_ok_set_POS: "video_ok v \<Longrightarrow> x \<le> 80 \<Longrightarrow> video_ok (set_POS_INDX i x v)"
  using set_update_subset_insert [of "pos v" "POS_CALC_INDX v i" x]
  by (auto simp: video_ok_def set_POS_INDX_def)

lemma POS_INDX_le: "video_ok v \<Longrightarrow> POS_INDX v i \<le> 80"
  by (simp add: video_ok_def POS_INDX_def)

lemma POS_INDX_set_POS: "length (pos v) = 25 \<Longrightarrow> POS_INDX (set_POS_INDX i x v) i = x"
  using POS_CALC_less [of v i] by (simp add: POS_INDX_def set_POS_INDX_def POS_CALC_INDX_def del: POS_CALC_less)

lemma write_entry_preserves:
  "video_ok (write_entry e x y v) \<longleftrightarrow> video_ok v" "head_room (write_entry e x y v) n \<longleftrightarrow> head_room v n"
  "x < 80 \<Longrightarrow> same_beyond v (write_entry e x 24 v)" "color (write_entry e x y v) = color v"
  by (auto simp: write_entry_def video_ok_def head_room_def same_beyond_def word_less_nat_alt)

lemma set_POS_room [simp]: "head_room (set_POS_INDX i x v) n \<longleftrightarrow> head_room v n"
  "same_beyond u (set_POS_INDX i x v) \<longleftrightarrow> same_beyond u v"
  by (simp_all add: head_room_def same_beyond_def)

lemma write_same_beyond: "x < 80 \<Longrightarrow> same_beyond u v \<Longrightarrow> same_beyond u (write_entry e x 24 (set_POS_INDX i y v))"
  by (rule same_beyond_trans [of u "set_POS_INDX i y v"]) (simp_all add: write_entry_preserves)

lemma new_line_ok: "video_ok v \<Longrightarrow> video_ok (new_line v) \<and> same_beyond v (new_line v) \<and> POS_INDX (new_line v) 24 = 0"
proof -
  assume v: "video_ok v"
  let ?v = "v\<lparr>pos_head := (pos_head v + 25 - 1) mod 25\<rparr>"
  have v': "video_ok ?v" using v by (simp add: video_ok_def)
  have "POS_INDX (new_line v) 24 = POS_INDX (set_POS_INDX 24 0 ?v) 24" "pos (new_line v) = pos (set_POS_INDX 24 0 ?v)"
    by (simp_all add: new_line_def Let_def POS_INDX_def POS_CALC_INDX_def)
  moreover have "same_beyond v (new_line v)"
    using div_le_mono [of 2000 _ 80] by (fastforce simp: same_beyond_def new_line_videomem)
  ultimately show ?thesis
    using video_ok_set_POS [OF v', of 0 24] v' POS_INDX_set_POS [of ?v 24 0] by (simp add: video_ok_def)
qed

lemma del_line_ok: "video_ok v \<Longrightarrow> video_ok (del_line v) \<and> same_beyond v (del_line v)"
  by (auto simp: video_ok_def same_beyond_def del_line_videomem)

lemma screen_of_write:
  assumes "video_ok v" "head_room v 0" "x < 80"
  shows "screen_of (write_entry e x 24 (set_POS_INDX 24 y v)) = spec_write e x y (screen_of v)"
  using assms by (simp add: video_ok_def screen_of_write_entry screen_of_set_POS spec_write_def)

lemma putc_plain_ok:
  assumes "video_ok v"
  shows "video_ok (putc_plain c v)" "same_beyond v (putc_plain c v)" "color (putc_plain c v) = color v"
    "head_room v n \<Longrightarrow> head_room (putc_plain c v) n"
    "head_room v 0 \<Longrightarrow> screen_of (putc_plain c v) = spec_plain (color v) c (screen_of v)"
proof -
  define v1 where "v1 = (if POS_INDX v 24 = 80 then new_line v else v)"
  have v1: "video_ok v1" "same_beyond v v1" "color v1 = color v"
    using assms new_line_ok [OF assms] by (auto simp: v1_def same_beyond_def)
  have room: "head_room v n \<Longrightarrow> head_room v1 n" for n by (simp add: v1_def new_line_head_room)
  have x: "POS_INDX v1 24 < 80"
    using assms new_line_ok [OF assms] POS_INDX_le [OF assms, of 24] by (auto simp: v1_def order_less_le)
  then have x1: "POS_INDX v1 24 + 1 \<le> 80" by (rule inc_le)
  have eq: "putc_plain c v = write_entry (vga_entry (of_char c) (color v1)) (POS_INDX v1 24) 24
      (set_POS_INDX 24 (POS_INDX v1 24 + 1) v1)"
    by (simp add: putc_plain_def Let_def v1_def)
  show "video_ok (putc_plain c v)" unfolding eq write_entry_preserves by (rule video_ok_set_POS [OF v1(1) x1])
  show "same_beyond v (putc_plain c v)"
    unfolding eq using x v1(2) by (rule write_same_beyond)
  show "color (putc_plain c v) = color v" by (simp add: eq write_entry_preserves v1)
  show "head_room v n \<Longrightarrow> head_room (putc_plain c v) n" by (simp add: eq write_entry_preserves room)
  assume r: "head_room v 0"
  have "screen_of v1 = (if hd (cols (screen_of v)) = 80 then spec_new_line (screen_of v) else screen_of v)"
    using assms r POS_INDX_hd [of v] by (simp add: v1_def video_ok_def screen_of_new_line)
  moreover have "POS_INDX v1 24 = hd (cols (screen_of v1))"
    using v1(1) room [OF r] by (simp add: video_ok_def POS_INDX_hd)
  ultimately show "screen_of (putc_plain c v) = spec_plain (color v) c (screen_of v)"
    unfolding eq using screen_of_write [OF v1(1) room [OF r] x]
    by (simp add: spec_plain_def Let_def v1)
qed

lemma putc_backspace_ok:
  assumes "video_ok v"
  shows "video_ok (putc_backspace v)" "same_beyond v (putc_backspace v)" "color (putc_backspace v) = color v"
    "head_room v (Suc n) \<Longrightarrow> head_room (putc_backspace v) n"
    "head_room v 1 \<Longrightarrow> screen_of (putc_backspace v) = spec_backspace (screen_of v)"
proof -
  let ?p = "POS_INDX v 24"
  have le: "?p \<le> 80" by (rule POS_INDX_le [OF assms])
  have x: "?p - 1 < 80" if "0 < ?p"
    using that le unat_minus_one [of ?p] word_gt_0 [of ?p] by (auto simp: word_less_nat_alt word_le_nat_alt)
  have eq: "putc_backspace v =
     (if 0 < ?p then write_entry (vga_entry 0 0) (?p - 1) 24 (set_POS_INDX 24 (?p - 1) v) else del_line v)"
    using le by (simp add: putc_backspace_def Let_def)
  show "video_ok (putc_backspace v)"
    using assms x by (auto simp: eq write_entry_preserves del_line_ok intro!: video_ok_set_POS less_imp_le)
  show "same_beyond v (putc_backspace v)"
    using assms x by (auto simp: eq del_line_ok intro!: write_same_beyond) (simp add: same_beyond_def)
  show "color (putc_backspace v) = color v" by (simp add: eq write_entry_preserves)
  show "head_room v (Suc n) \<Longrightarrow> head_room (putc_backspace v) n"
    by (simp add: eq write_entry_preserves del_line_head_room head_room_mono [of v "Suc n"])
  assume r: "head_room v 1"
  then have r0: "head_room v 0" by (rule head_room_mono) simp
  show "screen_of (putc_backspace v) = spec_backspace (screen_of v)"
    using assms r screen_of_write [OF assms r0 x] POS_INDX_hd [OF _ r0]
    by (auto simp: eq spec_backspace_def screen_of_del_line video_ok_def)
qed

lemma tab_ok:
  assumes "video_ok v"
  shows "video_ok ((putc_plain c ^^ k) v) \<and> same_beyond v ((putc_plain c ^^ k) v) \<and>
    color ((putc_plain c ^^ k) v) = color v \<and>
    (head_room v n \<longrightarrow> head_room ((putc_plain c ^^ k) v) n) \<and>
    (head_room v 0 \<longrightarrow> head_room ((putc_plain c ^^ k) v) 0 \<and>
      screen_of ((putc_plain c ^^ k) v) = (spec_plain (color v) c ^^ k) (screen_of v))"
  by (induction k) (auto simp: assms putc_plain_ok intro: same_beyond_trans, simp_all add: same_beyond_def)

lemma Video_putc_ok:
  assumes "video_ok v"
  shows "video_ok (Video_putc c v)" "same_beyond v (Video_putc c v)" "color (Video_putc c v) = color v"
    "head_room v (Suc n) \<Longrightarrow> head_room (Video_putc c v) n"
    "head_room v 1 \<Longrightarrow> screen_of (Video_putc c v) = spec_putc (color v) c (screen_of v)"
proof -
  have room: "head_room v (Suc n) \<Longrightarrow> head_room v n" "head_room v 1 \<Longrightarrow> head_room v 0" for n
    by (auto elim: head_room_mono)
  note ok = assms putc_plain_ok [OF assms] putc_backspace_ok [OF assms] new_line_ok tab_ok [OF assms]
    room new_line_head_room
  show "video_ok (Video_putc c v)" "same_beyond v (Video_putc c v)" "color (Video_putc c v) = color v"
    "head_room v (Suc n) \<Longrightarrow> head_room (Video_putc c v) n"
    by (simp_all add: Video_putc_def ok)
  assume r: "head_room v 1"
  have r0: "head_room v 0" and len: "length (pos v) = 25" using room(2) [OF r] assms by (simp_all add: video_ok_def)
  show "screen_of (Video_putc c v) = spec_putc (color v) c (screen_of v)"
    using r r0 by (simp add: Video_putc_def spec_putc_def ok screen_of_new_line len)
qed

lemma Video_writestr_fold: "Video_writestr t v = fold Video_putc t v"
proof -
  have "fold (\<lambda>i. Video_putc (t ! i)) [0..<length t] v = fold Video_putc (map ((!) t) [0..<length t]) v"
    by (simp add: fold_map comp_def)
  then show ?thesis by (simp add: Video_writestr_def Video_write_def map_nth)
qed

lemma Video_writestr_ok:
  "video_ok v \<Longrightarrow> video_ok (fold Video_putc t v) \<and> same_beyond v (fold Video_putc t v) \<and>
     color (fold Video_putc t v) = color v \<and>
     (head_room v (length t) \<longrightarrow> screen_of (fold Video_putc t v) = fold (spec_putc (color v)) t (screen_of v))"
proof (induction t arbitrary: v)
  case (Cons c t)
  note step = Video_putc_ok [OF Cons.prems, where c = c]
  have room: "head_room v 1" if "head_room v (length (c # t))" by (rule head_room_mono [OF that]) simp
  show ?case
    using Cons.IH [OF step(1)] step room same_beyond_trans [OF step(2)] by auto
qed (simp add: same_beyond_def)

lemma Video_clear_ok: "video_ok (Video_clear v) \<and> same_beyond v (Video_clear v)"
  by (auto simp: video_ok_def Video_clear_def same_beyond_def clear_rows)

lemma set_color_ok: "video_ok (set_color fg bg v) = video_ok v"
  by (simp add: video_ok_def set_color_def)

interpretation console: printer "\<lambda>c v. Inr (Video_putc c v)" "\<lambda>t v. Inr (Video_writestr t v)"
proof unfold_locales
  show "Inr (Video_writestr t v) = putc_all (\<lambda>c v. Inr (Video_putc c v)) t v" for t v
    unfolding Video_writestr_fold by (induction t arbitrary: v) simp_all
qed

text \<open>
  C4: \<open>Video::writestr\<close> refines the abstract screen: with columns in range and head room for every
  character, writing a string has exactly the effect on rows and columns of printing its
  characters one by one on the abstract screen, which knows nothing of the ring or of the memory.
\<close>

theorem Video_writestr_refines:
  assumes "video_ok v" "head_room v (length t)"
  shows "screen_of (Video_writestr t v) = fold (spec_putc (color v)) t (screen_of v)"
  using Video_writestr_ok [OF assms(1), of t] assms(2) by (simp add: Video_writestr_fold)

theorem Video_writestr_refines_witness:
  "video_ok (Video_new (\<lambda>_. 0)) \<and> head_room (Video_new (\<lambda>_. 0)) (length ''yuv'') \<and>
   screen_of (Video_writestr ''yuv'' (Video_new (\<lambda>_. 0))) =
     fold (spec_putc (color (Video_new (\<lambda>_. 0)))) ''yuv'' (screen_of (Video_new (\<lambda>_. 0)))"
proof -
  have "video_ok (Video_new (\<lambda>_. 0))" by (simp add: Video_new_def Video_clear_ok)
  moreover have "head_room (Video_new (\<lambda>_. 0)) (length ''yuv'')"
    by (simp add: head_room_def Video_new_def Video_clear_def)
  ultimately show ?thesis using Video_writestr_refines by blast
qed

lemma Video_writestr_append: "Video_writestr t (Video_writestr u v) = Video_writestr (u @ t) v"
  by (simp add: Video_writestr_fold)

lemma Video_printf_text:
  "vformat fmt args = Inr t \<Longrightarrow> Video_printf fmt args v = Inr (Video_writestr t v)"
  using console.vprintf_collected [of fmt args v] console.writestr_putc [of t v] by (simp add: Video_printf_def)

lemma Video_printf_writes: "Video_printf fmt args v = Inr v' \<Longrightarrow> \<exists>t. v' = Video_writestr t v"
  using console.vprintf_collected [of fmt args v] Video_printf_text [of fmt args _ v]
  by (cases "vformat fmt args") (auto simp: Video_printf_def)

text \<open>
  C16: Memory safety of the console. Whatever string is written, and whatever is formatted with whatever arguments, a console
  with columns in range keeps them in range and its colour, and no cell beyond the 2000 of the screen changes; this
  needs no bound on the head of the ring.
\<close>

theorem Video_writestr_safe:
  "video_ok v \<Longrightarrow> video_ok (Video_writestr t v) \<and> color (Video_writestr t v) = color v \<and>
     (\<forall>i \<ge> 2000. videomem (Video_writestr t v) i = videomem v i) \<and>
     (\<forall>fmt args v'. Video_printf fmt args v = Inr v' \<longrightarrow>
        video_ok v' \<and> color v' = color v \<and> (\<forall>i \<ge> 2000. videomem v' i = videomem v i))"
  using Video_writestr_ok [of v] Video_printf_writes by (fastforce simp: Video_writestr_fold same_beyond_def)

theorem Video_writestr_safe_witness:
  "let v = Video_new (\<lambda>_. 7) in
     video_ok v \<and> video_ok (Video_writestr ''x'' v) \<and> color (Video_writestr ''x'' v) = color v \<and>
     videomem (Video_writestr ''x'' v) 2000 = videomem v 2000 \<and>
     (\<exists>v'. Video_printf ''%d'' [VA_64 42] v = Inr v' \<and> video_ok v' \<and> videomem v' 2000 = videomem v 2000)"
proof -
  let ?v = "Video_new (\<lambda>_. 7)"
  have ok: "video_ok ?v" by (simp add: Video_new_def Video_clear_ok)
  have "format_text ''%d'' [VA_64 42] = Some (dec_text 42)"
    by (simp add: format_text_def width_of_def after_width_def number_text_def)
  then obtain v' where "Video_printf ''%d'' [VA_64 42] ?v = Inr v'" using Video_printf_text [OF format_vformat] by blast
  then show ?thesis using ok Video_writestr_safe [OF ok, of "''x''"] unfolding Let_def by (metis order_refl)
qed

text \<open>
  C31: \<open>Video::printf\<close> shows the text the format means: literal characters as they stand, \<open>%d\<close> and \<open>%u\<close> as decimal
  numerals, \<open>%x\<close>, \<open>%p\<close> and \<open>%b\<close> as hexadecimal and binary ones padded to their width, \<open>%c\<close>, \<open>%s\<close> and \<open>%%\<close> as their
  character or string, the arguments taken in order. Where this meaning exists, the call returns, the abstract screen has
  changed as by printing the characters of that text, and the console is still in order, with no cell changed beyond the
  screen.
\<close>

theorem Video_printf_shows:
  assumes "format_text fmt args = Some t" "video_ok v" "head_room v (length t)"
  shows "\<exists>v'. Video_printf fmt args v = Inr v' \<and> screen_of v' = fold (spec_putc (color v)) t (screen_of v) \<and>
    video_ok v' \<and> same_beyond v v'"
  using Video_writestr_ok [OF assms(2), of t] assms(3)
  by (simp add: Video_printf_text [OF format_vformat [OF assms(1)]] Video_writestr_fold)

theorem Video_printf_shows_witness:
  "let v = Video_new (\<lambda>_. 0); fmt = ''%d%% at %x.:4 %s''; args = [VA_64 (- 7), VA_64 0x3f8, VA_str ''ok''];
       t = ''-7% at 0x03F8 ok'' in
     format_text fmt args = Some t \<and> video_ok v \<and> head_room v (length t) \<and>
     (\<exists>v'. Video_printf fmt args v = Inr v' \<and> screen_of v' = fold (spec_putc (color v)) t (screen_of v))"
proof -
  let ?t = "''-7% at 0x03F8 ok''" and ?v = "Video_new (\<lambda>_. 0)"
  have "format_text ''%d%% at %x.:4 %s'' [VA_64 (- 7), VA_64 0x3f8, VA_str ''ok''] = Some ?t"
    by (simp add: format_text_def width_of_def after_width_def number_text_def is_digit_def dec_text_def hex_text_def padded_def
        numeral_text.simps digit_chars_def)
  moreover have "video_ok ?v" "head_room ?v (length ?t)"
    by (simp_all add: Video_new_def video_ok_def head_room_def Video_clear_def)
  ultimately show ?thesis using Video_printf_shows unfolding Let_def by blast
qed

text \<open>
  Backspace undoes a printed character: after a character that is neither a newline, a tab nor
  a backspace, printed left of the right margin, a backspace restores every row and column; only
  the cell of that character stays erased.
\<close>

theorem Video_backspace_undoes_putc:
  assumes "video_ok v" "head_room v 2" "POS_INDX v 24 < 80" "c \<notin> {CHR 0x0A, CHR 0x08, CHR 0x09}"
  shows "screen_of (Video_putc (CHR 0x08) (Video_putc c v)) =
    spec_write (vga_entry 0 0) (POS_INDX v 24) (POS_INDX v 24) (screen_of v)"
proof -
  let ?x = "POS_INDX v 24" and ?s = "screen_of v"
  have r: "head_room v 1" by (rule head_room_mono [OF assms(2)]) simp
  have r0: "head_room v 0" by (rule head_room_mono [OF assms(2)]) simp
  have r1: "head_room (Video_putc c v) 1" using Video_putc_ok(4) [OF assms(1), of 1 c] assms(2) by (simp add: numeral_2_eq_2)
  have x: "?x = hd (cols ?s)" using assms(1) r0 by (simp add: video_ok_def POS_INDX_hd)
  have x1: "0 < ?x + 1" using col_Suc [OF less_imp_le [OF assms(3)]] by (simp add: word_less_nat_alt)
  have "screen_of (Video_putc c v) = spec_write (vga_entry (of_char c) (color v)) ?x (?x + 1) ?s"
    using Video_putc_ok(5) [OF assms(1) r, of c] assms(3,4) by (simp add: spec_putc_def spec_plain_def Let_def x)
  then show ?thesis
    using Video_putc_ok(5) [OF Video_putc_ok(1) [OF assms(1)] r1, of "CHR 0x08"] x1
    by (simp add: spec_putc_def spec_backspace_def spec_write_def butlast_append)
qed

theorem Video_backspace_undoes_putc_witness:
  "let v = Video_new (\<lambda>_. 0) in
     video_ok v \<and> head_room v 2 \<and> POS_INDX v 24 < 80 \<and> CHR ''y'' \<notin> {CHR 0x0A, CHR 0x08, CHR 0x09} \<and>
     screen_of (Video_putc (CHR 0x08) (Video_putc (CHR ''y'') v)) =
       spec_write (vga_entry 0 0) (POS_INDX v 24) (POS_INDX v 24) (screen_of v)"
proof -
  let ?v = "Video_new (\<lambda>_. 0)"
  have "video_ok ?v" "head_room ?v 2" "POS_INDX ?v 24 < 80" "CHR ''y'' \<notin> {CHR 0x0A, CHR 0x08, CHR 0x09}"
    by (simp_all add: Video_new_def video_ok_def head_room_def Video_clear_def POS_INDX_def POS_CALC_INDX_def)
  with Video_backspace_undoes_putc [OF this] show ?thesis unfolding Let_def by blast
qed

text \<open>
  Backspace at the start of a fresh line takes the newline back: all rows but the one that was
  scrolled off return to their place, and so do the columns, except the oldest one, which becomes 0.
\<close>

theorem Video_backspace_undoes_newline:
  assumes "video_ok v" "head_room v 2"
  shows "screen_of (Video_putc (CHR 0x08) (Video_putc (CHR 0x0A) v)) =
    \<lparr>rows = replicate 80 blank # tl (rows (screen_of v)), cols = butlast (cols (screen_of v)) @ [0]\<rparr>"
proof -
  have r: "head_room v 1" by (rule head_room_mono [OF assms(2)]) simp
  have r1: "head_room (Video_putc (CHR 0x0A) v) 1"
    using Video_putc_ok(4) [OF assms(1), of 1 "CHR 0x0A"] assms(2) by (simp add: numeral_2_eq_2)
  show ?thesis
    using Video_putc_ok(5) [OF Video_putc_ok(1) [OF assms(1)] r1, of "CHR 0x08"] Video_putc_ok(5) [OF assms(1) r, of "CHR 0x0A"]
    by (simp add: spec_putc_def spec_backspace_def spec_new_line_def spec_del_line_def)
qed

theorem Video_backspace_undoes_newline_witness:
  "let v = Video_new (\<lambda>_. 0) in
     video_ok v \<and> head_room v 2 \<and>
     screen_of (Video_putc (CHR 0x08) (Video_putc (CHR 0x0A) v)) =
       \<lparr>rows = replicate 80 blank # tl (rows (screen_of v)), cols = butlast (cols (screen_of v)) @ [0]\<rparr>"
proof -
  let ?v = "Video_new (\<lambda>_. 0)"
  have "video_ok ?v" "head_room ?v 2" by (simp_all add: Video_new_def video_ok_def head_room_def Video_clear_def)
  with Video_backspace_undoes_newline [OF this] show ?thesis unfolding Let_def by blast
qed

text \<open>
  \<open>set_cursor\<close> stays on the screen exactly when the column is at most 78: from column 79 on
  it writes the cell behind the last one of the screen, or the one after it.
\<close>

theorem set_cursor_on_screen_iff:
  assumes "video_ok v"
  shows "(\<forall>vm. same_beyond (v\<lparr>videomem := vm\<rparr>) (set_cursor on (v\<lparr>videomem := vm\<rparr>))) \<longleftrightarrow> POS_INDX v 24 < 79"
proof -
  let ?x = "POS_INDX v 24"
  have x: "unat (?x + 1) = unat ?x + 1"
    by (rule col_Suc [OF POS_INDX_le [OF assms]])
  have pos: "POS_INDX (v\<lparr>videomem := vm\<rparr>) 24 = ?x" for vm by (simp add: POS_INDX_def POS_CALC_INDX_def)
  obtain e where e: "set_cursor on w = write_entry e (POS_INDX w 24 + 1) 24 w" for w
    by (simp add: set_cursor_def)
  have eq: "videomem (set_cursor on (v\<lparr>videomem := vm\<rparr>)) = vm(1921 + unat ?x := e)" for vm
    by (simp add: e write_entry_def pos x)
  show ?thesis
  proof
    assume "?x < 79"
    then show "\<forall>vm. same_beyond (v\<lparr>videomem := vm\<rparr>) (set_cursor on (v\<lparr>videomem := vm\<rparr>))"
      by (auto simp: same_beyond_def eq word_less_nat_alt)
  next
    assume "\<forall>vm. same_beyond (v\<lparr>videomem := vm\<rparr>) (set_cursor on (v\<lparr>videomem := vm\<rparr>))"
    then have "same_beyond (v\<lparr>videomem := \<lambda>_. e + 1\<rparr>) (set_cursor on (v\<lparr>videomem := \<lambda>_. e + 1\<rparr>))" ..
    then show "?x < 79" by (auto simp: same_beyond_def eq word_less_nat_alt split: if_splits)
  qed
qed

theorem set_cursor_on_screen_iff_witness:
  "let v = (Video_new (\<lambda>_. 0))\<lparr>pos := replicate 25 79\<rparr> in
     video_ok v \<and> \<not> (\<forall>vm. same_beyond (v\<lparr>videomem := vm\<rparr>) (set_cursor True (v\<lparr>videomem := vm\<rparr>)))"
proof -
  let ?v = "(Video_new (\<lambda>_. 0))\<lparr>pos := replicate 25 79\<rparr>"
  have "video_ok ?v" "\<not> POS_INDX ?v 24 < 79"
    by (simp_all add: video_ok_def Video_new_def Video_clear_def POS_INDX_def POS_CALC_INDX_def)
  with set_cursor_on_screen_iff [of ?v True] show ?thesis unfolding Let_def by blast
qed

end
