(* ===== verification/PortIO.thy ===== *)
theory PortIO
  imports Prelude
begin

text \<open>
  Port input and output (utils/asm.h). The hardware behind the I/O ports is not part of the program:
  it is a parameter \<open>io\<close> of every operation that touches a port, a pair of transition functions on
  a device state of any type. What the code relies on is stated where it is used, as a predicate
  on \<open>io\<close> that describes the documented behaviour of the chip.
\<close>

record 'd io_bus =
  dev_in :: "u16 \<Rightarrow> 'd \<Rightarrow> u8 \<times> 'd"
  dev_out :: "u16 \<Rightarrow> u8 \<Rightarrow> 'd \<Rightarrow> 'd"

definition outb :: "'d io_bus \<Rightarrow> u16 \<Rightarrow> u8 \<Rightarrow> 'd \<Rightarrow> 'd" where
  "outb io portnum val d = dev_out io portnum val d"

definition inb :: "'d io_bus \<Rightarrow> u16 \<Rightarrow> 'd \<Rightarrow> u8 \<times> 'd" where
  "inb io portnum d = dev_in io portnum d"

text \<open>A straight-line sequence of \<open>outb\<close> calls, first pair first.\<close>

primrec outbs :: "'d io_bus \<Rightarrow> (u16 \<times> u8) list \<Rightarrow> 'd \<Rightarrow> 'd" where
  "outbs io [] d = d"
| "outbs io (pv # pvs) d = outbs io pvs (outb io (fst pv) (snd pv) d)"

lemma outbs_append: "outbs io (xs @ ys) d = outbs io ys (outbs io xs d)"
  by (induction xs arbitrary: d) simp_all

end
