(* ===== verification/Serial.thy ===== *)
theory Serial
  imports PortIO Vprintf
begin

text \<open>
  The serial port driver \<open>SerialPort\<close> (utils/serial.h, utils/serial.cpp). The wait for the transmitter
  in \<open>putc\<close> is a loop over status reads of the device, which may never end; \<open>uart_at\<close> states the
  documented behaviour of a 16550 UART on which the delivery of the output rests.
\<close>

section \<open>Operations\<close>

record SerialPort =
  portnum :: u16
  is_valid :: bool

definition SerialPort_irq :: "SerialPort \<Rightarrow> u16" where "SerialPort_irq p = portnum p + 1"
definition data_reg_lo :: "SerialPort \<Rightarrow> u16" where "data_reg_lo p = portnum p"
definition data_reg_hi :: "SerialPort \<Rightarrow> u16" where "data_reg_hi p = portnum p + 1"
definition line_control_reg :: "SerialPort \<Rightarrow> u16" where "line_control_reg p = portnum p + 3"
definition fifo_reg :: "SerialPort \<Rightarrow> u16" where "fifo_reg p = portnum p + 2"
definition modem_reg :: "SerialPort \<Rightarrow> u16" where "modem_reg p = portnum p + 4"
definition line_status_reg :: "SerialPort \<Rightarrow> u16" where "line_status_reg p = portnum p + 5"

lemmas serial_regs = SerialPort_irq_def data_reg_lo_def data_reg_hi_def line_control_reg_def fifo_reg_def
  modem_reg_def line_status_reg_def

definition SerialPort_new :: "'d io_bus \<Rightarrow> u16 \<Rightarrow> 'd \<Rightarrow> SerialPort \<times> 'd" where
  "SerialPort_new io port d =
     (let p = \<lparr>portnum = port, is_valid = False\<rparr>;
          d1 = outbs io [(SerialPort_irq p, 0x0), (line_control_reg p, 0x80), (data_reg_lo p, 0x03),
                 (data_reg_hi p, 0), (line_control_reg p, 0x03), (fifo_reg p, 0xc7),
                 (modem_reg p, 0x0b), (modem_reg p, 0x1e), (data_reg_lo p, 0xae)] d;
          (b, d2) = inb io (data_reg_lo p) d1
      in (p\<lparr>is_valid := (b = 0xae)\<rparr>, outb io (modem_reg p) 0x0f d2))"

text \<open>\<open>do dat = inb(line_status_reg()) & 0x20; while (dat == 0);\<close>\<close>

partial_function (option) wait_thr :: "'d io_bus \<Rightarrow> u16 \<Rightarrow> 'd \<Rightarrow> 'd option" where
  "wait_thr io port d =
     (if fst (inb io port d) AND 0x20 = 0 then wait_thr io port (snd (inb io port d))
      else Some (snd (inb io port d)))"

definition SerialPort_putc :: "'d io_bus \<Rightarrow> SerialPort \<Rightarrow> char \<Rightarrow> 'd \<Rightarrow> 'd result" where
  "SerialPort_putc io p c d =
     rbind (of_loop (wait_thr io (line_status_reg p) d)) (\<lambda>d'. Inr (outb io (portnum p) (of_char c) d'))"

primrec SerialPort_writestr :: "'d io_bus \<Rightarrow> SerialPort \<Rightarrow> string \<Rightarrow> 'd \<Rightarrow> 'd result" where
  "SerialPort_writestr io p [] d = Inr d"
| "SerialPort_writestr io p (c # cs) d = rbind (SerialPort_putc io p c d) (SerialPort_writestr io p cs)"

definition SerialPort_printf :: "'d io_bus \<Rightarrow> SerialPort \<Rightarrow> string \<Rightarrow> va_arg list \<Rightarrow> 'd \<Rightarrow> 'd result" where
  "SerialPort_printf io p fmt args d = vprintf (SerialPort_putc io p) (SerialPort_writestr io p) fmt args d"

declare wait_thr.simps [code]

interpretation serial: printer "SerialPort_putc io p" "SerialPort_writestr io p" for io p
proof unfold_locales
  show "SerialPort_writestr io p t s = putc_all (SerialPort_putc io p) t s" for t s
  proof (induction t arbitrary: s)
    case (Cons c t)
    then show ?case by (simp add: rbind_def split: sum.split)
  qed simp
qed

section \<open>The wait loop\<close>

text \<open>The device after \<open>n\<close> status reads, and whether the read number \<open>n\<close> (from 0) reports ready.\<close>

definition after_reads :: "'d io_bus \<Rightarrow> u16 \<Rightarrow> nat \<Rightarrow> 'd \<Rightarrow> 'd" where
  "after_reads io port n d = ((\<lambda>d. snd (inb io port d)) ^^ n) d"

definition ready_at :: "'d io_bus \<Rightarrow> u16 \<Rightarrow> 'd \<Rightarrow> nat \<Rightarrow> bool" where
  "ready_at io port d n \<longleftrightarrow> fst (inb io port (after_reads io port n d)) AND 0x20 \<noteq> 0"

lemma after_reads_Suc: "after_reads io port (Suc n) d = after_reads io port n (snd (inb io port d))"
  by (simp add: after_reads_def funpow_Suc_right del: funpow.simps)

lemma wait_thr_finds:
  assumes "ready_at io port d n" "\<And>k. k < n \<Longrightarrow> \<not> ready_at io port d k"
  shows "wait_thr io port d = Some (after_reads io port (Suc n) d)"
  using assms
proof (induction n arbitrary: d)
  case 0
  then show ?case by (subst wait_thr.simps) (simp add: ready_at_def after_reads_def)
next
  case (Suc n)
  have "\<not> ready_at io port d 0" by (rule Suc.prems) simp
  moreover have "wait_thr io port (snd (inb io port d)) = Some (after_reads io port (Suc n) (snd (inb io port d)))"
  proof (rule Suc.IH)
    show "ready_at io port (snd (inb io port d)) n" using Suc.prems(1) by (simp add: ready_at_def after_reads_Suc)
    show "\<not> ready_at io port (snd (inb io port d)) k" if "k < n" for k
      using Suc.prems(2) [of "Suc k"] that by (simp add: ready_at_def after_reads_Suc)
  qed
  ultimately show ?case
    by (subst wait_thr.simps) (simp add: ready_at_def after_reads_Suc [symmetric], simp add: after_reads_def)
qed

lemma wait_thr_ends: "wait_thr io port d = Some d' \<Longrightarrow> \<exists>n. ready_at io port d n"
proof (induction rule: wait_thr.raw_induct [rotated, consumes 1, case_names 1])
  case (1 wait io port d d')
  show ?case
  proof (cases "ready_at io port d 0")
    case False
    then have "wait io port (snd (inb io port d)) = Some d'"
      using 1(2) by (simp add: ready_at_def after_reads_def)
    from 1(1) [OF this] obtain n where "ready_at io port (snd (inb io port d)) n" by blast
    then have "ready_at io port d (Suc n)" by (simp add: ready_at_def after_reads_Suc)
    then show ?thesis ..
  qed blast
qed

lemma wait_thr_eq:
  "wait_thr io port d =
     (if \<exists>n. ready_at io port d n then Some (after_reads io port (Suc (LEAST n. ready_at io port d n)) d) else None)"
proof (cases "\<exists>n. ready_at io port d n")
  case True
  then have "wait_thr io port d = Some (after_reads io port (Suc (LEAST n. ready_at io port d n)) d)"
    by (intro wait_thr_finds) (auto intro: LeastI dest: not_less_Least)
  then show ?thesis using True by simp
next
  case False
  then show ?thesis using wait_thr_ends [of io port d] by (cases "wait_thr io port d") auto
qed

text \<open>
  C30: \<open>SerialPort::putc\<close> returns exactly when some status read reports an empty transmitter; it then
  has read the status up to and including the first such read and written the character once. On a
  device that never reports it, the loop does not end.
\<close>

theorem SerialPort_putc_returns_iff:
  "SerialPort_putc io p c d =
     (if \<exists>n. ready_at io (line_status_reg p) d n
      then Inr (outb io (portnum p) (of_char c)
        (after_reads io (line_status_reg p) (Suc (LEAST n. ready_at io (line_status_reg p) d n)) d))
      else Inl Diverges)"
  by (simp add: SerialPort_putc_def wait_thr_eq)

section \<open>The 16550 UART\<close>

text \<open>
  The registers of the chip the driver uses, the receive queue and the bytes sent on the line. A
  write to the data register goes to the divisor latch when bit 7 of the line control register is
  set, comes back on the receive queue in loopback mode (bit 4 of the modem control register), and is
  sent otherwise.
\<close>

record uart =
  ier :: u8
  lcr :: u8
  mcr :: u8
  dll :: u8
  dlm :: u8
  rx :: "u8 list"
  sent :: "u8 list"

definition dlab :: "uart \<Rightarrow> bool" where "dlab u \<longleftrightarrow> bit (lcr u) 7"
definition loopback :: "uart \<Rightarrow> bool" where "loopback u \<longleftrightarrow> bit (mcr u) 4"

definition uart_write :: "u16 \<Rightarrow> u8 \<Rightarrow> uart \<Rightarrow> uart" where
  "uart_write off v u =
     (if off = 0 then
        (if dlab u then u\<lparr>dll := v\<rparr> else if loopback u then u\<lparr>rx := rx u @ [v]\<rparr> else u\<lparr>sent := sent u @ [v]\<rparr>)
      else if off = 1 then (if dlab u then u\<lparr>dlm := v\<rparr> else u\<lparr>ier := v\<rparr>)
      else if off = 2 then (if bit v 1 then u\<lparr>rx := []\<rparr> else u)
      else if off = 3 then u\<lparr>lcr := v\<rparr>
      else if off = 4 then u\<lparr>mcr := v\<rparr>
      else u)"

text \<open>
  The bus has such a chip at \<open>base\<close>, seen through \<open>view\<close>: writes act on the registers, a read of the
  data register takes the oldest received byte, a read of the line status changes none of these and
  sooner or later reports an empty transmitter. No byte arrives from the line meanwhile.
\<close>

definition uart_at :: "'d io_bus \<Rightarrow> u16 \<Rightarrow> ('d \<Rightarrow> uart) \<Rightarrow> bool" where
  "uart_at io base view \<longleftrightarrow>
     (\<forall>d off v. off < 8 \<longrightarrow> view (dev_out io (base + off) v d) = uart_write off v (view d)) \<and>
     (\<forall>d b bs. \<not> dlab (view d) \<and> rx (view d) = b # bs \<longrightarrow>
        fst (dev_in io base d) = b \<and> view (snd (dev_in io base d)) = (view d)\<lparr>rx := bs\<rparr>) \<and>
     (\<forall>d. view (snd (dev_in io (base + 5) d)) = view d) \<and>
     (\<forall>d. \<exists>n. ready_at io (base + 5) d n)"

lemma uart_atD:
  assumes "uart_at io base view"
  shows "off < 8 \<Longrightarrow> view (outb io (base + off) v d) = uart_write off v (view d)"
    and "view (outb io base v d) = uart_write 0 v (view d)"
    and "\<not> dlab (view d) \<Longrightarrow> rx (view d) = b # bs \<Longrightarrow>
      fst (inb io base d) = b \<and> view (snd (inb io base d)) = (view d)\<lparr>rx := bs\<rparr>"
    and "view (snd (inb io (base + 5) d)) = view d"
    and "\<exists>n. ready_at io (base + 5) d n"
proof -
  have w: "off < 8 \<Longrightarrow> view (outb io (base + off) v d) = uart_write off v (view d)" for off
    using assms by (simp add: uart_at_def outb_def)
  show "off < 8 \<Longrightarrow> view (outb io (base + off) v d) = uart_write off v (view d)" by (rule w)
  show "view (outb io base v d) = uart_write 0 v (view d)" using w [of 0] by simp
qed (use assms in \<open>simp_all add: uart_at_def inb_def\<close>)

lemma uart_after_reads: "uart_at io base view \<Longrightarrow> view (after_reads io (base + 5) n d) = view d"
  by (induction n arbitrary: d) (simp_all add: after_reads_Suc uart_atD, simp add: after_reads_def)

lemma uart_putc:
  assumes "uart_at io (portnum p) view" "\<not> dlab (view d)" "\<not> loopback (view d)"
  shows "\<exists>d'. SerialPort_putc io p c d = Inr d' \<and> view d' = (view d)\<lparr>sent := sent (view d) @ [of_char c]\<rparr>"
proof -
  note u = uart_atD [OF assms(1)]
  show ?thesis
    using assms u(5) [of d] by (simp add: SerialPort_putc_def wait_thr_eq line_status_reg_def u
        uart_after_reads [OF assms(1)] uart_write_def)
qed

lemma uart_putc_all:
  assumes "uart_at io (portnum p) view" "\<not> dlab (view d)" "\<not> loopback (view d)"
  shows "\<exists>d'. putc_all (SerialPort_putc io p) t d = Inr d' \<and>
    view d' = (view d)\<lparr>sent := sent (view d) @ map of_char t\<rparr>"
  using assms
proof (induction t arbitrary: d)
  case (Cons c t)
  from uart_putc [OF Cons.prems] obtain d1 where
    d1: "SerialPort_putc io p c d = Inr d1" "view d1 = (view d)\<lparr>sent := sent (view d) @ [of_char c]\<rparr>" by blast
  have "\<exists>d'. putc_all (SerialPort_putc io p) t d1 = Inr d' \<and> view d' = (view d1)\<lparr>sent := sent (view d1) @ map of_char t\<rparr>"
    by (rule Cons.IH) (use Cons.prems d1(2) in \<open>simp_all add: dlab_def loopback_def\<close>)
  then show ?case by (auto simp: d1)
qed simp

text \<open>A concrete bus with one UART, always ready to send.\<close>

definition uart_bus :: "u16 \<Rightarrow> uart io_bus" where
  "uart_bus base =
     \<lparr>dev_in = (\<lambda>port u.
        if port = base \<and> \<not> dlab u then (case rx u of [] \<Rightarrow> (0, u) | b # bs \<Rightarrow> (b, u\<lparr>rx := bs\<rparr>))
        else if port = base + 5 then (0x60, u) else (0, u)),
      dev_out = (\<lambda>port v u. if port - base < 8 then uart_write (port - base) v u else u)\<rparr>"

definition uart0 :: uart where
  "uart0 = \<lparr>ier = 0, lcr = 3, mcr = 0xb, dll = 3, dlm = 0, rx = [], sent = []\<rparr>"

lemma uart_bus_at: "uart_at (uart_bus base) base (\<lambda>u. u)"
  unfolding uart_at_def
proof (intro conjI allI)
  show "\<exists>n. ready_at (uart_bus base) (base + 5) d n" for d
    by (rule exI [of _ 0]) (simp add: ready_at_def after_reads_def uart_bus_def inb_def)
qed (simp_all add: uart_bus_def)

lemma uart_printf:
  assumes "uart_at io (portnum p) view" "\<not> dlab (view d)" "\<not> loopback (view d)" "vformat fmt args = Inr t"
  shows "\<exists>d'. SerialPort_printf io p fmt args d = Inr d' \<and>
    view d' = (view d)\<lparr>sent := sent (view d) @ map of_char t\<rparr>"
  using uart_putc_all [OF assms(1-3), of t] serial.vprintf_collected [where fmt = fmt and args = args and s = d and p = p and io = io]
  by (simp add: SerialPort_printf_def assms(4))

text \<open>
  C13: Delivery. On a bus with a UART out of divisor and loopback mode at the port's base,
  \<open>SerialPort::printf\<close> returns, and the bytes it sent on the line are exactly those of the string the
  format denotes, in order; no other register changes.
\<close>

theorem SerialPort_printf_sends:
  assumes "uart_at io (portnum p) view" "\<not> dlab (view d)" "\<not> loopback (view d)" "vformat fmt args = Inr t"
  shows "\<exists>d'. SerialPort_printf io p fmt args d = Inr d' \<and>
    view d' = (view d)\<lparr>sent := sent (view d) @ map of_char t\<rparr>"
  by (rule uart_printf [OF assms])

theorem SerialPort_printf_sends_witness:
  "let p = \<lparr>portnum = 0x3f8, is_valid = True\<rparr> in
     uart_at (uart_bus 0x3f8) (portnum p) (\<lambda>u. u) \<and> \<not> dlab uart0 \<and> \<not> loopback uart0 \<and>
     vformat ''up'' [] = Inr ''up'' \<and>
     (\<exists>d'. SerialPort_printf (uart_bus 0x3f8) p ''up'' [] uart0 = Inr d' \<and> sent d' = [0x75, 0x70])"
proof -
  let ?p = "\<lparr>portnum = 0x3f8, is_valid = True\<rparr>"
  have "uart_at (uart_bus 0x3f8) (portnum ?p) (\<lambda>u. u)" "\<not> dlab uart0" "\<not> loopback uart0"
    "vformat ''up'' [] = Inr ''up''"
    by (simp_all add: uart_bus_at uart0_def dlab_def loopback_def vformat_plain)
  with SerialPort_printf_sends [OF this] show ?thesis by (auto simp: Let_def uart0_def)
qed

lemma uart_new:
  assumes "uart_at io port view" "\<not> dlab (view d)" "SerialPort_new io port d = (p, d')"
  shows "p = \<lparr>portnum = port, is_valid = True\<rparr> \<and>
    view d' = \<lparr>ier = 0, lcr = 3, mcr = 0x0f, dll = 3, dlm = 0, rx = [], sent = sent (view d)\<rparr>"
proof -
  note u = uart_atD [OF assms(1)]
  define d1 where "d1 = outbs io [(port + 1, 0x0), (port + 3, 0x80), (port, 0x03),
                 (port + 1, 0), (port + 3, 0x03), (port + 2, 0xc7),
                 (port + 4, 0x0b), (port + 4, 0x1e), (port, 0xae)] d"
  have d1: "view d1 = \<lparr>ier = 0, lcr = 3, mcr = 0x1e, dll = 3, dlm = 0, rx = [0xae], sent = sent (view d)\<rparr>"
    using assms(2) by (simp add: d1_def u uart_write_def dlab_def loopback_def)
  then have "fst (inb io port d1) = 0xae \<and> view (snd (inb io port d1)) = (view d1)\<lparr>rx := []\<rparr>"
    by (intro u(3)) (simp_all add: dlab_def)
  moreover have "p = \<lparr>portnum = port, is_valid = (fst (inb io port d1) = 0xae)\<rparr>"
    "d' = outb io (port + 4) 0x0f (snd (inb io port d1))"
    using assms(3) by (auto simp: SerialPort_new_def Let_def serial_regs d1_def case_prod_unfold)
  ultimately show ?thesis by (simp add: d1 u uart_write_def)
qed

text \<open>
  The constructor. On such a bus, and from any state with the divisor latch closed, it finds the
  byte it looped back, so the port is valid; it leaves the interrupts disabled, the divisor at
  3 (38400 baud), the line at 8 bits without parity and one stop bit, loopback off and the receive
  queue empty, and has sent nothing.
\<close>

theorem SerialPort_new_configures:
  assumes "uart_at io port view" "\<not> dlab (view d)" "SerialPort_new io port d = (p, d')"
  shows "p = \<lparr>portnum = port, is_valid = True\<rparr> \<and>
    view d' = \<lparr>ier = 0, lcr = 3, mcr = 0x0f, dll = 3, dlm = 0, rx = [], sent = sent (view d)\<rparr>"
  by (rule uart_new [OF assms])

theorem SerialPort_new_configures_witness:
  "uart_at (uart_bus 0x3f8) 0x3f8 (\<lambda>u. u) \<and> \<not> dlab uart0 \<and>
   SerialPort_new (uart_bus 0x3f8) 0x3f8 uart0 =
     (\<lparr>portnum = 0x3f8, is_valid = True\<rparr>,
      \<lparr>ier = 0, lcr = 3, mcr = 0x0f, dll = 3, dlm = 0, rx = [], sent = []\<rparr>)"
proof -
  obtain p d' where new: "SerialPort_new (uart_bus 0x3f8) 0x3f8 uart0 = (p, d')" by fastforce
  have "\<not> dlab uart0" by (simp add: uart0_def dlab_def)
  with SerialPort_new_configures [OF uart_bus_at this new] new show ?thesis
    by (simp add: uart_bus_at uart0_def)
qed

end
