(* ===== verification/Diagnostics.thy ===== *)
theory Diagnostics
  imports Video Serial
begin

text \<open>
  What the kernel prints about itself: \<open>kernel_panic\<close> (panic.cpp), the text of a failed \<open>YUV_ASSERT\<close>
  (panic.h), the \<open>INFO\<close> macro (utils/debug.h) and \<open>Video::debug_pos\<close> (utils/video.cpp), together with
  the lemmas that compute the text of a format piece by piece. \<open>kernel_panic\<close> does not return: its result is the state in which
  the kernel loops.
\<close>

section \<open>Operations\<close>

text \<open>
  How a function ends that may call \<open>kernel_panic\<close>: it returns, or the kernel loops for good in the state it has reached
  (\<open>loop: goto loop\<close>).
\<close>

datatype 'm outcome = Returned 'm | Halted string 'm

definition kernel_panic :: "string \<Rightarrow> video \<Rightarrow> video outcome result" where
  "kernel_panic s v = rbind (Video_printf ''kernel panic!! %s'' [VA_str s] v) (\<lambda>v'. Inr (Halted s v'))"

text \<open>
  The two calls of \<open>printf\<close> of a failed assertion; \<open>__LINE__\<close> is an \<open>int\<close>, with \<open>hi\<close> above it in its slot.
\<close>

definition assert_failed :: "string \<Rightarrow> va_arg list \<Rightarrow> u32 \<Rightarrow> u32 \<Rightarrow> string \<Rightarrow> video \<Rightarrow> video outcome result" where
  "assert_failed fmt args hi line fname v =
     rbind (Video_printf fmt args v) (\<lambda>v1.
       rbind (Video_printf (''LINE %d at %s'' @ [CHR 0x0A]) [VA_int hi line, VA_str fname] v1) (\<lambda>v2.
         kernel_panic [] v2))"

definition INFO :: "'d io_bus \<Rightarrow> SerialPort \<Rightarrow> string \<Rightarrow> string \<Rightarrow> u32 \<Rightarrow> u32 \<Rightarrow> string \<Rightarrow> 'd \<Rightarrow> 'd result" where
  "INFO io p a fname hi line func d =
     SerialPort_printf io p (''[INFO] %s at %s:%d:%s'' @ [CHR 0x0A]) [VA_str a, VA_str fname, VA_int hi line, VA_str func] d"

text \<open>
  \<open>pos_head\<close>, \<open>i\<close> and the index are 64-bit values; \<open>POS_INDX(i)\<close> is a \<open>uint32_t\<close>, with \<open>hi i\<close> above it.
\<close>

primrec debug_pos_loop ::
  "'d io_bus \<Rightarrow> SerialPort \<Rightarrow> (nat \<Rightarrow> u32) \<Rightarrow> video \<Rightarrow> nat list \<Rightarrow> 'd \<Rightarrow> 'd result" where
  "debug_pos_loop io p hi v [] d = Inr d"
| "debug_pos_loop io p hi v (i # is) d =
     rbind (SerialPort_printf io p (''pos[%d] = %d and actual index is %d'' @ [CHR 0x0A])
       [VA_64 (of_nat i), VA_int (hi i) (POS_INDX v i), VA_64 (of_nat (POS_CALC_INDX v i))] d)
       (debug_pos_loop io p hi v is)"

definition debug_pos :: "'d io_bus \<Rightarrow> SerialPort \<Rightarrow> (nat \<Rightarrow> u32) \<Rightarrow> video \<Rightarrow> 'd \<Rightarrow> 'd result" where
  "debug_pos io p hi v d =
     rbind (SerialPort_printf io p (''pos head is %d'' @ [CHR 0x0A]) [VA_64 (pos_head v)] d)
       (debug_pos_loop io p hi v [0..<25])"

section \<open>The text of a format\<close>

lemma vformat_append:
  "CHR ''%'' \<notin> set t \<Longrightarrow> vformat (t @ r) args = rbind (vformat r args) (\<lambda>u. Inr (t @ u))"
  by (induction t) (auto simp: vformat_simps rbind_assoc, simp add: rbind_def split: sum.split)

lemma vformat_str:
  "padding_spec r = (p, r') \<Longrightarrow>
     vformat (CHR ''%'' # CHR ''s'' # r) (VA_str t # as) = rbind (vformat r' as) (\<lambda>u. Inr (t @ u))"
  by (simp add: vformat_simps printf_switch_def Let_def collect_writestr_def)

lemma vformat_number:
  assumes "padding_spec r = (p, r')"
  shows "vformat (CHR ''%'' # CHR ''x'' # r) (VA_64 l # as) =
      rbind (rbind (itox l (sint p)) c_string) (\<lambda>t. rbind (vformat r' as) (\<lambda>u. Inr (t @ u)))"
    and "vformat (CHR ''%'' # CHR ''b'' # r) (VA_64 l # as) =
      rbind (rbind (itob l (sint p)) c_string) (\<lambda>t. rbind (vformat r' as) (\<lambda>u. Inr (t @ u)))"
    and "vformat (CHR ''%'' # CHR ''p'' # r) (VA_64 l # as) =
      rbind (rbind (itox l 16) c_string) (\<lambda>t. rbind (vformat r' as) (\<lambda>u. Inr (t @ u)))"
    and "vformat (CHR ''%'' # CHR ''d'' # r) (VA_64 l # as) =
      rbind (rbind (itos (sint l)) c_string) (\<lambda>t. rbind (vformat r' as) (\<lambda>u. Inr (t @ u)))"
  using assms by (simp_all add: vformat_simps printf_switch_def Let_def collect_writestr_def take_64_def rbind_assoc)

definition slot :: "u32 \<Rightarrow> u32 \<Rightarrow> u64" where
  "slot hi w = ucast w OR push_bit 32 (ucast hi)"

lemma slot_0: "unat (slot 0 w) = unat w" "sint (slot 0 w) = int (unat w)"
proof -
  have w: "unat w < 2 ^ 32" by (rule unat_u32_less)
  show u: "unat (slot 0 w) = unat w" using w by (simp add: slot_def unsigned_ucast_eq take_bit_nat_eq_self)
  have "uint (slot 0 w) = int (unat w)" unfolding u [symmetric] by (simp add: uint_nat del: of_nat_unat)
  moreover have "uint w < 2 ^ 32" "0 \<le> uint w" using uint_lt2p [of w] by simp_all
  then have "signed_take_bit 63 (uint w) = uint w"
    by (intro signed_take_bit_int_eq_self order_trans [OF _ uint_ge_0]) simp_all
  ultimately show "sint (slot 0 w) = int (unat w)" by (simp add: sint_uint)
qed

lemma slot_0_ok: "sint (slot 0 w) \<noteq> - (2 ^ 63)"
proof -
  have "0 \<le> sint (slot 0 w)" unfolding slot_0 by simp
  then show ?thesis by auto
qed

lemma vformat_int:
  "vformat (CHR ''%'' # CHR ''d'' # r) (VA_int hi w # as) = vformat (CHR ''%'' # CHR ''d'' # r) (VA_64 (slot hi w) # as)"
  "vformat (CHR ''%'' # CHR ''x'' # r) (VA_int hi w # as) = vformat (CHR ''%'' # CHR ''x'' # r) (VA_64 (slot hi w) # as)"
  by (simp_all add: vformat_simps printf_switch_def Let_def take_64_def slot_def)

lemma padding_spec_none: "take 2 r \<noteq> ''.:'' \<Longrightarrow> padding_spec r = (0, r)"
  by (simp add: padding_spec_def)

lemma kernel_panic_eq: "kernel_panic s v = Inr (Halted s (Video_writestr (''kernel panic!! '' @ s) v))"
proof -
  have "vformat ''kernel panic!! %s'' [VA_str s] = Inr (''kernel panic!! '' @ s)"
    using vformat_append [of "''kernel panic!! ''" "''%s''" "[VA_str s]"] vformat_str [of "[]" 0 "[]" s "[]"]
    by (simp add: padding_spec_def vformat_simps)
  then show ?thesis by (simp add: kernel_panic_def Video_printf_text)
qed

section \<open>Properties\<close>

lemma itos_dec: "sint l \<noteq> - (2 ^ 63) \<Longrightarrow> rbind (itos (sint l)) c_string = Inr (dec_text (sint (l :: u64)))"
  using conversion_texts(2) [of "sint l"] sint_lt [of l] sint_ge [of l] by simp

text \<open>
  A failed assertion shows its message, the line number (as its slot holds it) and the file, and then ends in
  \<open>kernel_panic\<close> with an empty message.
\<close>

theorem assert_failed_shows:
  assumes "format_text fmt args = Some t" "sint (slot hi line) \<noteq> - (2 ^ 63)"
  shows "assert_failed fmt args hi line fname v =
    Inr (Halted [] (Video_writestr (t @ ''LINE '' @ dec_text (sint (slot hi line)) @ '' at '' @ fname @ [CHR 0x0A] @ ''kernel panic!! '') v))"
proof -
  have "vformat (''LINE %d at %s'' @ [CHR 0x0A]) [VA_int hi line, VA_str fname] =
      Inr (''LINE '' @ dec_text (sint (slot hi line)) @ '' at '' @ fname @ [CHR 0x0A])"
    using itos_dec [OF assms(2)]
    by (simp add: vformat_simps(1,2) vformat_str [OF padding_spec_none] vformat_int vformat_number(4) [OF padding_spec_none])
  then show ?thesis
    by (simp add: assert_failed_def Video_printf_text format_vformat [OF assms(1)] kernel_panic_eq Video_writestr_append)
qed

definition info_text :: "string \<Rightarrow> string \<Rightarrow> int \<Rightarrow> string \<Rightarrow> string" where
  "info_text a fname line func = ''[INFO] '' @ a @ '' at '' @ fname @ '':'' @ dec_text line @ '':'' @ func @ [CHR 0x0A]"

lemma INFO_vformat:
  assumes "sint (slot hi line) \<noteq> - (2 ^ 63)"
  shows "vformat (''[INFO] %s at %s:%d:%s'' @ [CHR 0x0A]) [VA_str a, VA_str fname, VA_int hi line, VA_str func] =
    Inr (info_text a fname (sint (slot hi line)) func)"
  using itos_dec [OF assms]
  by (simp add: vformat_simps(1,2) vformat_str [OF padding_spec_none] vformat_int vformat_number(4) [OF padding_spec_none]
      info_text_def)

lemma INFO_sends:
  assumes "uart_at io (portnum p) view" "\<not> dlab (view d)" "\<not> loopback (view d)" "sint (slot hi line) \<noteq> - (2 ^ 63)"
  shows "\<exists>d'. INFO io p a fname hi line func d = Inr d' \<and>
    view d' = (view d)\<lparr>sent := sent (view d) @ map of_char (info_text a fname (sint (slot hi line)) func)\<rparr>"
  unfolding INFO_def by (rule uart_printf [OF assms(1-3) INFO_vformat [OF assms(4)]])

text \<open>
  The \<open>INFO\<close> macro passes the line number, an \<open>int\<close>, for a \<open>%d\<close> that reads 64 bits. On a working
  UART the line it sends carries the number that the whole slot holds; if the upper half of the
  slot happens to be zero, that is the line number.
\<close>

theorem INFO_line_number:
  assumes "uart_at io (portnum p) view" "\<not> dlab (view d)" "\<not> loopback (view d)" "sint (slot hi line) \<noteq> - (2 ^ 63)"
  shows "\<exists>d'. INFO io p a fname hi line func d = Inr d' \<and>
    sent (view d') = sent (view d) @ map of_char (info_text a fname (sint (slot hi line)) func) \<and>
    (hi = 0 \<longrightarrow> sint (slot hi line) = int (unat line))"
  using INFO_sends [OF assms, where a = a and fname = fname and func = func] slot_0(2) [of line] by auto

theorem INFO_line_number_witness:
  "let p = \<lparr>portnum = 0x3f8, is_valid = True\<rparr> in
     uart_at (uart_bus 0x3f8) (portnum p) (\<lambda>u. u) \<and> \<not> dlab uart0 \<and> \<not> loopback uart0 \<and> sint (slot 0 36) \<noteq> - (2 ^ 63) \<and>
     (\<exists>d'. INFO (uart_bus 0x3f8) p ''up'' ''k.cpp'' 0 36 ''main'' uart0 = Inr d' \<and>
       sent d' = map of_char (info_text ''up'' ''k.cpp'' 36 ''main''))"
proof -
  let ?p = "\<lparr>portnum = 0x3f8, is_valid = True\<rparr>"
  have "uart_at (uart_bus 0x3f8) (portnum ?p) (\<lambda>u. u)" "\<not> dlab uart0" "\<not> loopback uart0" "sint (slot 0 36) \<noteq> - (2 ^ 63)"
    by (simp_all add: uart_bus_at uart0_def dlab_def loopback_def slot_0)
  with INFO_line_number [OF this, where a = "''up''" and fname = "''k.cpp''" and func = "''main''"] show ?thesis
    by (simp add: Let_def slot_0) (simp add: uart0_def)
qed

text \<open>The text of \<open>debug_pos\<close>: the head, then a line for each of the 25 entries of the ring.\<close>

definition debug_line :: "video \<Rightarrow> (nat \<Rightarrow> u32) \<Rightarrow> nat \<Rightarrow> string" where
  "debug_line v hi i =
     ''pos['' @ dec_text (int i) @ ''] = '' @ dec_text (sint (slot (hi i) (POS_INDX v i))) @ '' and actual index is '' @
     dec_text (int (POS_CALC_INDX v i)) @ [CHR 0x0A]"

lemma sint_small: "n < 2 ^ 32 \<Longrightarrow> sint (of_nat n :: u64) = int n"
  by (simp add: signed_of_nat) (rule signed_take_bit_int_eq_self, simp_all)

lemma debug_line_vformat:
  assumes "i < 25" "sint (slot (hi i) (POS_INDX v i)) \<noteq> - (2 ^ 63)"
  shows "vformat (''pos[%d] = %d and actual index is %d'' @ [CHR 0x0A])
      [VA_64 (of_nat i), VA_int (hi i) (POS_INDX v i), VA_64 (of_nat (POS_CALC_INDX v i))] = Inr (debug_line v hi i)"
proof -
  have "POS_CALC_INDX v i < 2 ^ 32" by (rule less_trans [OF POS_CALC_less]) simp
  then have s: "sint (of_nat i :: u64) = int i" "sint (of_nat (POS_CALC_INDX v i) :: u64) = int (POS_CALC_INDX v i)"
    using assms(1) by (simp_all only: sint_small) (simp add: sint_small)
  show ?thesis
    using itos_dec [OF assms(2)] itos_dec [of "of_nat i"] itos_dec [of "of_nat (POS_CALC_INDX v i)"]
    by (simp add: s vformat_simps(1,2) vformat_number(4) [OF padding_spec_none] vformat_int debug_line_def)
qed

lemma debug_pos_loop_sends:
  assumes "uart_at io (portnum p) view" "\<not> dlab (view d)" "\<not> loopback (view d)"
    "\<And>i. i \<in> set is \<Longrightarrow> i < 25 \<and> sint (slot (hi i) (POS_INDX v i)) \<noteq> - (2 ^ 63)"
  shows "\<exists>d'. debug_pos_loop io p hi v is d = Inr d' \<and>
    view d' = (view d)\<lparr>sent := sent (view d) @ map of_char (concat (map (debug_line v hi) is))\<rparr>"
  using assms(2-4)
proof (induction "is" arbitrary: d)
  case (Cons i "is")
  obtain d1 where d1: "SerialPort_printf io p (''pos[%d] = %d and actual index is %d'' @ [CHR 0x0A])
       [VA_64 (of_nat i), VA_int (hi i) (POS_INDX v i), VA_64 (of_nat (POS_CALC_INDX v i))] d = Inr d1"
     "view d1 = (view d)\<lparr>sent := sent (view d) @ map of_char (debug_line v hi i)\<rparr>"
    using uart_printf [OF assms(1) Cons.prems(1,2) debug_line_vformat [of i hi v]] Cons.prems(3) [of i] by auto
  have "\<not> dlab (view d1)" "\<not> loopback (view d1)"
    using Cons.prems(1,2) by (simp_all add: d1(2) dlab_def loopback_def)
  from Cons.IH [OF this Cons.prems(3)] show ?case by (auto simp: d1 simp del: append.simps map_append) auto
qed simp

text \<open>
  \<open>debug_pos\<close> on a working UART sends the head of the ring and then one line for each of the 25
  positions, in order: the position, the column (as its slot holds it) and the index into the ring.
\<close>

theorem debug_pos_sends:
  assumes "uart_at io (portnum p) view" "\<not> dlab (view d)" "\<not> loopback (view d)"
    "sint (pos_head v) \<noteq> - (2 ^ 63)" "\<And>i. i < 25 \<Longrightarrow> sint (slot (hi i) (POS_INDX v i)) \<noteq> - (2 ^ 63)"
  shows "\<exists>d'. debug_pos io p hi v d = Inr d' \<and>
    sent (view d') = sent (view d) @ map of_char
      (''pos head is '' @ dec_text (sint (pos_head v)) @ [CHR 0x0A] @ concat (map (debug_line v hi) [0..<25]))"
proof -
  have "vformat (''pos head is %d'' @ [CHR 0x0A]) [VA_64 (pos_head v)] =
      Inr (''pos head is '' @ dec_text (sint (pos_head v)) @ [CHR 0x0A])"
    using itos_dec [OF assms(4)] by (simp add: vformat_simps(1,2) vformat_number(4) [OF padding_spec_none])
  from uart_printf [OF assms(1-3) this] obtain d1 where
    d1: "SerialPort_printf io p (''pos head is %d'' @ [CHR 0x0A]) [VA_64 (pos_head v)] d = Inr d1"
    "view d1 = (view d)\<lparr>sent := sent (view d) @ map of_char (''pos head is '' @ dec_text (sint (pos_head v)) @ [CHR 0x0A])\<rparr>"
    by blast
  have "\<not> dlab (view d1)" "\<not> loopback (view d1)"
    using assms(2,3) by (simp_all add: d1(2) dlab_def loopback_def)
  from debug_pos_loop_sends [OF assms(1) this, of "[0..<25]" hi v] show ?thesis
    using assms(5) by (auto simp: debug_pos_def d1 simp del: append.simps upt_conv_Cons)
qed

theorem debug_pos_sends_witness:
  "let p = \<lparr>portnum = 0x3f8, is_valid = True\<rparr>; v = Video_new (\<lambda>_. 0) in
     uart_at (uart_bus 0x3f8) (portnum p) (\<lambda>u. u) \<and> \<not> dlab uart0 \<and> \<not> loopback uart0 \<and>
     (\<exists>d'. debug_pos (uart_bus 0x3f8) p (\<lambda>_. 0) v uart0 = Inr d')"
proof -
  let ?p = "\<lparr>portnum = 0x3f8, is_valid = True\<rparr>" and ?v = "Video_new (\<lambda>_. 0)"
  have h: "uart_at (uart_bus 0x3f8) (portnum ?p) (\<lambda>u. u)" "\<not> dlab uart0" "\<not> loopback uart0"
    "sint (pos_head ?v) \<noteq> - (2 ^ 63)" "\<And>i. sint (slot 0 (POS_INDX ?v i)) \<noteq> - (2 ^ 63)"
    by (simp_all add: uart_bus_at uart0_def dlab_def loopback_def Video_new_def Video_clear_def slot_0_ok [simplified])
  from debug_pos_sends [OF h(1-4), of "\<lambda>_. 0"] h show ?thesis unfolding Let_def by blast
qed

end
