(* ===== verification/Pic.thy ===== *)
theory Pic
  imports PortIO
begin

text \<open>
  The driver of the two interrupt controllers (interrupts/pic.h, interrupts/pic.cpp). \<open>calc_me\<close>, the
  \<open>volatile int\<close> behind \<open>io_wait\<close>, is kept as an integer with the overflow check of C++;
  \<open>pics_at\<close> states the documented initialization automaton of the 8259A.
\<close>

section \<open>Operations\<close>

abbreviation PIC1_COMMAND :: u16 where "PIC1_COMMAND \<equiv> 0x20"
abbreviation PIC1_DATA :: u16 where "PIC1_DATA \<equiv> 0x21"
abbreviation PIC2_COMMAND :: u16 where "PIC2_COMMAND \<equiv> 0xA0"
abbreviation PIC2_DATA :: u16 where "PIC2_DATA \<equiv> 0xA1"
abbreviation ICW1_ICW4 :: u8 where "ICW1_ICW4 \<equiv> 0x01"
abbreviation ICW1_INIT :: u8 where "ICW1_INIT \<equiv> 0x10"
abbreviation ICW4_8086 :: u8 where "ICW4_8086 \<equiv> 0x01"

definition add_int :: "int \<Rightarrow> int \<Rightarrow> int result" where
  "add_int a b = (if - (2 ^ 31) \<le> a + b \<and> a + b < 2 ^ 31 then Inr (a + b) else Inl (Undefined ''signed overflow''))"

primrec io_wait_loop :: "nat list \<Rightarrow> int \<Rightarrow> int result" where
  "io_wait_loop [] acc = Inr acc"
| "io_wait_loop (i # is) acc = rbind (add_int acc (int i * (if i mod 2 = 0 then 1 else - 1))) (io_wait_loop is)"

definition io_wait :: "int \<Rightarrow> int result" where
  "io_wait calc_me = io_wait_loop [0..<1000] calc_me"

text \<open>\<open>outb(port, v); io_wait();\<close> on the pair of \<open>calc_me\<close> and the device state.\<close>

fun outb_wait :: "'d io_bus \<Rightarrow> (u16 \<times> u8) list \<Rightarrow> int \<times> 'd \<Rightarrow> (int \<times> 'd) result" where
  "outb_wait io [] s = Inr s"
| "outb_wait io ((port, v) # r) (calc_me, d) =
     rbind (io_wait calc_me) (\<lambda>calc_me'. outb_wait io r (calc_me', outb io port v d))"

definition remap :: "'d io_bus \<Rightarrow> u8 \<Rightarrow> u8 \<Rightarrow> int \<times> 'd \<Rightarrow> (int \<times> 'd) result" where
  "remap io offset1 offset2 s =
     (let (a1, d1) = inb io PIC1_DATA (snd s);
          (a2, d2) = inb io PIC2_DATA d1
      in rbind (outb_wait io
           [(PIC1_COMMAND, ICW1_INIT OR ICW1_ICW4), (PIC2_COMMAND, ICW1_INIT OR ICW1_ICW4),
            (PIC1_DATA, offset1), (PIC2_DATA, offset2), (PIC1_DATA, 4), (PIC2_DATA, 2),
            (PIC1_DATA, ICW4_8086), (PIC2_DATA, ICW4_8086)] (fst s, d2)) (\<lambda>(calc_me, d3).
           Inr (calc_me, outb io PIC2_DATA a2 (outb io PIC1_DATA a1 d3))))"

text \<open>The port and the bit of an interrupt line; the bit is the \<open>int\<close> \<open>1 << irq_line\<close>.\<close>

definition line_port :: "u8 \<Rightarrow> u16 \<times> nat" where
  "line_port irq_line = (if irq_line < 8 then (PIC1_DATA, unat irq_line) else (PIC2_DATA, unat (irq_line - 8)))"

definition line_bit :: "nat \<Rightarrow> u32 result" where
  "line_bit n = (if n < 32 then Inr (push_bit n 1) else Inl (Undefined ''shift count''))"

definition mask_line :: "'d io_bus \<Rightarrow> u8 \<Rightarrow> 'd \<Rightarrow> 'd result" where
  "mask_line io irq_line d =
     (let (port, n) = line_port irq_line; (b, d') = inb io port d
      in rbind (line_bit n) (\<lambda>m. Inr (outb io port (ucast ((ucast b :: u32) OR m)) d')))"

definition unmask_line :: "'d io_bus \<Rightarrow> u8 \<Rightarrow> 'd \<Rightarrow> 'd result" where
  "unmask_line io irq_line d =
     (let (port, n) = line_port irq_line; (b, d') = inb io port d
      in rbind (line_bit n) (\<lambda>m. Inr (outb io port (ucast ((ucast b :: u32) AND NOT m)) d')))"

section \<open>The delay loop\<close>

lemma io_wait_loop_append: "io_wait_loop (xs @ ys) c = rbind (io_wait_loop xs c) (io_wait_loop ys)"
  by (induction xs arbitrary: c) (simp_all add: rbind_def split: sum.split)

lemma io_wait_loop_sum:
  assumes "- (2 ^ 31) \<le> c - int ((n + 1) div 2)" "c + int (n div 2) < 2 ^ 31"
  shows "io_wait_loop [0..<n] c = Inr (if even n then c - int (n div 2) else c + int (n div 2))"
  using assms
proof (induction n)
  case (Suc n)
  have IH: "io_wait_loop [0..<n] c = Inr (if even n then c - int (n div 2) else c + int (n div 2))"
    by (rule Suc.IH) (use Suc.prems in auto)
  have last: "io_wait_loop [0..<Suc n] c = io_wait_loop [n] (if even n then c - int (n div 2) else c + int (n div 2))"
    using io_wait_loop_append [of "[0..<n]" "[n]" c] by (simp add: IH)
  show ?case
  proof (cases "even n")
    case True
    then obtain k where "n = 2 * k" by (elim evenE)
    then show ?thesis using Suc.prems unfolding last by (simp add: add_int_def)
  next
    case False
    then obtain k where "n = 2 * k + 1" by (elim oddE)
    then show ?thesis using Suc.prems unfolding last by (simp add: add_int_def)
  qed
qed simp

lemma io_wait_eq: "- (2 ^ 31) + 500 \<le> c \<Longrightarrow> c < 2 ^ 31 - 500 \<Longrightarrow> io_wait c = Inr (c - 500)"
  using io_wait_loop_sum [of c 1000] by (simp add: io_wait_def)

lemma outb_wait_eq:
  "- (2 ^ 31) + 500 * int (length pvs) \<le> c \<Longrightarrow> c < 2 ^ 31 - 500 \<Longrightarrow>
     outb_wait io pvs (c, d) = Inr (c - 500 * int (length pvs), outbs io pvs d)"
  by (induction pvs arbitrary: c d) (auto simp: io_wait_eq)

section \<open>The 8259A\<close>

text \<open>
  One controller. \<open>stage\<close> is 0 in operation and otherwise the number of the initialization command
  word that the next write to the data port supplies. ICW1 (bit 4 of a command) clears the mask and
  starts the sequence; its bit 1 says that there is no ICW3, its bit 0 that there is an ICW4. The
  vector base is the upper five bits of ICW2. A command \<open>0x20\<close> ends the interrupt of highest priority
  in service; in operation a write to the data port sets the mask.
\<close>

record pic8259 =
  stage :: nat
  icw1 :: u8
  vector_base :: u8
  cascade :: u8
  icw4 :: u8
  imr :: u8
  isr :: u8

definition lowest_bit :: "u8 \<Rightarrow> u8" where
  "lowest_bit w = w AND - w"

definition pic_command :: "u8 \<Rightarrow> pic8259 \<Rightarrow> pic8259" where
  "pic_command v p =
     (if bit v 4 then p\<lparr>stage := 2, icw1 := v, imr := 0, isr := 0\<rparr>
      else if v = 0x20 then p\<lparr>isr := isr p AND NOT (lowest_bit (isr p))\<rparr>
      else p)"

definition after_icw3 :: "pic8259 \<Rightarrow> nat" where
  "after_icw3 p = (if bit (icw1 p) 0 then 4 else 0)"

definition pic_data :: "u8 \<Rightarrow> pic8259 \<Rightarrow> pic8259" where
  "pic_data v p =
     (if stage p = 2 then
        p\<lparr>vector_base := v AND 0xF8, stage := (if bit (icw1 p) 1 then after_icw3 p else 3)\<rparr>
      else if stage p = 3 then p\<lparr>cascade := v, stage := after_icw3 p\<rparr>
      else if stage p = 4 then p\<lparr>icw4 := v, stage := 0\<rparr>
      else p\<lparr>imr := v\<rparr>)"

record pics =
  master :: pic8259
  slave :: pic8259

definition pics_write :: "u16 \<Rightarrow> u8 \<Rightarrow> pics \<Rightarrow> pics" where
  "pics_write port v ps =
     (if port = 0x20 then ps\<lparr>master := pic_command v (master ps)\<rparr>
      else if port = 0x21 then ps\<lparr>master := pic_data v (master ps)\<rparr>
      else if port = 0xA0 then ps\<lparr>slave := pic_command v (slave ps)\<rparr>
      else if port = 0xA1 then ps\<lparr>slave := pic_data v (slave ps)\<rparr>
      else ps)"

text \<open>
  The bus has the two controllers at the ports of a PC, seen through \<open>view\<close>: writes act on
  them, reads change nothing, and a read of a data port in operation gives the mask.
\<close>

definition pics_at :: "'d io_bus \<Rightarrow> ('d \<Rightarrow> pics) \<Rightarrow> bool" where
  "pics_at io view \<longleftrightarrow>
     (\<forall>port v d. view (dev_out io port v d) = pics_write port v (view d)) \<and>
     (\<forall>port d. view (snd (dev_in io port d)) = view d) \<and>
     (\<forall>d. stage (master (view d)) = 0 \<longrightarrow> fst (dev_in io 0x21 d) = imr (master (view d))) \<and>
     (\<forall>d. stage (slave (view d)) = 0 \<longrightarrow> fst (dev_in io 0xA1 d) = imr (slave (view d)))"

lemma pics_atD:
  assumes "pics_at io view"
  shows "view (outb io port v d) = pics_write port v (view d)"
    and "view (snd (inb io port d)) = view d"
    and "stage (master (view d)) = 0 \<Longrightarrow> fst (inb io 0x21 d) = imr (master (view d))"
    and "stage (slave (view d)) = 0 \<Longrightarrow> fst (inb io 0xA1 d) = imr (slave (view d))"
  using assms by (simp_all add: pics_at_def outb_def inb_def)

definition operating :: "pics \<Rightarrow> bool" where
  "operating ps \<longleftrightarrow> stage (master ps) = 0 \<and> stage (slave ps) = 0"

text \<open>What \<open>remap\<close> is for: both controllers initialized, with their old masks.\<close>

definition remapped :: "u8 \<Rightarrow> u8 \<Rightarrow> pics \<Rightarrow> pics" where
  "remapped offset1 offset2 ps =
     \<lparr>master = \<lparr>stage = 0, icw1 = 0x11, vector_base = offset1 AND 0xF8, cascade = 4, icw4 = 1,
        imr = imr (master ps), isr = 0\<rparr>,
      slave = \<lparr>stage = 0, icw1 = 0x11, vector_base = offset2 AND 0xF8, cascade = 2, icw4 = 1,
        imr = imr (slave ps), isr = 0\<rparr>\<rparr>"

lemma outbs_view: "pics_at io view \<Longrightarrow> view (outbs io pvs d) = fold (\<lambda>(port, v). pics_write port v) pvs (view d)"
  by (induction pvs arbitrary: d) (simp_all add: pics_atD case_prod_unfold)

lemma init_sequence:
  "operating ps \<Longrightarrow>
   pics_write 0xA1 (imr (slave ps)) (pics_write 0x21 (imr (master ps))
     (fold (\<lambda>(port, v). pics_write port v)
       [(0x20, 0x11), (0xA0, 0x11), (0x21, offset1), (0xA1, offset2), (0x21, 4), (0xA1, 2), (0x21, 1), (0xA1, 1)] ps))
   = remapped offset1 offset2 ps"
  by (simp add: remapped_def operating_def pics_write_def pic_command_def pic_data_def after_icw3_def)

lemma remap_runs:
  assumes "pics_at io view" "operating (view d)" "- (2 ^ 31) + 4000 \<le> calc_me" "calc_me < 2 ^ 31 - 500"
  shows "\<exists>d'. remap io offset1 offset2 (calc_me, d) = Inr (calc_me - 4000, d') \<and>
    view d' = remapped offset1 offset2 (view d)"
proof -
  note u = pics_atD [OF assms(1)]
  let ?pvs = "[(0x20, 0x11), (0xA0, 0x11), (0x21, offset1), (0xA1, offset2), (0x21, 4), (0xA1, 2), (0x21, 1), (0xA1, 1)]"
  define d2 where "d2 = snd (inb io 0xA1 (snd (inb io 0x21 d)))"
  have saved: "fst (inb io 0x21 d) = imr (master (view d))"
    "fst (inb io 0xA1 (snd (inb io 0x21 d))) = imr (slave (view d))" "view d2 = view d"
    using assms(2) by (simp_all add: operating_def u d2_def)
  have "outb_wait io ?pvs (calc_me, d2) = Inr (calc_me - 4000, outbs io ?pvs d2)"
    using assms(3,4) outb_wait_eq [of ?pvs calc_me io d2] by simp
  then have "remap io offset1 offset2 (calc_me, d) = Inr (calc_me - 4000,
      outb io 0xA1 (imr (slave (view d))) (outb io 0x21 (imr (master (view d))) (outbs io ?pvs d2)))"
    by (simp add: remap_def Let_def case_prod_unfold saved d2_def del: outbs.simps outb_wait.simps)
  then show ?thesis
    using init_sequence [OF assms(2)] by (simp add: u outbs_view [OF assms(1)] saved del: outbs.simps fold_simps)
qed

text \<open>
  C18: \<open>remap\<close> takes both controllers through their whole initialization sequence: interleaved as its
  writes are, it ends with both in operation, with the vector bases asked for, the slave cascaded on
  line 2 of the master, 8086 mode, nothing in service and the masks they had before; the delay
  counter is 4000 lower, and no addition on it overflowed.
\<close>

theorem remap_initializes:
  assumes "pics_at io view" "operating (view d)" "- (2 ^ 31) + 4000 \<le> calc_me" "calc_me < 2 ^ 31 - 500"
  shows "\<exists>d'. remap io offset1 offset2 (calc_me, d) = Inr (calc_me - 4000, d') \<and>
    view d' = remapped offset1 offset2 (view d)"
  by (rule remap_runs [OF assms])

definition pics_bus :: "pics io_bus" where
  "pics_bus =
     \<lparr>dev_in = (\<lambda>port ps. (if port = 0x21 then imr (master ps) else if port = 0xA1 then imr (slave ps) else 0, ps)),
      dev_out = pics_write\<rparr>"

definition pic0 :: pic8259 where
  "pic0 = \<lparr>stage = 0, icw1 = 0x11, vector_base = 8, cascade = 4, icw4 = 1, imr = 0xB8, isr = 0\<rparr>"

lemma pics_bus_at: "pics_at pics_bus (\<lambda>ps. ps)"
  by (simp add: pics_at_def pics_bus_def)

theorem remap_initializes_witness:
  "let ps = \<lparr>master = pic0, slave = pic0\<rparr> in
     pics_at pics_bus (\<lambda>ps. ps) \<and> operating ps \<and>
     remap pics_bus 0x20 0x28 (0, ps) = Inr (- 4000, remapped 0x20 0x28 ps)"
proof -
  have "operating \<lparr>master = pic0, slave = pic0\<rparr>" by (simp add: operating_def pic0_def)
  then have "\<exists>d'. remap pics_bus 0x20 0x28 (0, \<lparr>master = pic0, slave = pic0\<rparr>) = Inr (0 - 4000, d') \<and>
      d' = remapped 0x20 0x28 \<lparr>master = pic0, slave = pic0\<rparr>"
    by (intro remap_initializes [OF pics_bus_at]) simp_all
  then show ?thesis by (simp add: pics_bus_at Let_def operating_def pic0_def)
qed

section \<open>Masks\<close>

text \<open>The mask of the controller that serves a line, and the bit of the line in it.\<close>

definition line_masked :: "pics \<Rightarrow> nat \<Rightarrow> bool" where
  "line_masked ps k = (if k < 8 then bit (imr (master ps)) k else bit (imr (slave ps)) (k - 8))"

definition with_masks :: "u8 \<Rightarrow> u8 \<Rightarrow> pics \<Rightarrow> pics" where
  "with_masks m s ps = ps\<lparr>master := (master ps)\<lparr>imr := m\<rparr>, slave := (slave ps)\<lparr>imr := s\<rparr>\<rparr>"

lemma bit_set_line: "bit (ucast ((ucast (b :: u8) :: u32) OR push_bit n 1) :: u8) k \<longleftrightarrow> bit b k \<or> k = n \<and> n < 8"
  using bit_imp_le_length [of b k] by (auto simp: bit_simps)

lemma bit_clear_line: "bit (ucast ((ucast (b :: u8) :: u32) AND NOT (push_bit n 1)) :: u8) k \<longleftrightarrow> bit b k \<and> k \<noteq> n"
  using bit_imp_le_length [of b k] by (auto simp: bit_simps)

lemma line_port_cases:
  assumes "unat irq_line < 16"
  shows "line_port irq_line =
    (if unat irq_line < 8 then (PIC1_DATA, unat irq_line) else (PIC2_DATA, unat irq_line - 8))"
proof -
  have "unat (irq_line - 8) = unat irq_line - 8" if "8 \<le> irq_line"
    using that by (simp add: unat_sub)
  then show ?thesis by (simp add: line_port_def word_less_nat_alt word_le_nat_alt)
qed

text \<open>
  \<open>mask\<close> and \<open>unmask\<close> act on one line: for each of the 16 lines, both return, set respectively clear
  the mask of that line, leave the mask of every other line as it is, and change nothing else of
  the controllers.
\<close>

theorem mask_unmask_line:
  assumes "pics_at io view" "operating (view d)" "unat irq_line < 16"
  shows "\<exists>d1 d2 m1 s1 m2 s2. mask_line io irq_line d = Inr d1 \<and> unmask_line io irq_line d = Inr d2 \<and>
    view d1 = with_masks m1 s1 (view d) \<and> view d2 = with_masks m2 s2 (view d) \<and>
    (\<forall>k < 16. line_masked (view d1) k \<longleftrightarrow> k = unat irq_line \<or> line_masked (view d) k) \<and>
    (\<forall>k < 16. line_masked (view d2) k \<longleftrightarrow> k \<noteq> unat irq_line \<and> line_masked (view d) k)"
proof -
  let ?set = "\<lambda>n b. ucast ((ucast (b :: u8) :: u32) OR push_bit n 1) :: u8"
  let ?clr = "\<lambda>n b. ucast ((ucast (b :: u8) :: u32) AND NOT (push_bit n 1)) :: u8"
  let ?M = "imr (master (view d))" and ?S = "imr (slave (view d))"
  have st: "stage (master (view d)) = 0" "stage (slave (view d)) = 0" using assms(2) by (simp_all add: operating_def)
  note simps = mask_line_def unmask_line_def line_port_cases [OF assms(3)] line_bit_def case_prod_unfold
    pics_atD [OF assms(1)] pics_write_def pic_data_def with_masks_def st line_masked_def
  show ?thesis
  proof (cases "unat irq_line < 8")
    case True
    let ?n = "unat irq_line"
    show ?thesis
      by (rule exI [of _ "outb io 0x21 (?set ?n ?M) (snd (inb io 0x21 d))"],
          rule exI [of _ "outb io 0x21 (?clr ?n ?M) (snd (inb io 0x21 d))"],
          rule exI [of _ "?set ?n ?M"], rule exI [of _ ?S], rule exI [of _ "?clr ?n ?M"], rule exI [of _ ?S])
        (use True in \<open>auto simp: simps bit_set_line [simplified] bit_clear_line [simplified]\<close>)
  next
    case False
    let ?n = "unat irq_line - 8"
    show ?thesis
      by (rule exI [of _ "outb io 0xA1 (?set ?n ?S) (snd (inb io 0xA1 d))"],
          rule exI [of _ "outb io 0xA1 (?clr ?n ?S) (snd (inb io 0xA1 d))"],
          rule exI [of _ ?M], rule exI [of _ "?set ?n ?S"], rule exI [of _ ?M], rule exI [of _ "?clr ?n ?S"])
        (use False assms(3) in \<open>auto simp: simps bit_set_line [simplified] bit_clear_line [simplified]\<close>)
  qed
qed

theorem mask_unmask_line_witness:
  "let ps = \<lparr>master = pic0, slave = pic0\<rparr> in
     pics_at pics_bus (\<lambda>ps. ps) \<and> operating ps \<and> unat (9 :: u8) < 16 \<and>
     (\<exists>d1 d2. mask_line pics_bus 9 ps = Inr d1 \<and> unmask_line pics_bus 9 ps = Inr d2 \<and>
       line_masked d1 9 \<and> \<not> line_masked d2 9)"
proof -
  have "operating \<lparr>master = pic0, slave = pic0\<rparr>" by (simp add: operating_def pic0_def)
  from mask_unmask_line [OF pics_bus_at this, of 9] show ?thesis
    using \<open>operating \<lparr>master = pic0, slave = pic0\<rparr>\<close> by (auto simp: pics_bus_at Let_def)
qed

end
