(* ===== verification/Irq.thy ===== *)
theory Irq
  imports Prelude
begin

text \<open>
  The vectors the kernel names (\<open>irq_num\<close>, interrupts/irq_handlers/handlers.h), ordered by their number, which is
  also the order in which the processor's exceptions and the remapped lines are laid out in the table.
\<close>

datatype irq_num =
    DIV_ERROR | DEBUG | NMI | BREAKPOINT | OVERFLOW | BOUND_RANGE_EXCEEDE | INVALID_OPCODE | DEVICE_NOT_AVAILABLE
  | DOUBLE_FAULT | COPROCESSOR_SEGMENT_OVERRUN | INVALID_TSS | SEGMENT_NOT_PRESENT | STACK_SEGMENT_FAULT
  | GENERAL_PROTECTION_FAULT | PAGE_FAULT | FLOATING_POINT_EXCEPTION | ALIGNMENT_CHECK | TIMER | KEYBOARD

primrec irq_code :: "irq_num \<Rightarrow> nat" where
  "irq_code DIV_ERROR = 0"
| "irq_code DEBUG = 1"
| "irq_code NMI = 2"
| "irq_code BREAKPOINT = 3"
| "irq_code OVERFLOW = 4"
| "irq_code BOUND_RANGE_EXCEEDE = 5"
| "irq_code INVALID_OPCODE = 6"
| "irq_code DEVICE_NOT_AVAILABLE = 7"
| "irq_code DOUBLE_FAULT = 8"
| "irq_code COPROCESSOR_SEGMENT_OVERRUN = 9"
| "irq_code INVALID_TSS = 10"
| "irq_code SEGMENT_NOT_PRESENT = 11"
| "irq_code STACK_SEGMENT_FAULT = 12"
| "irq_code GENERAL_PROTECTION_FAULT = 13"
| "irq_code PAGE_FAULT = 14"
| "irq_code FLOATING_POINT_EXCEPTION = 16"
| "irq_code ALIGNMENT_CHECK = 17"
| "irq_code TIMER = 32"
| "irq_code KEYBOARD = 33"

definition all_irqs :: "irq_num list" where
  "all_irqs = [DIV_ERROR, DEBUG, NMI, BREAKPOINT, OVERFLOW, BOUND_RANGE_EXCEEDE, INVALID_OPCODE, DEVICE_NOT_AVAILABLE,
     DOUBLE_FAULT, COPROCESSOR_SEGMENT_OVERRUN, INVALID_TSS, SEGMENT_NOT_PRESENT, STACK_SEGMENT_FAULT,
     GENERAL_PROTECTION_FAULT, PAGE_FAULT, FLOATING_POINT_EXCEPTION, ALIGNMENT_CHECK, TIMER, KEYBOARD]"

definition irq_of :: "nat \<Rightarrow> irq_num option" where
  "irq_of n = find (\<lambda>i. irq_code i = n) all_irqs"

lemma irq_of_code [simp]: "irq_of (irq_code i) = Some i"
  by (cases i) (simp_all add: irq_of_def all_irqs_def)

lemma irq_code_inject [simp]: "irq_code i = irq_code j \<longleftrightarrow> i = j"
  by (metis irq_of_code option.inject)

instantiation irq_num :: linorder
begin

definition less_eq_irq_num :: "irq_num \<Rightarrow> irq_num \<Rightarrow> bool" where
  "i \<le> j \<longleftrightarrow> irq_code i \<le> irq_code j"

definition less_irq_num :: "irq_num \<Rightarrow> irq_num \<Rightarrow> bool" where
  "i < j \<longleftrightarrow> irq_code i < irq_code j"

instance
  by standard (auto simp: less_eq_irq_num_def less_irq_num_def)

end

lemma irq_of_eq_Some: "irq_of n = Some i \<longleftrightarrow> irq_code i = n"
proof
  assume "irq_of n = Some i"
  then show "irq_code i = n" unfolding irq_of_def find_Some_iff by auto
qed (use irq_of_code in blast)

text \<open>
  The timer is the first vector above the processor's exceptions, so that the lines remapped to \<open>0x20\<close> raise no
  exception's vector.
\<close>

lemma exceptions_below_timer: "i < TIMER \<longleftrightarrow> i \<noteq> TIMER \<and> i \<noteq> KEYBOARD"
  by (cases i) (simp_all add: less_irq_num_def)

lemma remapped_lines: "irq_of (0x20 + k) = Some i \<Longrightarrow> TIMER \<le> i"
  by (auto simp: irq_of_eq_Some less_eq_irq_num_def)

end
