(* ===== verification/Handlers.thy ===== *)
theory Handlers
  imports Diagnostics Pic Irq
begin

text \<open>
  The interrupt handlers (interrupts/irq_handlers/handlers.h, handlers.cpp). They run on the console
  and on the devices behind the ports; a handler for an exception reports on the serial port and ends
  in \<open>kernel_panic\<close>, with the machine in the state it has reached then.
\<close>

section \<open>Operations\<close>

text \<open>The table \<open>kbd_US\<close>; the entries its initialiser leaves out are zero.\<close>

definition kbd_US :: string where
  "kbd_US = [
    CHR 0x00, CHR 0x1B, CHR ''1'', CHR ''2'', CHR ''3'', CHR ''4'', CHR ''5'', CHR ''6'', CHR ''7'',
    CHR ''8'', CHR ''9'', CHR ''0'', CHR ''-'', CHR ''='', CHR 0x08, CHR 0x09, CHR ''q'', CHR ''w'',
    CHR ''e'', CHR ''r'', CHR ''t'', CHR ''y'', CHR ''u'', CHR ''i'', CHR ''o'', CHR ''p'', CHR ''['',
    CHR '']'', CHR 0x0A, CHR 0x00, CHR ''a'', CHR ''s'', CHR ''d'', CHR ''f'', CHR ''g'', CHR ''h'',
    CHR ''j'', CHR ''k'', CHR ''l'', CHR '';'', CHR 0x27, CHR 0x60, CHR 0x00, CHR 0x5C, CHR ''z'',
    CHR ''x'', CHR ''c'', CHR ''v'', CHR ''b'', CHR ''n'', CHR ''m'', CHR '','', CHR ''.'', CHR ''/'',
    CHR 0x00, CHR ''*'', CHR 0x00, CHR '' '', CHR 0x00, CHR 0x00, CHR 0x00, CHR 0x00, CHR 0x00, CHR 0x00,
    CHR 0x00, CHR 0x00, CHR 0x00, CHR 0x00, CHR 0x00, CHR 0x00, CHR 0x00, CHR 0x00, CHR 0x00, CHR 0x00,
    CHR ''-'', CHR 0x00, CHR 0x00, CHR 0x00, CHR ''+'', CHR 0x00, CHR 0x00, CHR 0x00, CHR 0x00, CHR 0x00,
    CHR 0x00, CHR 0x00, CHR 0x00, CHR 0x00, CHR 0x00, CHR 0x00] @ replicate 38 (CHR 0x00)"

record interrupt_frame_t =
  eip :: u64
  cs :: u64
  flags :: u64

record 'd machine =
  console :: video
  dev :: 'd

definition print_frame :: "'d io_bus \<Rightarrow> SerialPort \<Rightarrow> interrupt_frame_t \<Rightarrow> 'd \<Rightarrow> 'd result" where
  "print_frame io p frame d =
     SerialPort_printf io p
       (''interrupt_frame_t *'' @ [CHR 0x0A] @ ''{'' @ [CHR 0x0A, CHR 0x09] @ ''eflags:'' @ [CHR 0x09] @ ''%b.:64'' @
        [CHR 0x0A, CHR 0x09] @ ''cs:'' @ [CHR 0x09] @ ''%x'' @ [CHR 0x0A, CHR 0x09] @ ''eip:'' @ [CHR 0x09] @ ''%p'' @
        [CHR 0x0A] @ ''}'' @ [CHR 0x0A])
       [VA_64 (flags frame), VA_64 (cs frame), VA_64 (eip frame)] d"

abbreviation ps2_data_port :: u16 where "ps2_data_port \<equiv> 0x60"

definition pic_EOI :: "'d io_bus \<Rightarrow> u32 \<Rightarrow> 'd \<Rightarrow> 'd" where
  "pic_EOI io irq d = outb io 0x20 0x20 (if 8 \<le> irq then outb io 0x21 0x20 d else d)"

definition handle_timer :: "'d io_bus \<Rightarrow> 'd machine \<Rightarrow> 'd machine" where
  "handle_timer io m = m\<lparr>dev := pic_EOI io (of_nat (irq_code TIMER)) (dev m)\<rparr>"

definition handle_keyboard :: "'d io_bus \<Rightarrow> 'd machine \<Rightarrow> 'd machine" where
  "handle_keyboard io m =
     (let (scancode, d) = inb io ps2_data_port (dev m);
          v = (if scancode < 0x80 then Video_putc (kbd_US ! unat scancode) (console m) else console m)
      in m\<lparr>console := v, dev := pic_EOI io (of_nat (irq_code KEYBOARD)) d\<rparr>)"

text \<open>The report of an exception handler on the serial port: the frame, then a line of its own.\<close>

definition report :: "'d io_bus \<Rightarrow> SerialPort \<Rightarrow> interrupt_frame_t \<Rightarrow> string \<Rightarrow> va_arg list \<Rightarrow> 'd \<Rightarrow> 'd result" where
  "report io p frame fmt args d = rbind (print_frame io p frame d) (SerialPort_printf io p fmt args)"

text \<open>The call of \<open>kernel_panic\<close> at the end, when the devices are in state \<open>d\<close>.\<close>

definition panic_in :: "string \<Rightarrow> 'd \<Rightarrow> 'd machine \<Rightarrow> 'd machine outcome result" where
  "panic_in s d m =
     rbind (kernel_panic s (console m)) (\<lambda>r. Inr (map_outcome (\<lambda>v. m\<lparr>console := v, dev := d\<rparr>) r))"

definition handle_divide_by_zero :: "'d io_bus \<Rightarrow> SerialPort \<Rightarrow> interrupt_frame_t \<Rightarrow> 'd machine \<Rightarrow> 'd machine outcome result" where
  "handle_divide_by_zero io p frame m =
     rbind (report io p frame (''what are you doing dividing by zero???'' @ [CHR 0x0A]) [] (dev m))
       (\<lambda>d. panic_in ''div by zero :('' d m)"

definition handle_double_fault :: "'d io_bus \<Rightarrow> SerialPort \<Rightarrow> interrupt_frame_t \<Rightarrow> 'd machine \<Rightarrow> 'd machine outcome result" where
  "handle_double_fault io p frame m =
     rbind (report io p frame (''Oops! double fault!!'' @ [CHR 0x0A]) [] (dev m))
       (\<lambda>d. panic_in ''double fault.'' d m)"

definition handle_gen_prot_fault ::
  "'d io_bus \<Rightarrow> SerialPort \<Rightarrow> interrupt_frame_t \<Rightarrow> u64 \<Rightarrow> 'd machine \<Rightarrow> 'd machine outcome result" where
  "handle_gen_prot_fault io p frame error_code m =
     rbind (report io p frame (''Oops! general protection fault!! segment selector %x'' @ [CHR 0x0A])
         [VA_64 error_code] (dev m))
       (\<lambda>d. panic_in ''general protection fault.'' d m)"

definition handle_page_fault ::
  "'d io_bus \<Rightarrow> SerialPort \<Rightarrow> interrupt_frame_t \<Rightarrow> u64 \<Rightarrow> 'd machine \<Rightarrow> 'd machine outcome result" where
  "handle_page_fault io p frame error_code m =
     rbind (report io p frame (''page fault!! the error code is %x'' @ [CHR 0x0A]) [VA_64 error_code] (dev m))
       (\<lambda>d. panic_in ''page fault.'' d m)"

section \<open>The reports\<close>

definition frame_text :: "interrupt_frame_t \<Rightarrow> string" where
  "frame_text frame =
     ''interrupt_frame_t *'' @ [CHR 0x0A] @ ''{'' @ [CHR 0x0A, CHR 0x09] @ ''eflags:'' @ [CHR 0x09] @ bin_text 64 (flags frame) @
     [CHR 0x0A, CHR 0x09] @ ''cs:'' @ [CHR 0x09] @ hex_text 0 (cs frame) @ [CHR 0x0A, CHR 0x09] @ ''eip:'' @ [CHR 0x09] @
     hex_text 16 (eip frame) @ [CHR 0x0A] @ ''}'' @ [CHR 0x0A]"

lemmas hex_text = conversion_texts(3)

lemma bin_text_64: "x \<noteq> 0 \<Longrightarrow> rbind (itob x 64) c_string = Inr (bin_text 64 x)"
proof -
  assume x: "x \<noteq> 0"
  have "length (digs 2 (unat x)) \<le> 64" using unat_u64_less [of x] by (intro length_digs_bound) simp_all
  moreover have "length (digs 2 (unat x)) = length (numeral_text 2 (unat x))"
    using numeral_texts(3) [of "unat x"] x by (metis length_map unat_gt_0)
  ultimately show ?thesis using conversion_texts(4) [of x 64] x by simp
qed

lemma padding_64: "padding_spec (''.:64'' @ CHR 0x0A # r) = (64, CHR 0x0A # r)"
  by (simp add: padding_spec_def)

lemma frame_vformat:
  assumes "flags frame \<noteq> 0"
  shows "vformat
       (''interrupt_frame_t *'' @ [CHR 0x0A] @ ''{'' @ [CHR 0x0A, CHR 0x09] @ ''eflags:'' @ [CHR 0x09] @ ''%b.:64'' @
        [CHR 0x0A, CHR 0x09] @ ''cs:'' @ [CHR 0x09] @ ''%x'' @ [CHR 0x0A, CHR 0x09] @ ''eip:'' @ [CHR 0x09] @ ''%p'' @
        [CHR 0x0A] @ ''}'' @ [CHR 0x0A])
       [VA_64 (flags frame), VA_64 (cs frame), VA_64 (eip frame)] = Inr (frame_text frame)"
  using bin_text_64 [OF assms] hex_text [of 0 "cs frame"] hex_text [of 16 "eip frame"]
  by (simp add: vformat_simps(1,2) vformat_number(1,3) [OF padding_spec_none]
      vformat_number(2) [OF padding_64 [simplified]] frame_text_def)

lemma report_sends:
  assumes "uart_at io (portnum p) view" "\<not> dlab (view d)" "\<not> loopback (view d)" "flags frame \<noteq> 0"
    "vformat fmt args = Inr t"
  shows "\<exists>d'. report io p frame fmt args d = Inr d' \<and>
    view d' = (view d)\<lparr>sent := sent (view d) @ map of_char (frame_text frame @ t)\<rparr>"
proof -
  obtain d1 where d1: "print_frame io p frame d = Inr d1"
    "view d1 = (view d)\<lparr>sent := sent (view d) @ map of_char (frame_text frame)\<rparr>"
    using uart_printf [OF assms(1-3) frame_vformat [OF assms(4)]] unfolding print_frame_def by blast
  have "\<not> dlab (view d1)" "\<not> loopback (view d1)" using assms(2,3) by (simp_all add: d1(2) dlab_def loopback_def)
  from uart_printf [OF assms(1) this assms(5)] show ?thesis by (auto simp: report_def d1)
qed

text \<open>
  A run that has sent the frame and the line \<open>t\<close>, has shown \<open>kernel panic!!\<close> with the message \<open>s\<close> on the console, and loops.
\<close>

definition reported :: "('d \<Rightarrow> uart) \<Rightarrow> interrupt_frame_t \<Rightarrow> string \<Rightarrow> string \<Rightarrow> 'd machine \<Rightarrow> 'd machine outcome result \<Rightarrow> bool" where
  "reported view frame t s m r \<longleftrightarrow>
     (\<exists>m'. r = Inr (Halted s m') \<and>
       view (dev m') = (view (dev m))\<lparr>sent := sent (view (dev m)) @ map of_char (frame_text frame @ t)\<rparr> \<and>
       console m' = Video_writestr (''kernel panic!! '' @ s) (console m))"

lemma report_stops:
  assumes "uart_at io (portnum p) view" "\<not> dlab (view (dev m))" "\<not> loopback (view (dev m))" "flags frame \<noteq> 0"
    "vformat fmt args = Inr t"
  shows "reported view frame t s m (rbind (report io p frame fmt args (dev m)) (\<lambda>d. panic_in s d m))"
  using report_sends [OF assms] by (auto simp: reported_def panic_in_def kernel_panic_eq)

text \<open>
  C19: Every exception handler reports and stops. On a working UART, and for a frame as the processor
  pushes it (its flags are never zero), each of the four handlers sends the whole frame and then
  its own line, with the error code where there is one, shows \<open>kernel panic!!\<close> and its message on the console, and
  loops for good in that state; nothing else of the UART changes, and no exception returns to the code that raised it.
\<close>

theorem exception_handlers_report:
  assumes "uart_at io (portnum p) view" "\<not> dlab (view (dev m))" "\<not> loopback (view (dev m))" "flags frame \<noteq> 0"
  shows "reported view frame (''what are you doing dividing by zero???'' @ [CHR 0x0A]) ''div by zero :('' m
      (handle_divide_by_zero io p frame m) \<and>
    reported view frame (''Oops! double fault!!'' @ [CHR 0x0A]) ''double fault.'' m (handle_double_fault io p frame m) \<and>
    reported view frame (''Oops! general protection fault!! segment selector '' @ hex_text 0 err @ [CHR 0x0A])
      ''general protection fault.'' m (handle_gen_prot_fault io p frame err m) \<and>
    reported view frame (''page fault!! the error code is '' @ hex_text 0 err @ [CHR 0x0A]) ''page fault.'' m
      (handle_page_fault io p frame err m)"
proof -
  note stops = report_stops [OF assms]
  have hex: "vformat (''%x'' @ [CHR 0x0A]) [VA_64 err] = Inr (hex_text 0 err @ [CHR 0x0A])"
    using hex_text [of 0 err] by (simp add: vformat_number(1) [OF padding_spec_none] vformat_simps(1,2))
  have "vformat (''what are you doing dividing by zero???'' @ [CHR 0x0A]) [] = Inr (''what are you doing dividing by zero???'' @ [CHR 0x0A])"
    "vformat (''Oops! double fault!!'' @ [CHR 0x0A]) [] = Inr (''Oops! double fault!!'' @ [CHR 0x0A])"
    by (simp_all add: vformat_plain)
  note plain = this [THEN stops]
  have "vformat (''Oops! general protection fault!! segment selector %x'' @ [CHR 0x0A]) [VA_64 err] =
      Inr (''Oops! general protection fault!! segment selector '' @ hex_text 0 err @ [CHR 0x0A])"
    "vformat (''page fault!! the error code is %x'' @ [CHR 0x0A]) [VA_64 err] =
      Inr (''page fault!! the error code is '' @ hex_text 0 err @ [CHR 0x0A])"
    using hex vformat_append [of "''page fault!! the error code is ''"]
      vformat_append [of "''Oops! general protection fault!! segment selector ''"] by auto
  note code = this [THEN stops]
  show ?thesis
    unfolding handle_divide_by_zero_def handle_double_fault_def handle_gen_prot_fault_def handle_page_fault_def
    by (intro conjI plain code)
qed

theorem exception_handlers_report_witness:
  "let p = \<lparr>portnum = 0x3f8, is_valid = True\<rparr>; frame = \<lparr>eip = 0x1000, cs = 8, flags = 2\<rparr>;
       m = \<lparr>console = Video_new (\<lambda>_. 0), dev = uart0\<rparr>
   in uart_at (uart_bus 0x3f8) (portnum p) (\<lambda>u. u) \<and> \<not> dlab (dev m) \<and> \<not> loopback (dev m) \<and> flags frame \<noteq> 0 \<and>
      (\<exists>m'. handle_page_fault (uart_bus 0x3f8) p frame 4 m = Inr (Halted ''page fault.'' m') \<and>
        sent (dev m') = map of_char (frame_text frame @ ''page fault!! the error code is 0x4'' @ [CHR 0x0A]) \<and>
        console m' = Video_writestr ''kernel panic!! page fault.'' (console m))"
proof -
  let ?p = "\<lparr>portnum = 0x3f8, is_valid = True\<rparr>" and ?frame = "\<lparr>eip = 0x1000, cs = 8, flags = 2\<rparr> :: interrupt_frame_t"
  let ?m = "\<lparr>console = Video_new (\<lambda>_. 0), dev = uart0\<rparr> :: uart machine"
  have h: "uart_at (uart_bus 0x3f8) (portnum ?p) (\<lambda>u. u)" "\<not> dlab (dev ?m)" "\<not> loopback (dev ?m)" "flags ?frame \<noteq> 0"
    by (simp_all add: uart_bus_at uart0_def dlab_def loopback_def)
  have "hex_text 0 4 = ''0x4''" by (simp add: hex_text_def padded_def numeral_text.simps digit_chars_def)
  moreover have "sent uart0 = []" by (simp add: uart0_def)
  ultimately show ?thesis
    using exception_handlers_report [OF h, of 4] h unfolding Let_def reported_def by auto
qed

section \<open>Device interrupts\<close>

lemma length_kbd_US: "length kbd_US = 128"
  by (simp add: kbd_US_def)

text \<open>
  The keyboard handler reads one scancode. A key press (below \<open>0x80\<close>) prints the character of the
  128-entry table, which it never reads beyond its end, and a release prints nothing; in both cases
  the console stays in order, no cell beyond the screen changes, and the colour is kept.
\<close>

theorem handle_keyboard_echoes:
  assumes "video_ok (console m)" "fst (inb io 0x60 (dev m)) = scancode"
  shows "let v' = console (handle_keyboard io m) in
    (if unat scancode < length kbd_US then v' = Video_putc (kbd_US ! unat scancode) (console m) else v' = console m) \<and>
    video_ok v' \<and> same_beyond (console m) v' \<and> color v' = color (console m)"
  using assms Video_putc_ok [OF assms(1)]
  by (auto simp: handle_keyboard_def Let_def case_prod_unfold length_kbd_US word_less_nat_alt same_beyond_def)

definition kbd_bus :: "u8 \<Rightarrow> unit io_bus" where
  "kbd_bus scancode = \<lparr>dev_in = (\<lambda>port u. (scancode, u)), dev_out = (\<lambda>port v u. u)\<rparr>"

theorem handle_keyboard_echoes_witness:
  "let m = \<lparr>console = Video_new (\<lambda>_. 0), dev = ()\<rparr> in
     video_ok (console m) \<and> fst (inb (kbd_bus 0x15) 0x60 (dev m)) = 0x15 \<and>
     console (handle_keyboard (kbd_bus 0x15) m) = Video_putc (CHR ''y'') (console m)"
proof -
  let ?m = "\<lparr>console = Video_new (\<lambda>_. 0), dev = ()\<rparr> :: unit machine"
  have m: "video_ok (console ?m)" "fst (inb (kbd_bus 0x15) 0x60 (dev ?m)) = 0x15"
    by (simp_all add: Video_new_def video_ok_def Video_clear_def inb_def kbd_bus_def)
  have "kbd_US ! unat (0x15 :: u8) = CHR ''y''" by (simp add: kbd_US_def)
  with m handle_keyboard_echoes [OF m] show ?thesis by (simp add: Let_def length_kbd_US del: unat_numeral)
qed

text \<open>
  The end of interrupt of both device handlers destroys the interrupt mask. \<open>pic_EOI\<close> is called with
  the vector (32, 33) and, as that is at least 8, writes the command \<open>0x20\<close> to port \<open>0x21\<close>, the mask
  register of the master, instead of to the slave's command port: whatever was masked before, afterwards
  exactly line 5 of the master is. The interrupt of highest priority on the master is ended; the slave
  does not change.
\<close>

theorem EOI_sets_master_mask:
  assumes "pics_at io view" "operating (view (dev m))"
  shows "let ps = view (dev m);
             ps' = ps\<lparr>master := (master ps)\<lparr>imr := 0x20, isr := isr (master ps) AND NOT (lowest_bit (isr (master ps)))\<rparr>\<rparr>
    in view (dev (handle_timer io m)) = ps' \<and> view (dev (handle_keyboard io m)) = ps' \<and>
       (\<forall>k < 8. line_masked ps' k \<longleftrightarrow> k = 5)"
proof -
  have imr: "bit (0x20 :: u8) k \<longleftrightarrow> k = 5" for k
    using bit_exp_iff [of 5 k, where 'a = u8] by auto
  show ?thesis
    using assms(2) by (simp add: Let_def handle_timer_def handle_keyboard_def case_prod_unfold pic_EOI_def pics_atD [OF assms(1)]
        pics_write_def pic_data_def pic_command_def operating_def line_masked_def imr del: bit_numeral_word_iff)
qed

theorem EOI_sets_master_mask_witness:
  "let m = \<lparr>console = Video_new (\<lambda>_. 0), dev = \<lparr>master = pic0\<lparr>imr := 0xFC, isr := 1\<rparr>, slave = pic0\<rparr>\<rparr> in
     pics_at pics_bus (\<lambda>ps. ps) \<and> operating (dev m) \<and>
     imr (master (dev (handle_timer pics_bus m))) = 0x20 \<and> isr (master (dev (handle_timer pics_bus m))) = 0"
proof -
  let ?m = "\<lparr>console = Video_new (\<lambda>_. 0), dev = \<lparr>master = pic0\<lparr>imr := 0xFC, isr := 1\<rparr>, slave = pic0\<rparr>\<rparr> :: pics machine"
  have "operating (dev ?m)" by (simp add: operating_def pic0_def)
  with EOI_sets_master_mask [OF pics_bus_at this] show ?thesis
    by (simp add: Let_def pics_bus_at lowest_bit_def)
qed

end
