(* ===== verification/Gdt.thy ===== *)
theory Gdt
  imports Packed
begin

text \<open>
  The segment descriptors and \<open>init_gdt\<close> (memory/gdt.h, memory/gdt.cpp). The constructor of
  \<open>gdt_entry_t\<close> leaves the bit \<open>res\<close> uninitialised; the model takes it as an argument \<open>res0\<close>, the value
  the stack happens to hold. \<open>cpu_segments\<close> is the part of the processor that the assembly routines
  \<open>_load_gdt\<close> and \<open>_reload_segments\<close> of boot/boot.s set.
\<close>

section \<open>Descriptors\<close>

record gdt_entry_access_t =
  accessed :: "1 word"
  read_write :: "1 word"
  direction_conforming :: "1 word"
  exec :: "1 word"
  desc_type :: "1 word"
  desc_priv_lvl :: "2 word"
  present :: "1 word"

definition gdt_entry_access_t_new :: "u8 \<Rightarrow> u8 \<Rightarrow> u8 \<Rightarrow> u8 \<Rightarrow> u8 \<Rightarrow> u8 \<Rightarrow> gdt_entry_access_t" where
  "gdt_entry_access_t_new accessed0 read_write0 direction_conforming0 exec0 desc_type0 desc_priv_lvl0 =
     \<lparr>accessed = ucast (accessed0 AND 1), read_write = ucast (read_write0 AND 1),
      direction_conforming = ucast (direction_conforming0 AND 1), exec = ucast (exec0 AND 1),
      desc_type = ucast (desc_type0 AND 1), desc_priv_lvl = ucast (desc_priv_lvl0 AND 3), present = 1\<rparr>"

record gdt_entry_t =
  limit_low :: "16 word"
  base_low :: "24 word"
  access :: gdt_entry_access_t
  limit_high :: "4 word"
  res :: "1 word"
  long_mode :: "1 word"
  db :: "1 word"
  granularity :: "1 word"
  base_high :: "8 word"

definition gdt_entry_t_new ::
  "1 word \<Rightarrow> u32 \<Rightarrow> u32 \<Rightarrow> u8 \<Rightarrow> u8 \<Rightarrow> u8 \<Rightarrow> gdt_entry_access_t \<Rightarrow> gdt_entry_t" where
  "gdt_entry_t_new res0 base limit long_mode0 db0 granularity0 access0 =
     \<lparr>limit_low = ucast (limit AND (push_bit 16 1 - 1)), base_low = ucast (base AND (push_bit 24 1 - 1)),
      access = access0, limit_high = ucast (drop_bit 16 limit AND (push_bit 4 1 - 1)), res = res0,
      long_mode = ucast (long_mode0 AND 1), db = ucast (db0 AND 1), granularity = ucast (granularity0 AND 1),
      base_high = ucast (drop_bit 24 base AND (push_bit 8 1 - 1))\<rparr>"

text \<open>\<open>gdt_entry_t() = default\<close> in the zero-initialised array \<open>GDT\<close>.\<close>

definition gdt_entry_zero :: gdt_entry_t where
  "gdt_entry_zero =
     \<lparr>limit_low = 0, base_low = 0,
      access = \<lparr>accessed = 0, read_write = 0, direction_conforming = 0, exec = 0, desc_type = 0,
        desc_priv_lvl = 0, present = 0\<rparr>,
      limit_high = 0, res = 0, long_mode = 0, db = 0, granularity = 0, base_high = 0\<rparr>"

text \<open>The accessors, with the logical \<open>||\<close> of the code.\<close>

definition gdt_base :: "gdt_entry_t \<Rightarrow> u32" where
  "gdt_base e = (if base_low e \<noteq> 0 \<or> push_bit 24 (ucast (base_high e) :: u32) \<noteq> 0 then 1 else 0)"

definition gdt_limit :: "gdt_entry_t \<Rightarrow> u32" where
  "gdt_limit e = (if limit_low e \<noteq> 0 \<or> push_bit 16 (ucast (limit_high e) :: u32) \<noteq> 0 then 1 else 0)"

definition gdt_set_base :: "u32 \<Rightarrow> gdt_entry_t \<Rightarrow> gdt_entry_t" where
  "gdt_set_base base e =
     e\<lparr>base_low := ucast (base AND (push_bit 24 1 - 1)), base_high := ucast (drop_bit 23 base AND (push_bit 8 1 - 1))\<rparr>"

definition gdt_widths :: "nat list" where
  "gdt_widths = [16, 24, 1, 1, 1, 1, 1, 2, 1, 4, 1, 1, 1, 1, 8]"

definition gdt_fields :: "gdt_entry_t \<Rightarrow> u64 list" where
  "gdt_fields e =
     [ucast (limit_low e), ucast (base_low e), ucast (accessed (access e)), ucast (read_write (access e)),
      ucast (direction_conforming (access e)), ucast (exec (access e)), ucast (desc_type (access e)),
      ucast (desc_priv_lvl (access e)), ucast (present (access e)), ucast (limit_high e), ucast (res e),
      ucast (long_mode e), ucast (db e), ucast (granularity e), ucast (base_high e)]"

definition gdt_build :: "u64 list \<Rightarrow> gdt_entry_t" where
  "gdt_build vs =
     \<lparr>limit_low = ucast (vs ! 0), base_low = ucast (vs ! 1),
      access = \<lparr>accessed = ucast (vs ! 2), read_write = ucast (vs ! 3), direction_conforming = ucast (vs ! 4),
        exec = ucast (vs ! 5), desc_type = ucast (vs ! 6), desc_priv_lvl = ucast (vs ! 7), present = ucast (vs ! 8)\<rparr>,
      limit_high = ucast (vs ! 9), res = ucast (vs ! 10), long_mode = ucast (vs ! 11), db = ucast (vs ! 12),
      granularity = ucast (vs ! 13), base_high = ucast (vs ! 14)\<rparr>"

interpretation gdt_entry: packed_struct gdt_widths gdt_fields gdt_build
  by unfold_locales
    (auto simp: gdt_widths_def gdt_fields_def gdt_build_def length_Suc_conv ucast_ucast_field ucast_bit_field)

section \<open>The table\<close>

abbreviation KERNEL_CODE_SELECTOR :: nat where "KERNEL_CODE_SELECTOR \<equiv> 1"
abbreviation KERNEL_DATA_SELECTOR :: nat where "KERNEL_DATA_SELECTOR \<equiv> 2"
abbreviation USER_CODE_SELECTOR :: nat where "USER_CODE_SELECTOR \<equiv> 3"
abbreviation USER_DATA_SELECTOR :: nat where "USER_DATA_SELECTOR \<equiv> 4"
abbreviation GDT_SIZE :: nat where "GDT_SIZE \<equiv> 6"

record cpu_segments =
  gdtr_base :: "gdt_entry_t list"
  gdtr_limit :: u16
  code_selector :: u16
  data_selectors :: u16

definition init_kernel_code_segment :: "1 word \<Rightarrow> nat \<Rightarrow> gdt_entry_t list \<Rightarrow> gdt_entry_t list" where
  "init_kernel_code_segment res0 ind GDT =
     GDT[ind := gdt_entry_t_new res0 0 0xfffff 1 0 1 (gdt_entry_access_t_new 0 1 0 1 1 0)]"

definition init_kernel_data_segment :: "1 word \<Rightarrow> nat \<Rightarrow> gdt_entry_t list \<Rightarrow> gdt_entry_t list" where
  "init_kernel_data_segment res0 ind GDT =
     GDT[ind := gdt_entry_t_new res0 0 0xfffff 1 0 1 (gdt_entry_access_t_new 0 1 0 0 1 0)]"

definition init_user_code_segment :: "1 word \<Rightarrow> nat \<Rightarrow> gdt_entry_t list \<Rightarrow> gdt_entry_t list" where
  "init_user_code_segment res0 ind GDT =
     GDT[ind := gdt_entry_t_new res0 0 0xfffff 1 0 1 (gdt_entry_access_t_new 0 1 0 1 1 3)]"

definition init_user_data_segment :: "1 word \<Rightarrow> nat \<Rightarrow> gdt_entry_t list \<Rightarrow> gdt_entry_t list" where
  "init_user_data_segment res0 ind GDT =
     GDT[ind := gdt_entry_t_new res0 0 0xfffff 1 0 1 (gdt_entry_access_t_new 0 1 0 0 1 3)]"

definition load_gdt :: "gdt_entry_t list \<Rightarrow> u16 \<Rightarrow> cpu_segments \<Rightarrow> cpu_segments" where
  "load_gdt GDT limit c = c\<lparr>gdtr_base := GDT, gdtr_limit := limit\<rparr>"

definition reload_segments :: "cpu_segments \<Rightarrow> cpu_segments" where
  "reload_segments c = c\<lparr>code_selector := 0x0008, data_selectors := 0x0010\<rparr>"

definition init_gdt :: "1 word \<Rightarrow> gdt_entry_t list \<times> cpu_segments \<Rightarrow> gdt_entry_t list \<times> cpu_segments" where
  "init_gdt res0 s =
     (let GDT = init_user_data_segment res0 USER_DATA_SELECTOR (init_user_code_segment res0 USER_CODE_SELECTOR
                  (init_kernel_data_segment res0 KERNEL_DATA_SELECTOR (init_kernel_code_segment res0 KERNEL_CODE_SELECTOR (fst s))))
      in (GDT, reload_segments (load_gdt GDT (of_nat GDT_SIZE * 8 - 1) (snd s))))"

definition GDT0 :: "gdt_entry_t list" where
  "GDT0 = replicate GDT_SIZE gdt_entry_zero"

section \<open>Properties\<close>

lemma mask_and: "(x :: u32) AND (push_bit n 1 - 1) = take_bit n x"
  by (simp add: take_bit_eq_mask mask_eq_decr_exp)

definition real_base :: "gdt_entry_t \<Rightarrow> u32" where
  "real_base e = ucast (base_low e) OR push_bit 24 (ucast (base_high e))"

definition real_limit :: "gdt_entry_t \<Rightarrow> u32" where
  "real_limit e = ucast (limit_low e) OR push_bit 16 (ucast (limit_high e))"

lemma gdt_new_base: "real_base (gdt_entry_t_new res0 base limit l db0 g acc) = base"
  by (rule bit_word_eqI)
    (auto simp: real_base_def gdt_entry_t_new_def bit_simps mask_and simp del: push_bit_of_1)

lemma gdt_new_limit: "real_limit (gdt_entry_t_new res0 base limit l db0 g acc) = take_bit 20 limit"
  by (rule bit_word_eqI)
    (auto simp: real_limit_def gdt_entry_t_new_def bit_simps mask_and simp del: push_bit_of_1)

lemma ucast_zero_iff: "LENGTH('a::len) \<le> 32 \<Longrightarrow> (ucast (x :: 'a word) :: u32) = 0 \<longleftrightarrow> x = 0"
  using bit_imp_le_length [of x] by (fastforce simp: bit_eq_iff bit_simps)

lemma gdt_base_eq: "gdt_base e = (if real_base e = 0 then 0 else 1)"
proof -
  have "real_base e = 0 \<longleftrightarrow> base_low e = 0 \<and> push_bit 24 (ucast (base_high e) :: u32) = 0"
    by (simp add: real_base_def or_eq_0_iff ucast_zero_iff)
  then show ?thesis by (simp add: gdt_base_def)
qed

lemma gdt_limit_eq: "gdt_limit e = (if real_limit e = 0 then 0 else 1)"
proof -
  have "real_limit e = 0 \<longleftrightarrow> limit_low e = 0 \<and> push_bit 16 (ucast (limit_high e) :: u32) = 0"
    by (simp add: real_limit_def or_eq_0_iff ucast_zero_iff)
  then show ?thesis by (simp add: gdt_limit_def)
qed

lemma GDT0_cells: "GDT0 = [gdt_entry_zero, gdt_entry_zero, gdt_entry_zero, gdt_entry_zero, gdt_entry_zero, gdt_entry_zero]"
  by (simp add: GDT0_def numeral_eq_Suc)

lemma six_updates:
  "[a, b, c, d, e, f][Suc 0 := v, 2 := w, 3 := x, 4 := y] = [a, v, w, x, y, f]"
  by (simp add: numeral_eq_Suc)

lemma segment_words:
  "pack_fields gdt_widths (gdt_fields gdt_entry_zero) = 0"
  "pack_fields gdt_widths (gdt_fields (gdt_entry_t_new 0 0 0xfffff 1 0 1 (gdt_entry_access_t_new 0 1 0 1 1 0))) = 0x00AF9A000000FFFF"
  "pack_fields gdt_widths (gdt_fields (gdt_entry_t_new 0 0 0xfffff 1 0 1 (gdt_entry_access_t_new 0 1 0 0 1 0))) = 0x00AF92000000FFFF"
  "pack_fields gdt_widths (gdt_fields (gdt_entry_t_new 0 0 0xfffff 1 0 1 (gdt_entry_access_t_new 0 1 0 1 1 3))) = 0x00AFFA000000FFFF"
  "pack_fields gdt_widths (gdt_fields (gdt_entry_t_new 0 0 0xfffff 1 0 1 (gdt_entry_access_t_new 0 1 0 0 1 3))) = 0x00AFF2000000FFFF"
  "pack_fields gdt_widths (gdt_fields (gdt_entry_t_new 1 0 0xfffff 1 0 1 (gdt_entry_access_t_new 0 1 0 1 1 0))) = 0x00BF9A000000FFFF"
  "pack_fields gdt_widths (gdt_fields (gdt_entry_t_new 1 0 0xfffff 1 0 1 (gdt_entry_access_t_new 0 1 0 0 1 0))) = 0x00BF92000000FFFF"
  "pack_fields gdt_widths (gdt_fields (gdt_entry_t_new 1 0 0xfffff 1 0 1 (gdt_entry_access_t_new 0 1 0 1 1 3))) = 0x00BFFA000000FFFF"
  "pack_fields gdt_widths (gdt_fields (gdt_entry_t_new 1 0 0xfffff 1 0 1 (gdt_entry_access_t_new 0 1 0 0 1 3))) = 0x00BFF2000000FFFF"
  by (simp_all add: gdt_widths_def gdt_fields_def gdt_entry_zero_def gdt_entry_t_new_def gdt_entry_access_t_new_def)

text \<open>
  C27: \<open>init_gdt\<close>: whatever the uninitialised bit, the table the processor is given has six
  descriptors with a limit of 47 bytes: null, ring-0 64-bit code, ring-0 data, ring-3 64-bit code,
  ring-3 data and null, each of the four with base 0 and a limit of \<open>0xfffff\<close> pages, as the words the
  processor reads (only bit 52, ignored, is left open); the code selector names the ring-0 code descriptor
  and the data selectors the ring-0 data descriptor.
\<close>

theorem init_gdt_descriptors:
  "let (GDT, c) = init_gdt res0 (GDT0, c0);
       open_bit = push_bit 52 (ucast res0)
   in map (\<lambda>e. pack_fields gdt_widths (gdt_fields e)) (gdtr_base c) =
        [0, 0x00AF9A000000FFFF OR open_bit, 0x00AF92000000FFFF OR open_bit,
         0x00AFFA000000FFFF OR open_bit, 0x00AFF2000000FFFF OR open_bit, 0] \<and>
      gdtr_base c = GDT \<and> unat (gdtr_limit c) + 1 = 8 * length GDT \<and>
      gdtr_base c ! unat (drop_bit 3 (code_selector c)) = GDT ! 1 \<and>
      gdtr_base c ! unat (drop_bit 3 (data_selectors c)) = GDT ! 2"
proof -
  have "uint res0 < 2" using uint_lt2p [of res0] by simp
  then have "uint res0 = 0 \<or> uint res0 = 1" using uint_ge_0 [of res0] by linarith
  then have "res0 = 0 \<or> res0 = 1" by (auto simp: word_uint_eq_iff)
  then show ?thesis
    by (elim disjE) (simp_all add: init_gdt_def Let_def GDT0_cells six_updates init_user_data_segment_def
        init_user_code_segment_def init_kernel_data_segment_def init_kernel_code_segment_def load_gdt_def
        reload_segments_def segment_words segment_words [unfolded One_nat_def])
qed

text \<open>
  The constructor stores the base in full and the low 20 bits of the limit, where the processor
  reads them, but the accessors \<open>base()\<close> and \<open>limit()\<close> return only whether these are nonzero.
\<close>

theorem gdt_entry_accessors:
  "let e = gdt_entry_t_new res0 base limit l d g acc
   in real_base e = base \<and> real_limit e = take_bit 20 limit \<and>
      gdt_base e = (if base = 0 then 0 else 1) \<and> gdt_limit e = (if take_bit 20 limit = 0 then 0 else 1)"
  by (simp add: Let_def gdt_new_base gdt_new_limit gdt_base_eq gdt_limit_eq)

text \<open>
  \<open>set_base\<close> stores the base it is given exactly when the upper nine bits of the base are all
  equal: it takes the high byte from bit 23 on instead of bit 24.
\<close>

theorem set_base_stores_iff:
  "real_base (gdt_set_base base e) = base \<longleftrightarrow> base < 2 ^ 23 \<or> 0xFF800000 \<le> base"
proof -
  let ?n = "unat base div 2 ^ 23"
  have "real_base (gdt_set_base base e) = take_bit 24 base OR push_bit 24 (take_bit 8 (drop_bit 23 base))"
    by (rule bit_word_eqI)
      (auto simp: real_base_def gdt_set_base_def bit_simps mask_and simp del: push_bit_of_1)
  moreover have "take_bit 24 base OR push_bit 24 (take_bit 8 (drop_bit 23 base)) = base \<longleftrightarrow>
      drop_bit 24 base = take_bit 8 (drop_bit 23 base)"
  proof
    assume "take_bit 24 base OR push_bit 24 (take_bit 8 (drop_bit 23 base)) = base"
    then have "drop_bit 24 base = drop_bit 24 (take_bit 24 base OR push_bit 24 (take_bit 8 (drop_bit 23 base)))" by simp
    also have "\<dots> = take_bit 8 (drop_bit 23 base)" by (rule bit_word_eqI) (auto simp: bit_simps)
    finally show "drop_bit 24 base = take_bit 8 (drop_bit 23 base)" .
  next
    assume "drop_bit 24 base = take_bit 8 (drop_bit 23 base)"
    from this [symmetric] show "take_bit 24 base OR push_bit 24 (take_bit 8 (drop_bit 23 base)) = base"
      by (simp only:) (rule bit_word_eqI, rename_tac n, case_tac "n < 24", auto simp: bit_simps)
  qed
  moreover have "drop_bit 24 base = take_bit 8 (drop_bit 23 base) \<longleftrightarrow> ?n div 2 = ?n mod 256"
  proof -
    have "unat (drop_bit 24 base) = ?n div 2" "unat (take_bit 8 (drop_bit 23 base)) = ?n mod 256"
      by (simp_all only: unsigned_take_bit_eq unat_drop_bit_eq)
        (simp_all add: take_bit_eq_mod drop_bit_eq_div div_mult2_eq [symmetric])
    then show ?thesis by (simp add: word_unat_eq_iff)
  qed
  moreover have "?n div 2 = ?n mod 256 \<longleftrightarrow> ?n = 0 \<or> ?n = 511"
  proof -
    have "?n < 512" using unat_u32_less [of base] by (intro less_mult_imp_div_less) simp
    then show ?thesis by (cases "?n < 256") (auto simp: mod_if)
  qed
  moreover have "?n = 511 \<longleftrightarrow> 0xFF800000 \<le> unat base"
  proof
    assume "?n = 511"
    then have "511 * 2 ^ 23 \<le> unat base" using div_times_less_eq_dividend [of "unat base" "2 ^ 23"] by simp
    then show "0xFF800000 \<le> unat base" by simp
  next
    assume "0xFF800000 \<le> unat base"
    then show "?n = 511" using unat_u32_less [of base] by (intro div_nat_eqI) simp_all
  qed
  ultimately show ?thesis by (simp add: word_le_nat_alt word_less_nat_alt div_eq_0_iff)
qed

end
