(* ===== verification/Interrupts.thy ===== *)
theory Interrupts
  imports Packed Pic Irq "HOL-Library.Signed_Division"
begin

text \<open>
  The interrupt descriptor table, the interval timer and \<open>init_interrupts\<close> (interrupts/interrupts.h,
  interrupts/interrupts.cpp). The constructor of \<open>gate_descriptor_t\<close> leaves \<open>ist\<close> uninitialised; the
  model takes it as an argument, the value the stack happens to hold. The addresses of the handlers,
  fixed by the linker, are an argument too.
\<close>

section \<open>Gate descriptors\<close>

datatype gate_type_e = INTERRUPT | TRAP

primrec gate_type_code :: "gate_type_e \<Rightarrow> 4 word" where
  "gate_type_code INTERRUPT = 0xe"
| "gate_type_code TRAP = 0xf"

record gate_descriptor_t =
  offset_low :: "16 word"
  selector :: "16 word"
  ist :: "3 word"
  gate_res :: "5 word"
  gate_type :: "4 word"
  zero_bit :: "1 word"
  priv :: "2 word"
  gate_present :: "1 word"
  offset_high :: "48 word"
  res2 :: "32 word"

definition gate_descriptor_t_new :: "3 word \<Rightarrow> u64 \<Rightarrow> gate_type_e \<Rightarrow> gate_descriptor_t" where
  "gate_descriptor_t_new ist0 isr_addr t =
     \<lparr>offset_low = ucast (isr_addr AND (push_bit 16 1 - 1)), selector = push_bit 3 1, ist = ist0, gate_res = 0,
      gate_type = gate_type_code t, zero_bit = 0, priv = 0, gate_present = 1,
      offset_high = ucast (drop_bit 16 isr_addr AND (push_bit 48 1 - 1)), res2 = 0\<rparr>"

definition gate_zero :: gate_descriptor_t where
  "gate_zero =
     \<lparr>offset_low = 0, selector = 0, ist = 0, gate_res = 0, gate_type = 0, zero_bit = 0, priv = 0,
      gate_present = 0, offset_high = 0, res2 = 0\<rparr>"

definition gate_widths :: "nat list" where
  "gate_widths = [16, 16, 3, 5, 4, 1, 2, 1, 48, 32]"

definition gate_fields :: "gate_descriptor_t \<Rightarrow> 128 word list" where
  "gate_fields e =
     [ucast (offset_low e), ucast (selector e), ucast (ist e), ucast (gate_res e), ucast (gate_type e),
      ucast (zero_bit e), ucast (priv e), ucast (gate_present e), ucast (offset_high e), ucast (res2 e)]"

definition gate_build :: "128 word list \<Rightarrow> gate_descriptor_t" where
  "gate_build vs =
     \<lparr>offset_low = ucast (vs ! 0), selector = ucast (vs ! 1), ist = ucast (vs ! 2), gate_res = ucast (vs ! 3),
      gate_type = ucast (vs ! 4), zero_bit = ucast (vs ! 5), priv = ucast (vs ! 6), gate_present = ucast (vs ! 7),
      offset_high = ucast (vs ! 8), res2 = ucast (vs ! 9)\<rparr>"

interpretation gate: packed_struct gate_widths gate_fields gate_build
  by unfold_locales
    (auto simp: gate_widths_def gate_fields_def gate_build_def length_Suc_conv ucast_ucast_field ucast_bit_field)

section \<open>Operations\<close>

definition register_routine ::
  "(nat \<Rightarrow> 3 word) \<Rightarrow> nat \<Rightarrow> u64 \<Rightarrow> gate_type_e \<Rightarrow> gate_descriptor_t list \<Rightarrow> gate_descriptor_t list result" where
  "register_routine ist0 index handler t IDT =
     (if index < length IDT then Inr (IDT[index := gate_descriptor_t_new (ist0 index) handler t])
      else Inl (Undefined ''write outside IDT''))"

definition register_routine_error ::
  "(nat \<Rightarrow> 3 word) \<Rightarrow> nat \<Rightarrow> u64 \<Rightarrow> gate_type_e \<Rightarrow> gate_descriptor_t list \<Rightarrow> gate_descriptor_t list result" where
  "register_routine_error ist0 index handler t IDT =
     (if index < length IDT then Inr (IDT[index := gate_descriptor_t_new (ist0 index) handler t])
      else Inl (Undefined ''write outside IDT''))"

text \<open>\<open>hz\<close> and \<open>divisor\<close> are of type \<open>int\<close>; the arguments of \<open>outb\<close> are converted to \<open>uint8_t\<close>.\<close>

definition timer_phase :: "'d io_bus \<Rightarrow> int \<Rightarrow> 'd \<Rightarrow> 'd result" where
  "timer_phase io hz d =
     (if hz = 0 then Inl (Undefined ''division by zero'')
      else let divisor = 1193180 sdiv hz
           in Inr (outbs io [(0x43, 0x36), (0x40, word_of_int (divisor AND 0xFF)), (0x40, word_of_int (drop_bit 8 divisor))] d))"

record handler_addrs =
  addr_divide_by_zero :: u64
  addr_timer :: u64
  addr_keyboard :: u64
  addr_double_fault :: u64
  addr_gen_prot_fault :: u64
  addr_page_fault :: u64

abbreviation IDT_SIZE :: u16 where "IDT_SIZE \<equiv> 256"
abbreviation pic_master_irq :: u8 where "pic_master_irq \<equiv> 0x20"
abbreviation pic_slave_irq :: u8 where "pic_slave_irq \<equiv> 0x28"

record 'd interrupts =
  IDT :: "gate_descriptor_t list"
  idtr :: "gate_descriptor_t list \<times> u16"
  interrupt_flag :: bool
  calc_me :: int
  pic_dev :: 'd

definition load_idt :: "gate_descriptor_t list \<Rightarrow> u16 \<Rightarrow> 'd interrupts \<Rightarrow> 'd interrupts" where
  "load_idt t idt_size s = s\<lparr>idtr := (t, idt_size)\<rparr>"

definition sti :: "'d interrupts \<Rightarrow> 'd interrupts" where
  "sti s = s\<lparr>interrupt_flag := True\<rparr>"

definition cli :: "'d interrupts \<Rightarrow> 'd interrupts" where
  "cli s = s\<lparr>interrupt_flag := False\<rparr>"

definition register_all ::
  "(nat \<Rightarrow> 3 word) \<Rightarrow> handler_addrs \<Rightarrow> gate_descriptor_t list \<Rightarrow> gate_descriptor_t list result" where
  "register_all ist0 h t0 =
     rbind (register_routine ist0 (irq_code DIV_ERROR) (addr_divide_by_zero h) TRAP t0) (\<lambda>t1.
     rbind (register_routine ist0 (irq_code TIMER) (addr_timer h) INTERRUPT t1) (\<lambda>t2.
     rbind (register_routine ist0 (irq_code KEYBOARD) (addr_keyboard h) INTERRUPT t2) (\<lambda>t3.
     rbind (register_routine ist0 (irq_code DOUBLE_FAULT) (addr_double_fault h) TRAP t3) (\<lambda>t4.
     rbind (register_routine_error ist0 (irq_code GENERAL_PROTECTION_FAULT) (addr_gen_prot_fault h) TRAP t4) (\<lambda>t5.
     register_routine_error ist0 (irq_code PAGE_FAULT) (addr_page_fault h) TRAP t5)))))"

definition init_interrupts ::
  "'d io_bus \<Rightarrow> (nat \<Rightarrow> 3 word) \<Rightarrow> handler_addrs \<Rightarrow> 'd interrupts \<Rightarrow> 'd interrupts result" where
  "init_interrupts io ist0 h s =
     rbind (register_all ist0 h (IDT s)) (\<lambda>t.
     rbind (remap io pic_master_irq pic_slave_irq (calc_me s, pic_dev s)) (\<lambda>(c, d1).
     rbind (unmask_line io (of_nat (irq_code TIMER) - pic_master_irq) d1) (\<lambda>d2.
     rbind (unmask_line io (of_nat (irq_code KEYBOARD) - pic_master_irq) d2) (\<lambda>d3.
     rbind (timer_phase io 1 d3) (\<lambda>d4.
     Inr (sti (load_idt t (IDT_SIZE * 16 - 1) (s\<lparr>IDT := t, calc_me := c, pic_dev := d4\<rparr>))))))))"

section \<open>Descriptors\<close>

definition gate_offset :: "gate_descriptor_t \<Rightarrow> u64" where
  "gate_offset e = ucast (offset_low e) OR push_bit 16 (ucast (offset_high e))"

lemma mask_and_u64: "(x :: u64) AND (push_bit n 1 - 1) = take_bit n x"
  by (simp add: take_bit_eq_mask mask_eq_decr_exp)

lemma gate_offset_new: "gate_offset (gate_descriptor_t_new i addr t) = addr"
  by (rule bit_word_eqI)
    (auto simp: gate_offset_def gate_descriptor_t_new_def mask_and_u64 bit_simps simp del: push_bit_of_1)

text \<open>
  C34: The gate descriptor as the processor reads it: the 128-bit word of a constructed gate has the
  handler's address split over bits 0 to 15 and 48 to 95, the kernel code selector 8 at bit 16, the
  type at bit 40 and the present bit 47; all other bits but the three of \<open>ist\<close> are clear. The
  address is read back unchanged, and the word determines the descriptor.
\<close>

theorem gate_descriptor_layout:
  "let e = gate_descriptor_t_new ist0 addr t; w = pack_fields gate_widths (gate_fields e)
   in w = take_bit 16 (ucast addr) OR push_bit 16 8 OR push_bit 32 (ucast ist0) OR
            push_bit 40 (ucast (gate_type_code t)) OR push_bit 47 1 OR push_bit 48 (ucast (drop_bit 16 addr)) \<and>
      gate_offset e = addr \<and> gate_build (unpack_fields gate_widths w) = e"
proof -
  have low: "ucast (ucast (take_bit 16 addr) :: 16 word) = (take_bit 16 (ucast addr) :: 128 word)"
    by (rule bit_word_eqI) (auto simp: bit_simps)
  have high: "take_bit 48 (ucast (ucast (take_bit 48 (drop_bit 16 addr)) :: 48 word)) = (ucast (drop_bit 16 addr) :: 128 word)"
    using bit_imp_le_length [of addr] by (intro bit_word_eqI) (fastforce simp: bit_simps)
  have sel: "ucast (push_bit 3 1 :: 16 word) = (8 :: 128 word)" by simp
  have "pack_fields gate_widths (gate_fields (gate_descriptor_t_new ist0 addr t)) =
      take_bit 16 (ucast addr) OR push_bit 16 8 OR push_bit 32 (ucast ist0) OR
        push_bit 40 (ucast (gate_type_code t)) OR push_bit 47 1 OR push_bit 48 (ucast (drop_bit 16 addr))"
    by (simp add: gate_widths_def gate_fields_def gate_descriptor_t_new_def mask_and_u64 low high ucast_ucast_field(2)
        push_bit_or or.assoc sel del: push_bit_of_1) (simp add: push_bit_eq_mult mult.commute)
  then show ?thesis
    using gate.decode_encode unfolding Let_def gate_offset_new by blast
qed

section \<open>The table\<close>

text \<open>Which handler serves a vector, and through which kind of gate.\<close>

definition routine_of :: "handler_addrs \<Rightarrow> nat \<Rightarrow> (u64 \<times> gate_type_e) option" where
  "routine_of h i =
     (if i = 0 then Some (addr_divide_by_zero h, TRAP)
      else if i = 8 then Some (addr_double_fault h, TRAP)
      else if i = 13 then Some (addr_gen_prot_fault h, TRAP)
      else if i = 14 then Some (addr_page_fault h, TRAP)
      else if i = 32 then Some (addr_timer h, INTERRUPT)
      else if i = 33 then Some (addr_keyboard h, INTERRUPT)
      else None)"

definition installed :: "(nat \<Rightarrow> 3 word) \<Rightarrow> handler_addrs \<Rightarrow> gate_descriptor_t list \<Rightarrow> gate_descriptor_t list \<Rightarrow> bool" where
  "installed ist0 h t0 t \<longleftrightarrow> length t = 256 \<and> (\<forall>i < 256. t ! i =
     (case routine_of h i of Some (addr, k) \<Rightarrow> gate_descriptor_t_new (ist0 i) addr k | None \<Rightarrow> t0 ! i))"

lemma register_all_installs:
  assumes "length t0 = 256"
  shows "\<exists>t. register_all ist0 h t0 = Inr t \<and> installed ist0 h t0 t"
  using assms
  by (auto simp: register_all_def register_routine_def register_routine_error_def installed_def routine_of_def
      nth_list_update)

section \<open>The interval timer\<close>

text \<open>
  Channel 0 of the 8254: after the command \<open>0x36\<close> (channel 0, low byte then high byte, mode 3) the
  two writes to port \<open>0x40\<close> give the low and the high byte of the reload value.
\<close>

record pit =
  pit_stage :: nat
  pit_low :: u8
  reload :: u16

definition pit_write :: "u16 \<Rightarrow> u8 \<Rightarrow> pit \<Rightarrow> pit" where
  "pit_write port v p =
     (if port = 0x43 then (if v = 0x36 then p\<lparr>pit_stage := 1\<rparr> else p)
      else if port = 0x40 then
        (if pit_stage p = 1 then p\<lparr>pit_low := v, pit_stage := 2\<rparr>
         else if pit_stage p = 2 then p\<lparr>reload := ucast (pit_low p) OR push_bit 8 (ucast v), pit_stage := 0\<rparr>
         else p)
      else p)"

definition pit_at :: "'d io_bus \<Rightarrow> ('d \<Rightarrow> pit) \<Rightarrow> bool" where
  "pit_at io view \<longleftrightarrow> (\<forall>port v d. view (dev_out io port v d) = pit_write port v (view d))"

lemma reload_bytes:
  "ucast (word_of_int (n AND 0xFF) :: u8) OR push_bit 8 (ucast (word_of_int (drop_bit 8 n) :: u8)) = (word_of_int n :: u16)"
proof -
  have "(0xFF :: int) = mask 8" by (simp add: mask_numeral)
  then have "word_of_int (n AND 0xFF) = (word_of_int (take_bit 8 n) :: u8)" by (simp only: take_bit_eq_mask)
  then show ?thesis by (simp only:) (rule bit_word_eqI, auto simp: bit_simps)
qed

text \<open>
  C36: The timer rate. For every frequency from 1 Hz up, \<open>timer_phase\<close> returns and loads the timer
  with the divisor modulo \<open>2 ^ 16\<close>; that is the divisor itself exactly from 19 Hz on. The kernel asks
  for 1 Hz, whose divisor does not fit, and gets the reload value 13532, about 88 interrupts a second.
\<close>

theorem timer_phase_loads:
  assumes "pit_at io view" "1 \<le> hz" "hz \<le> 1193180"
  shows "\<exists>d'. timer_phase io hz d = Inr d' \<and> unat (reload (view d')) = nat (1193180 div hz) mod 2 ^ 16 \<and>
    (unat (reload (view d')) = nat (1193180 div hz) \<longleftrightarrow> 19 \<le> hz) \<and> (hz = 1 \<longrightarrow> unat (reload (view d')) = 13532)"
proof -
  let ?n = "1193180 div hz"
  have sdiv: "1193180 sdiv hz = ?n" using assms(2) by (simp add: signed_divide_int_def)
  have n: "0 \<le> ?n" using assms(2) by (simp add: pos_imp_zdiv_nonneg_iff)
  define d' where "d' = outbs io [(0x43, 0x36), (0x40, word_of_int (?n AND 0xFF)), (0x40, word_of_int (drop_bit 8 ?n))] d"
  have run: "timer_phase io hz d = Inr d'" using assms(2) by (simp add: timer_phase_def Let_def sdiv d'_def)
  have "reload (view d') = word_of_int ?n"
    using assms(1) reload_bytes [of ?n] by (simp add: d'_def pit_at_def outb_def pit_write_def)
  then have r: "unat (reload (view d')) = nat ?n mod 2 ^ 16"
    using n by (simp add: unsigned_of_int take_bit_eq_mod nat_mod_distrib)
  have "nat ?n mod 2 ^ 16 = nat ?n \<longleftrightarrow> nat ?n < 2 ^ 16"
    by (metis mod_less mod_less_divisor zero_less_numeral zero_less_power)
  also have "\<dots> \<longleftrightarrow> ?n < 2 ^ 16" by auto
  also have "\<dots> \<longleftrightarrow> 19 \<le> hz"
    using assms(2) zdiv_mono2 [of 1193180 19 hz] zdiv_mono2 [of 1193180 hz 18] by (cases "19 \<le> hz") simp_all
  finally show ?thesis
    using r run by auto
qed

definition pit_bus :: "pit io_bus" where
  "pit_bus = \<lparr>dev_in = (\<lambda>port p. (0, p)), dev_out = pit_write\<rparr>"

theorem timer_phase_loads_witness:
  "pit_at pit_bus (\<lambda>p. p) \<and>
   (\<exists>d'. timer_phase pit_bus 1 \<lparr>pit_stage = 0, pit_low = 0, reload = 0\<rparr> = Inr d' \<and> unat (reload d') = 13532)"
proof -
  have "pit_at pit_bus (\<lambda>p. p)" by (simp add: pit_at_def pit_bus_def)
  with timer_phase_loads [OF this, of 1] show ?thesis by auto
qed

section \<open>Initialization\<close>

definition clear_line :: "nat \<Rightarrow> u8 \<Rightarrow> u8" where
  "clear_line n b = ucast ((ucast b :: u32) AND NOT (push_bit n 1))"

lemma bit_clear_line': "bit (clear_line n b) k \<longleftrightarrow> bit b k \<and> k \<noteq> n"
  unfolding clear_line_def by (rule bit_clear_line)

lemma unmask_view:
  assumes "pics_at io view" "operating (view d)" "irq_line < 8"
  shows "\<exists>d'. unmask_line io irq_line d = Inr d' \<and>
    view d' = (view d)\<lparr>master := (master (view d))\<lparr>imr := clear_line (unat irq_line) (imr (master (view d)))\<rparr>\<rparr>"
  using assms(2,3)
  by (simp add: unmask_line_def line_port_def line_bit_def case_prod_unfold pics_atD [OF assms(1)] operating_def
      pics_write_def pic_data_def word_less_nat_alt clear_line_def)

lemma timer_keeps_pics: "pics_at io view \<Longrightarrow> \<exists>d'. timer_phase io 1 d = Inr d' \<and> view d' = view d"
  by (simp add: timer_phase_def Let_def pics_atD pics_write_def)

lemma init_ready:
  assumes "pics_at io view" "operating (view (pic_dev s))" "length (IDT s) = 256"
    "- (2 ^ 31) + 4000 \<le> calc_me s" "calc_me s < 2 ^ 31 - 500"
  shows "\<exists>s'. init_interrupts io ist0 h s = Inr s' \<and> interrupt_flag s' \<and>
    idtr s' = (IDT s', 4095) \<and> installed ist0 h (IDT s) (IDT s') \<and>
    (\<exists>m sl. view (pic_dev s') = with_masks m sl (remapped 0x20 0x28 (view (pic_dev s)))) \<and>
    (\<forall>k < 16. line_masked (view (pic_dev s')) k \<longleftrightarrow> 2 \<le> k \<and> line_masked (view (pic_dev s)) k) \<and>
    (let base = unat (vector_base (master (view (pic_dev s')))) in
      gate_offset (IDT s' ! (base + 0)) = addr_timer h \<and> gate_offset (IDT s' ! (base + 1)) = addr_keyboard h)"
proof -
  obtain t where t: "register_all ist0 h (IDT s) = Inr t" "installed ist0 h (IDT s) t"
    using register_all_installs [OF assms(3)] by blast
  obtain d1 where d1: "remap io 0x20 0x28 (calc_me s, pic_dev s) = Inr (calc_me s - 4000, d1)"
    "view d1 = remapped 0x20 0x28 (view (pic_dev s))"
    using remap_runs [OF assms(1,2,4,5)] by blast
  have o1: "operating (view d1)" by (simp add: d1(2) operating_def remapped_def)
  obtain d2 where d2: "unmask_line io 0 d1 = Inr d2" "view d2 = (view d1)\<lparr>master := (master (view d1))\<lparr>imr :=
      clear_line 0 (imr (master (view d1)))\<rparr>\<rparr>"
    using unmask_view [OF assms(1) o1, of 0] by auto
  have o2: "operating (view d2)" using o1 by (simp add: d2(2) operating_def)
  obtain d3 where d3: "unmask_line io 1 d2 = Inr d3" "view d3 = (view d2)\<lparr>master := (master (view d2))\<lparr>imr :=
      clear_line 1 (imr (master (view d2)))\<rparr>\<rparr>"
    using unmask_view [OF assms(1) o2, of 1] by auto
  obtain d4 where d4: "timer_phase io 1 d3 = Inr d4" "view d4 = view d3" using timer_keeps_pics [OF assms(1)] by blast
  define s' where "s' = sti (load_idt t 4095 (s\<lparr>IDT := t, calc_me := calc_me s - 4000, pic_dev := d4\<rparr>))"
  have s': "IDT s' = t" "pic_dev s' = d4" "idtr s' = (t, 4095)" "interrupt_flag s'"
    by (simp_all add: s'_def sti_def load_idt_def)
  have run: "init_interrupts io ist0 h s = Inr s'"
    using d2(1) d3(1) d4(1) by (simp add: init_interrupts_def t d1 s'_def)
  have masks: "\<exists>m sl. view d4 = with_masks m sl (remapped 0x20 0x28 (view (pic_dev s)))"
    by (rule exI [of _ "imr (master (view d4))"], rule exI [of _ "imr (slave (view d4))"])
      (simp add: d4(2) d3(2) d2(2) d1(2) with_masks_def remapped_def)
  have lines: "line_masked (view d4) k \<longleftrightarrow> 2 \<le> k \<and> line_masked (view (pic_dev s)) k" for k
    unfolding d4(2) d3(2) d2(2) d1(2) by (auto simp: line_masked_def remapped_def bit_clear_line')
  have "vector_base (master (view d4)) = 0x20"
    by (simp add: d4(2) d3(2) d2(2) d1(2) remapped_def)
  moreover have "t ! 32 = gate_descriptor_t_new (ist0 32) (addr_timer h) INTERRUPT"
    "t ! 33 = gate_descriptor_t_new (ist0 33) (addr_keyboard h) INTERRUPT"
    using t(2) by (simp_all add: installed_def routine_of_def)
  ultimately show ?thesis
    using run s' t(2) masks lines by (auto simp: Let_def gate_offset_new)
qed

text \<open>
  C7: \<open>init_interrupts\<close> brings interrupts up consistently. From controllers in operation it returns
  with interrupts enabled and a table loaded (limit 4095, 256 gates) in which exactly the six
  handled vectors are new; both controllers are remapped to the vectors from \<open>0x20\<close> and \<open>0x28\<close>; lines 0 and 1
  are unmasked and no other mask changes; and the vectors these two lines raise are gates to
  the timer and keyboard handlers.
\<close>

theorem init_interrupts_ready:
  assumes "pics_at io view" "operating (view (pic_dev s))" "length (IDT s) = 256"
    "- (2 ^ 31) + 4000 \<le> calc_me s" "calc_me s < 2 ^ 31 - 500"
  shows "\<exists>s'. init_interrupts io ist0 h s = Inr s' \<and> interrupt_flag s' \<and>
    idtr s' = (IDT s', 4095) \<and> installed ist0 h (IDT s) (IDT s') \<and>
    (\<exists>m sl. view (pic_dev s') = with_masks m sl (remapped 0x20 0x28 (view (pic_dev s)))) \<and>
    (\<forall>k < 16. line_masked (view (pic_dev s')) k \<longleftrightarrow> 2 \<le> k \<and> line_masked (view (pic_dev s)) k) \<and>
    (let base = unat (vector_base (master (view (pic_dev s')))) in
      gate_offset (IDT s' ! (base + 0)) = addr_timer h \<and> gate_offset (IDT s' ! (base + 1)) = addr_keyboard h)"
  by (rule init_ready [OF assms])

theorem init_interrupts_ready_witness:
  "let s = \<lparr>IDT = replicate 256 gate_zero, idtr = ([], 0), interrupt_flag = False, calc_me = 0,
             pic_dev = \<lparr>master = pic0, slave = pic0\<rparr>\<rparr>;
       h = \<lparr>addr_divide_by_zero = 0x100, addr_timer = 0x200, addr_keyboard = 0x300, addr_double_fault = 0x400,
             addr_gen_prot_fault = 0x500, addr_page_fault = 0x600\<rparr>
   in pics_at pics_bus (\<lambda>ps. ps) \<and> operating (pic_dev s) \<and>
      (\<exists>s'. init_interrupts pics_bus (\<lambda>_. 0) h s = Inr s' \<and> interrupt_flag s' \<and> \<not> line_masked (pic_dev s') 1)"
proof -
  let ?s = "\<lparr>IDT = replicate 256 gate_zero, idtr = ([], 0), interrupt_flag = False, calc_me = 0,
             pic_dev = \<lparr>master = pic0, slave = pic0\<rparr>\<rparr> :: pics interrupts"
  have op: "operating (pic_dev ?s)" by (simp add: operating_def pic0_def)
  have "length (IDT ?s) = 256" "- (2 ^ 31) + 4000 \<le> calc_me ?s" "calc_me ?s < 2 ^ 31 - 500" by simp_all
  from init_interrupts_ready [OF pics_bus_at op this] obtain s' where
    "init_interrupts pics_bus (\<lambda>_. 0) \<lparr>addr_divide_by_zero = 0x100, addr_timer = 0x200, addr_keyboard = 0x300,
      addr_double_fault = 0x400, addr_gen_prot_fault = 0x500, addr_page_fault = 0x600\<rparr> ?s = Inr s'"
    "interrupt_flag s'" "\<forall>k < 16. line_masked (pic_dev s') k \<longleftrightarrow> 2 \<le> k \<and> line_masked (pic_dev ?s) k"
    by blast
  then show ?thesis using op pics_bus_at by (auto simp: Let_def)
qed

end
