(* ===== verification/Multiboot.thy ===== *)
theory Multiboot
  imports Memory
begin

text \<open>
  The header the boot loader looks for and the parser of the boot information (multiboot/multiboot2.cpp, with the structs of
  multiboot2.h that they use). The parser walks the tags in memory until one of type 0; the walk may not end, so the loop is a
  partial function. The members of \<open>boot_info\<close> are uninitialised before the constructor runs: their
  initial contents are an argument.
\<close>

section \<open>Operations\<close>

definition MULTIBOOT2_HEADER_MAGIC :: u32 where "MULTIBOOT2_HEADER_MAGIC = 0xE85250D6"
definition MULTIBOOT_ARCHITECTURE_I386 :: u32 where "MULTIBOOT_ARCHITECTURE_I386 = 0"
definition MULTIBOOT_HEADER_TAG_END :: u16 where "MULTIBOOT_HEADER_TAG_END = 0"

abbreviation MULTIBOOT_TAG_TYPE_BASIC_MEMINFO :: u32 where "MULTIBOOT_TAG_TYPE_BASIC_MEMINFO \<equiv> 4"
abbreviation MULTIBOOT_TAG_TYPE_ELF_SECTIONS :: u32 where "MULTIBOOT_TAG_TYPE_ELF_SECTIONS \<equiv> 9"

record multiboot_header =
  mh_magic :: u32
  mh_architecture :: u32
  mh_header_length :: u32
  mh_checksum :: u32

record multiboot_header_tag =
  mt_type :: u16
  mt_flags :: u16
  mt_size :: u32

text \<open>The header by which the boot loader recognises the kernel (section \<open>.multiboot\<close> of boot/boot.s).\<close>

definition multiboot_section :: "multiboot_header \<times> multiboot_header_tag" where
  "multiboot_section =
     (let HEADER_LENGTH = 24;
          CHECKSUM = - (MULTIBOOT2_HEADER_MAGIC + MULTIBOOT_ARCHITECTURE_I386 + HEADER_LENGTH)
      in (\<lparr>mh_magic = MULTIBOOT2_HEADER_MAGIC, mh_architecture = MULTIBOOT_ARCHITECTURE_I386,
           mh_header_length = HEADER_LENGTH, mh_checksum = CHECKSUM\<rparr>,
          \<lparr>mt_type = MULTIBOOT_HEADER_TAG_END, mt_flags = 0, mt_size = 8\<rparr>))"

record multiboot_tag_basic_meminfo =
  mi_type :: u32
  mi_size :: u32
  mem_lower :: u32
  mem_upper :: u32

record multiboot_tag_elf_sections =
  es_type :: u32
  es_size :: u32
  es_num :: u32
  es_entsize :: u32
  es_shndx :: u32

record boot_info =
  meminfo :: multiboot_tag_basic_meminfo
  elf_sections :: multiboot_tag_elf_sections

definition tag_type :: "mem \<Rightarrow> u64 \<Rightarrow> u32" where
  "tag_type m tag = load32 m tag"

definition tag_size :: "mem \<Rightarrow> u64 \<Rightarrow> u32" where
  "tag_size m tag = load32 m (tag + 4)"

definition read_meminfo :: "mem \<Rightarrow> u64 \<Rightarrow> multiboot_tag_basic_meminfo" where
  "read_meminfo m tag =
     \<lparr>mi_type = load32 m tag, mi_size = load32 m (tag + 4), mem_lower = load32 m (tag + 8),
      mem_upper = load32 m (tag + 12)\<rparr>"

definition read_elf_sections :: "mem \<Rightarrow> u64 \<Rightarrow> multiboot_tag_elf_sections" where
  "read_elf_sections m tag =
     \<lparr>es_type = load32 m tag, es_size = load32 m (tag + 4), es_num = load32 m (tag + 8),
      es_entsize = load32 m (tag + 12), es_shndx = load32 m (tag + 16)\<rparr>"

definition round_up_8 :: "u32 \<Rightarrow> u32" where
  "round_up_8 num = (num + 7) AND (- 8)"

definition parse_tag_type :: "mem \<Rightarrow> u64 \<Rightarrow> boot_info \<Rightarrow> boot_info" where
  "parse_tag_type m tag info =
     (if tag_type m tag = MULTIBOOT_TAG_TYPE_BASIC_MEMINFO then info\<lparr>meminfo := read_meminfo m tag\<rparr>
      else if tag_type m tag = MULTIBOOT_TAG_TYPE_ELF_SECTIONS then info\<lparr>elf_sections := read_elf_sections m tag\<rparr>
      else info)"

text \<open>
  \<open>curr_tag += rounded >> 3\<close> moves the pointer by 8 bytes for each unit. \<open>header_size\<close> is counted
  down and never read.
\<close>

partial_function (option) tag_loop :: "mem \<Rightarrow> u64 \<Rightarrow> u32 \<Rightarrow> boot_info \<Rightarrow> boot_info option" where
  "tag_loop m curr_tag header_size info =
     (if tag_type m curr_tag = 0 then Some info
      else let rounded = round_up_8 (tag_size m curr_tag);
               next_tag = curr_tag + 8 * ucast (drop_bit 3 rounded)
           in tag_loop m next_tag (header_size - rounded) (parse_tag_type m next_tag info))"

definition boot_info_new :: "mem \<Rightarrow> u64 \<Rightarrow> boot_info \<Rightarrow> boot_info result" where
  "boot_info_new m info info0 = of_loop (tag_loop m (info + 8) (load32 m info) info0)"

section \<open>The header of the kernel\<close>

text \<open>
  What a loader of the multiboot 2 specification accepts: the magic number, the i386 entry, four words that sum to 0
  modulo \<open>2 ^ 32\<close>, and tags up to the length of the header, the last one of type 0 and size 8.
\<close>

lemma multiboot_section_accepted:
  "case multiboot_section of (h, t) \<Rightarrow>
     mh_magic h = 0xE85250D6 \<and> mh_architecture h = 0 \<and>
     mh_magic h + mh_architecture h + mh_header_length h + mh_checksum h = 0 \<and>
     mh_header_length h = 16 + mt_size t \<and> mt_type t = 0 \<and> mt_size t = 8"
  by (simp add: multiboot_section_def Let_def MULTIBOOT2_HEADER_MAGIC_def MULTIBOOT_ARCHITECTURE_I386_def MULTIBOOT_HEADER_TAG_END_def)

section \<open>The walk over the tags\<close>

definition next_tag :: "mem \<Rightarrow> u64 \<Rightarrow> u64" where
  "next_tag m tag = tag + 8 * ucast (drop_bit 3 (round_up_8 (tag_size m tag)))"

text \<open>
  The addresses of the tags from an address on, up to the terminating one: each tag is followed by
  the next one at its size, rounded up to a multiple of 8.
\<close>

primrec tags_from :: "mem \<Rightarrow> u64 \<Rightarrow> u64 list \<Rightarrow> bool" where
  "tags_from m a [] \<longleftrightarrow> tag_type m a = 0"
| "tags_from m a (t # ts) \<longleftrightarrow> t = a \<and> tag_type m a \<noteq> 0 \<and> unat (tag_size m a) + 7 < 2 ^ 32 \<and>
     tags_from m (a + of_nat (8 * ((unat (tag_size m a) + 7) div 8))) ts"

lemma round_up_8_unat: "round_up_8 n = of_nat (8 * (unat (n + 7) div 8))"
  using and_minus_power_two [of 3 "n + 7"] by (simp add: round_up_8_def)

lemma round_up_8_eq:
  assumes "unat n + 7 < 2 ^ 32"
  shows "unat (round_up_8 n) = 8 * ((unat n + 7) div 8)"
proof -
  have "unat (n + 7) = unat n + 7" using assms by (subst unat_plus_if_size) (simp add: word_size)
  moreover have "8 * ((unat n + 7) div 8) \<le> unat n + 7" by simp
  then have "8 * ((unat n + 7) div 8) < 2 ^ 32" using assms by linarith
  ultimately show ?thesis unfolding round_up_8_unat by (simp only: unat_of_nat_u32)
qed

lemma next_tag_eq:
  assumes "unat (tag_size m t) + 7 < 2 ^ 32"
  shows "next_tag m t = t + of_nat (8 * ((unat (tag_size m t) + 7) div 8))"
proof -
  have "unat (drop_bit 3 (round_up_8 (tag_size m t))) = (unat (tag_size m t) + 7) div 8"
    by (simp only: unat_drop_bit_eq) (simp add: drop_bit_eq_div round_up_8_eq [OF assms])
  then have "(ucast (drop_bit 3 (round_up_8 (tag_size m t))) :: u64) = of_nat ((unat (tag_size m t) + 7) div 8)"
    by (metis of_nat_unat)
  then show ?thesis by (simp add: next_tag_def)
qed

lemma parse_end: "tag_type m t = 0 \<Longrightarrow> parse_tag_type m t info = info"
  by (simp add: parse_tag_type_def)

lemma tag_loop_walk:
  "tags_from m a ts \<Longrightarrow> tag_loop m a hs info = Some (fold (parse_tag_type m) (tl ts) info)"
proof (induction ts arbitrary: a hs info)
  case Nil
  then show ?case by (subst tag_loop.simps) simp
next
  case (Cons t ts)
  let ?n = "next_tag m a"
  have n: "tags_from m ?n ts" "tag_type m a \<noteq> 0" using Cons.prems by (simp_all add: next_tag_eq)
  have step: "tag_loop m a hs info = tag_loop m ?n (hs - round_up_8 (tag_size m a)) (parse_tag_type m ?n info)"
    using n(2) by (subst tag_loop.simps) (simp add: next_tag_def Let_def)
  show ?case
  proof (cases ts)
    case Nil
    then have "tag_type m ?n = 0" using n(1) by simp
    then show ?thesis using Nil step Cons.IH [OF n(1)] by (simp add: parse_end)
  next
    case (Cons u us)
    then have "u = ?n" using n(1) by simp
    then show ?thesis using Cons step Cons.IH [OF n(1)] by simp
  qed
qed

lemma parsed_meminfo:
  "meminfo (fold (parse_tag_type m) ts info) =
     (if \<exists>t \<in> set ts. tag_type m t = 4 then read_meminfo m (last (filter (\<lambda>t. tag_type m t = 4) ts)) else meminfo info)"
  by (induction ts rule: rev_induct) (auto simp: parse_tag_type_def filter_empty_conv)

lemma parsed_elf_sections:
  "elf_sections (fold (parse_tag_type m) ts info) =
     (if \<exists>t \<in> set ts. tag_type m t = 9 then read_elf_sections m (last (filter (\<lambda>t. tag_type m t = 9) ts)) else elf_sections info)"
  by (induction ts rule: rev_induct) (auto simp: parse_tag_type_def filter_empty_conv)

lemma boot_info_meminfo:
  assumes "tags_from m (info + 8) (first # ts)" "\<exists>t \<in> set ts. tag_type m t = 4"
  shows "\<exists>bi. boot_info_new m info bi0 = Inr bi \<and> meminfo bi = read_meminfo m (last (filter (\<lambda>t. tag_type m t = 4) ts))"
  using tag_loop_walk [OF assms(1), of "load32 m info" bi0] assms(2) by (simp add: boot_info_new_def parsed_meminfo)

text \<open>
  C15: On a terminated list of tags the constructor ends and reads the tags behind the first one:
  the memory information is that of the last such tag among them, and likewise for the ELF sections;
  with no such tag the uninitialised member stays. The first tag of the list is never parsed.
\<close>

theorem boot_info_reads_tags:
  assumes "tags_from m (info + 8) (first # ts)"
  shows "\<exists>bi. boot_info_new m info bi0 = Inr bi \<and>
    meminfo bi = (if \<exists>t \<in> set ts. tag_type m t = 4
      then read_meminfo m (last (filter (\<lambda>t. tag_type m t = 4) ts)) else meminfo bi0) \<and>
    elf_sections bi = (if \<exists>t \<in> set ts. tag_type m t = 9
      then read_elf_sections m (last (filter (\<lambda>t. tag_type m t = 9) ts)) else elf_sections bi0)"
  using tag_loop_walk [OF assms, of "load32 m info" bi0]
  by (simp add: boot_info_new_def parsed_meminfo parsed_elf_sections)

text \<open>A small boot information: a memory tag first, an ELF tag, the terminator.\<close>

definition mb_example :: mem where
  "mb_example = (\<lambda>a. if a = 0x1008 then 4 else if a = 0x100C then 16 else if a = 0x1014 then 0x40 else
     if a = 0x1018 then 9 else if a = 0x101C then 24 else if a = 0x1020 then 3 else 0)"

definition mb_info0 :: boot_info where
  "mb_info0 =
     \<lparr>meminfo = \<lparr>mi_type = 0, mi_size = 0, mem_lower = 0, mem_upper = 0\<rparr>,
      elf_sections = \<lparr>es_type = 0, es_size = 0, es_num = 0, es_entsize = 0, es_shndx = 0\<rparr>\<rparr>"

lemma mb_example_loads:
  "load32 mb_example 0x1008 = 4" "load32 mb_example 0x100C = 16" "load32 mb_example 0x1018 = 9"
  "load32 mb_example 0x101C = 24" "load32 mb_example 0x1020 = 3" "load32 mb_example 0x1030 = 0"
  by (simp_all add: load32_bytes mb_example_def)

lemma tags_from_example: "tags_from mb_example (0x1000 + 8) [0x1008, 0x1018]"
  by (simp add: tag_type_def tag_size_def mb_example_loads)

theorem boot_info_reads_tags_witness:
  "tags_from mb_example (0x1000 + 8) [0x1008, 0x1018] \<and>
   (\<exists>bi. boot_info_new mb_example 0x1000 mb_info0 = Inr bi \<and> meminfo bi = meminfo mb_info0 \<and>
     es_num (elf_sections bi) = 3)"
  using tags_from_example boot_info_reads_tags [OF tags_from_example, of mb_info0]
  by (fastforce simp: tag_type_def mb_example_loads read_elf_sections_def simp del: tags_from.simps)

section \<open>Tags that stop the walk\<close>

lemma round_up_8_zero_iff: "round_up_8 n = 0 \<longleftrightarrow> n = 0 \<or> 0xFFFFFFF9 \<le> n"
proof (cases "unat n + 7 < 2 ^ 32")
  case True
  then have "round_up_8 n = 0 \<longleftrightarrow> (unat n + 7) div 8 = 0"
    using round_up_8_eq [OF True] unat_eq_0 [of "round_up_8 n"] by simp
  then show ?thesis using True by (auto simp: word_le_nat_alt unat_eq_0 div_eq_0_iff)
next
  case False
  have "unat (n + 7) = unat n + 7 - 2 ^ 32"
    using False by (subst unat_plus_if_size) (simp add: word_size)
  then have "unat (n + 7) < 8" using unat_u32_less [of n] False by simp
  then have "round_up_8 n = 0" unfolding round_up_8_unat by simp
  then show ?thesis using False by (simp add: word_le_nat_alt)
qed

lemma tag_loop_stuck: "tag_loop m a hs info = Some y \<Longrightarrow> tag_type m a = 0 \<or> next_tag m a \<noteq> a"
proof (induction rule: tag_loop.raw_induct [rotated, consumes 1, case_names 1])
  case (1 loop m a hs info y)
  show ?case
  proof (rule ccontr)
    assume "\<not> (tag_type m a = 0 \<or> next_tag m a \<noteq> a)"
    then have stuck: "tag_type m a \<noteq> 0" "next_tag m a = a" by simp_all
    have "loop m (next_tag m a) (hs - round_up_8 (tag_size m a)) (parse_tag_type m (next_tag m a) info) = Some y"
      using 1(2) stuck(1) by (simp add: next_tag_def Let_def)
    from 1(1) [OF this] stuck show False by simp
  qed
qed

text \<open>
  A tag whose size field is 0, or so large that rounding it up wraps around, keeps the
  constructor in its loop for ever when it comes first; the total size of the boot information is
  never consulted.
\<close>

theorem boot_info_bad_size_diverges:
  assumes "tag_type m (info + 8) \<noteq> 0" "tag_size m (info + 8) = 0 \<or> 0xFFFFFFF9 \<le> tag_size m (info + 8)"
  shows "boot_info_new m info bi0 = Inl Diverges"
proof -
  have "round_up_8 (tag_size m (info + 8)) = 0" using assms(2) by (simp only: round_up_8_zero_iff)
  then have "next_tag m (info + 8) = info + 8" by (simp add: next_tag_def)
  then have "tag_loop m (info + 8) (load32 m info) bi0 = None"
    using assms(1) tag_loop_stuck [of m "info + 8" "load32 m info" bi0] by (cases "tag_loop m (info + 8) (load32 m info) bi0") auto
  then show ?thesis by (simp add: boot_info_new_def)
qed

theorem boot_info_bad_size_diverges_witness:
  "let m = (\<lambda>a :: u64. if a = 8 then 4 else 0) in
     tag_type m (0 + 8) \<noteq> 0 \<and> tag_size m (0 + 8) = 0 \<and> boot_info_new m 0 mb_info0 = Inl Diverges"
proof -
  have "tag_type (\<lambda>a :: u64. if a = 8 then 4 else 0) (0 + 8) \<noteq> 0" "tag_size (\<lambda>a :: u64. if a = 8 then 4 else 0) (0 + 8) = 0"
    by (simp_all add: tag_type_def tag_size_def load32_bytes)
  with boot_info_bad_size_diverges [OF this(1) disjI1 [OF this(2)]] show ?thesis unfolding Let_def by blast
qed

end
