(* ===== verification/Kernel.thy ===== *)
theory Kernel
  imports PageAlloc Handlers Gdt Interrupts Multiboot
begin

text \<open>
  The entry point \<open>kernel_main\<close> (kernel.cpp), composed of the operations of the other theories in the
  order of the code. One device state, \<open>pic_dev\<close> of the interrupt state, stands for all hardware
  behind the ports. The run is sequential: interrupts that arrive after \<open>sti\<close> are not interleaved.
\<close>

section \<open>Operations\<close>

text \<open>
  What the program does not determine: the uninitialised bits and members, the addresses the linker
  chooses, the upper halves of the slots of two \<open>int\<close> arguments and the value of \<open>__FILE__\<close>.
\<close>

record environment =
  e_res0 :: "1 word"
  e_ist0 :: "nat \<Rightarrow> 3 word"
  e_handlers :: handler_addrs
  e_info0 :: boot_info
  e_hi_port :: u32
  e_hi_line :: u32
  e_file :: string

record 'd kernel =
  segments :: "gdt_entry_t list \<times> cpu_segments"
  ints :: "'d interrupts"
  scr :: video
  km :: kmem

definition kdev :: "'d kernel \<Rightarrow> 'd" where
  "kdev k = pic_dev (ints k)"

definition with_dev :: "'d \<Rightarrow> 'd kernel \<Rightarrow> 'd kernel" where
  "with_dev d k = k\<lparr>ints := (ints k)\<lparr>pic_dev := d\<rparr>\<rparr>"

definition on_dev :: "('d \<Rightarrow> 'd result) \<Rightarrow> 'd kernel \<Rightarrow> 'd kernel result" where
  "on_dev f k = rbind (f (kdev k)) (\<lambda>d. Inr (with_dev d k))"

lemma with_dev_simps [simp]:
  "kdev (with_dev d k) = d" "km (with_dev d k) = km k" "scr (with_dev d k) = scr k"
  "segments (with_dev d k) = segments k" "with_dev d (with_dev d' k) = with_dev d k"
  "interrupt_flag (ints (with_dev d k)) = interrupt_flag (ints k)" "IDT (ints (with_dev d k)) = IDT (ints k)"
  by (simp_all add: with_dev_def kdev_def)

definition kernel_start_up :: "'d io_bus \<Rightarrow> environment \<Rightarrow> u64 \<Rightarrow> 'd kernel \<Rightarrow> (boot_info \<times> 'd kernel) result" where
  "kernel_start_up io e multiboot2 k =
     (let k1 = k\<lparr>segments := init_gdt (e_res0 e) (segments k)\<rparr>
      in rbind (init_interrupts io (e_ist0 e) (e_handlers e) (ints k1)) (\<lambda>s.
         rbind (boot_info_new (k_mem (km k1)) multiboot2 (e_info0 e)) (\<lambda>info.
         let v1 = Video_clear (scr k1);
             v2 = set_color WHITE BLACK v1;
             v3 = Video_writestr (''Hello, World!'' @ [CHR 0x0A]) v2;
             v4 = Video_writestr (''is this thing working?'' @ [CHR 0x0A]) v3;
             v5 = Video_writestr (''Checking If port is valid...'' @ [CHR 0x0A]) v4
         in Inr (info, k1\<lparr>ints := s, scr := v5\<rparr>))))"

definition kernel_report :: "'d io_bus \<Rightarrow> SerialPort \<Rightarrow> environment \<Rightarrow> u64 \<Rightarrow> u64 \<Rightarrow> 'd kernel \<Rightarrow> 'd kernel result" where
  "kernel_report io p e page_table kernel_start k =
     rbind (on_dev (INFO io p ''System Up!'' (e_file e) (e_hi_line e) 29 ''kernel_main'') k) (\<lambda>k1.
     rbind (on_dev (SerialPort_printf io p (''the kernel page table value is %x.:16'' @ [CHR 0x0A])
       [VA_64 (load64 (k_mem (km k1)) (page_table + 8 * 0x1ff))]) k1) (\<lambda>k2.
     rbind (on_dev (SerialPort_printf io p (''The kernel takes up addresses %p to %p'' @ [CHR 0x0A])
       [VA_64 kernel_start, VA_64 (DumbAllocator_mem_end (k_dumb (km k2)))]) k2) (\<lambda>k3.
     on_dev (SerialPort_printf io p (''We have %x memory available.'' @ [CHR 0x0A])
       [VA_64 (page_count (km k3) * 0x1000)]) k3)))"

definition kernel_main ::
  "'d io_bus \<Rightarrow> SerialPort \<Rightarrow> environment \<Rightarrow> u64 \<Rightarrow> u64 \<Rightarrow> u64 \<Rightarrow> u64 \<Rightarrow> u64 \<Rightarrow> 'd kernel \<Rightarrow> (int \<times> 'd kernel) result" where
  "kernel_main io p e page_table kernel_start kernel_end kernel_virtual_base multiboot2 k =
     rbind (kernel_start_up io e multiboot2 k) (\<lambda>(info, k1).
     if is_valid p then
       rbind (Video_printf (''Port seems to be valid.'' @ [CHR 0x0A] @ ''port number is %x'' @ [CHR 0x0A])
         [VA_int (e_hi_port e) (ucast (portnum p))] (scr k1)) (\<lambda>v.
       let k2 = k1\<lparr>scr := v, km := paging_init kernel_virtual_base kernel_end
                  (ucast (drop_bit 2 (mem_upper (meminfo info)) + 0x120)) (km k1)\<rparr>
       in rbind (kernel_report io p e page_table kernel_start k2) (\<lambda>k3. Inr (0, k3)))
     else Inr (- 1, k1\<lparr>scr := Video_writestr (''nope. port is broken.'' @ [CHR 0x0A]) (scr k1)\<rparr>))"

section \<open>The serial port during start-up\<close>

text \<open>
  The other half of a chip at its ports: accesses to other ports do not reach it. The view may be of a UART or of anything
  else behind these ports.
\<close>

definition uart_elsewhere :: "'d io_bus \<Rightarrow> u16 \<Rightarrow> ('d \<Rightarrow> 'u) \<Rightarrow> bool" where
  "uart_elsewhere io base view \<longleftrightarrow>
     (\<forall>port v d. 8 \<le> port - base \<longrightarrow> view (dev_out io port v d) = view d \<and> view (snd (dev_in io port d)) = view d)"

lemma elsewhere_simps:
  assumes "uart_elsewhere io base view" "8 \<le> port - base"
  shows "view (outb io port v d) = view d" "view (snd (inb io port d)) = view d"
  using assms by (simp_all add: uart_elsewhere_def outb_def inb_def)

lemma outb_wait_elsewhere:
  "uart_elsewhere io base view \<Longrightarrow> \<forall>pv \<in> set pvs. 8 \<le> fst pv - base \<Longrightarrow> outb_wait io pvs s = Inr (c, d) \<Longrightarrow> view d = view (snd s)"
  by (induction io pvs s rule: outb_wait.induct) (auto simp: rbind_eq_Inr elsewhere_simps)

lemma remap_elsewhere:
  assumes "uart_elsewhere io 0x3f8 view" "remap io o1 o2 (c, d) = Inr (c', d')"
  shows "view d' = view d"
  using assms(2) outb_wait_elsewhere [OF assms(1)]
  by (fastforce simp: remap_def Let_def case_prod_unfold rbind_eq_Inr elsewhere_simps [OF assms(1)])

lemma unmask_elsewhere:
  assumes "uart_elsewhere io 0x3f8 view" "unmask_line io l d = Inr d'"
  shows "view d' = view d"
  using assms(2)
  by (auto simp: unmask_line_def line_port_def line_bit_def Let_def case_prod_unfold rbind_eq_Inr elsewhere_simps [OF assms(1)]
      split: if_splits)

lemma init_interrupts_elsewhere:
  assumes "uart_elsewhere io 0x3f8 view" "init_interrupts io ist0 h s = Inr s'"
  shows "view (pic_dev s') = view (pic_dev s)"
proof -
  have timer: "view d' = view d" if "timer_phase io 1 d = Inr d'" for d d'
    using that by (auto simp: timer_phase_def Let_def elsewhere_simps [OF assms(1)])
  show ?thesis
    using assms(2) by (auto simp: init_interrupts_def rbind_eq_Inr sti_def load_idt_def
      dest!: timer unmask_elsewhere [OF assms(1)] remap_elsewhere [OF assms(1)])
qed

section \<open>Texts\<close>

definition nl :: string where "nl = [CHR 0x0A]"

definition hello_text :: string where
  "hello_text = ''Hello, World!'' @ nl @ ''is this thing working?'' @ nl @ ''Checking If port is valid...'' @ nl"

definition valid_text :: "SerialPort \<Rightarrow> string" where
  "valid_text p = ''Port seems to be valid.'' @ nl @ ''port number is '' @ hex_text 0 (ucast (portnum p)) @ nl"

definition report_text :: "environment \<Rightarrow> u64 \<Rightarrow> u64 \<Rightarrow> kmem \<Rightarrow> string" where
  "report_text e page_table kernel_start k =
     info_text ''System Up!'' (e_file e) 29 ''kernel_main'' @
     ''the kernel page table value is '' @ hex_text 16 (load64 (k_mem k) (page_table + 8 * 0x1ff)) @ nl @
     ''The kernel takes up addresses '' @ hex_text 16 kernel_start @ '' to '' @ hex_text 16 (m_mem_end (k_dumb k)) @ nl @
     ''We have '' @ hex_text 0 (page_count k * 0x1000) @ '' memory available.'' @ nl"

lemma padding_16: "padding_spec (''.:16'' @ CHR 0x0A # r) = (16, CHR 0x0A # r)"
  by (simp add: padding_spec_def)

lemma report_vformat:
  "vformat (''the kernel page table value is %x.:16'' @ [CHR 0x0A]) [VA_64 x] =
     Inr (''the kernel page table value is '' @ hex_text 16 x @ nl)"
  "vformat (''The kernel takes up addresses %p to %p'' @ [CHR 0x0A]) [VA_64 x, VA_64 y] =
     Inr (''The kernel takes up addresses '' @ hex_text 16 x @ '' to '' @ hex_text 16 y @ nl)"
  "vformat (''We have %x memory available.'' @ [CHR 0x0A]) [VA_64 x] =
     Inr (''We have '' @ hex_text 0 x @ '' memory available.'' @ nl)"
  using hex_text [of 16 x] hex_text [of 16 y] hex_text [of 0 x]
  by (simp_all add: vformat_simps(1,2) vformat_number(1,3) [OF padding_spec_none]
      vformat_number(1) [OF padding_16 [simplified]] nl_def)

lemma valid_vformat:
  "vformat (''Port seems to be valid.'' @ [CHR 0x0A] @ ''port number is %x'' @ [CHR 0x0A]) [VA_int 0 (ucast (portnum p))] =
     Inr (valid_text p)"
proof -
  have "slot 0 (ucast (portnum p)) = (ucast (portnum p) :: u64)"
    using bit_imp_le_length [of "portnum p"] by (intro bit_word_eqI) (fastforce simp: slot_def bit_simps)
  then show ?thesis
    using hex_text [of 0 "ucast (portnum p)"]
    by (simp add: vformat_simps(1,2) vformat_int vformat_number(1) [OF padding_spec_none] valid_text_def nl_def)
qed

definition line_up :: "uart \<Rightarrow> bool" where
  "line_up u \<longleftrightarrow> \<not> dlab u \<and> \<not> loopback u"

lemma on_dev_printf:
  assumes "uart_at io (portnum p) view" "line_up (view (kdev k))" "vformat fmt args = Inr t"
  shows "\<exists>d. on_dev (SerialPort_printf io p fmt args) k = Inr (with_dev d k) \<and> line_up (view d) \<and>
    view d = (view (kdev k))\<lparr>sent := sent (view (kdev k)) @ map of_char t\<rparr>"
  using uart_printf [OF assms(1) _ _ assms(3), of "kdev k"] assms(2)
  by (auto simp: on_dev_def line_up_def dlab_def loopback_def)

lemma kernel_report_sends:
  assumes "uart_at io (portnum p) view" "line_up (view (kdev k))" "e_hi_line e = 0"
  shows "\<exists>d. kernel_report io p e page_table kernel_start k = Inr (with_dev d k) \<and>
    view d = (view (kdev k))\<lparr>sent := sent (view (kdev k)) @ map of_char (report_text e page_table kernel_start (km k))\<rparr>"
proof -
  note step = on_dev_printf [OF assms(1)]
  have info: "vformat (''[INFO] %s at %s:%d:%s'' @ [CHR 0x0A])
      [VA_str ''System Up!'', VA_str (e_file e), VA_int 0 29, VA_str ''kernel_main''] =
      Inr (info_text ''System Up!'' (e_file e) 29 ''kernel_main'')"
    using INFO_vformat [of 0 29] slot_0(2) [of 29] by simp
  have INFO: "INFO io p ''System Up!'' (e_file e) (e_hi_line e) 29 ''kernel_main'' = SerialPort_printf io p
      (''[INFO] %s at %s:%d:%s'' @ [CHR 0x0A]) [VA_str ''System Up!'', VA_str (e_file e), VA_int 0 29, VA_str ''kernel_main'']"
    by (rule ext) (simp only: INFO_def assms(3))
  obtain d1 where d1: "on_dev (INFO io p ''System Up!'' (e_file e) (e_hi_line e) 29 ''kernel_main'') k = Inr (with_dev d1 k)"
    "line_up (view d1)" "view d1 = (view (kdev k))\<lparr>sent := sent (view (kdev k)) @
       map of_char (info_text ''System Up!'' (e_file e) 29 ''kernel_main'')\<rparr>"
    using step [OF assms(2) info] unfolding INFO by blast
  obtain d2 where d2: "on_dev (SerialPort_printf io p (''the kernel page table value is %x.:16'' @ [CHR 0x0A])
      [VA_64 (load64 (k_mem (km k)) (page_table + 8 * 0x1ff))]) (with_dev d1 k) = Inr (with_dev d2 k)"
    "line_up (view d2)" "view d2 = (view d1)\<lparr>sent := sent (view d1) @ map of_char
      (''the kernel page table value is '' @ hex_text 16 (load64 (k_mem (km k)) (page_table + 8 * 0x1ff)) @ nl)\<rparr>"
    using step [OF _ report_vformat(1), of "with_dev d1 k"] d1(2) unfolding with_dev_simps by blast
  obtain d3 where d3: "on_dev (SerialPort_printf io p (''The kernel takes up addresses %p to %p'' @ [CHR 0x0A])
      [VA_64 kernel_start, VA_64 (DumbAllocator_mem_end (k_dumb (km k)))]) (with_dev d2 k) = Inr (with_dev d3 k)"
    "line_up (view d3)" "view d3 = (view d2)\<lparr>sent := sent (view d2) @ map of_char
      (''The kernel takes up addresses '' @ hex_text 16 kernel_start @ '' to '' @
       hex_text 16 (DumbAllocator_mem_end (k_dumb (km k))) @ nl)\<rparr>"
    using step [OF _ report_vformat(2), of "with_dev d2 k"] d2(2) unfolding with_dev_simps by blast
  obtain d4 where d4: "on_dev (SerialPort_printf io p (''We have %x memory available.'' @ [CHR 0x0A])
      [VA_64 (page_count (km k) * 0x1000)]) (with_dev d3 k) = Inr (with_dev d4 k)"
    "view d4 = (view d3)\<lparr>sent := sent (view d3) @ map of_char
      (''We have '' @ hex_text 0 (page_count (km k) * 0x1000) @ '' memory available.'' @ nl)\<rparr>"
    using step [OF _ report_vformat(3), of "with_dev d3 k"] d3(2) unfolding with_dev_simps by blast
  have "kernel_report io p e page_table kernel_start k = Inr (with_dev d4 k)"
    unfolding kernel_report_def d1(1) rbind_simps with_dev_simps d2(1) d3(1) d4(1) ..
  then show ?thesis
    by (auto simp: d4(2) d3(3) d2(3) d1(3) report_text_def DumbAllocator_mem_end_def simp del: append.simps)
qed

text \<open>What the serial port leaves alone: anything that its data and status ports do not reach.\<close>

definition serial_keeps :: "'d io_bus \<Rightarrow> SerialPort \<Rightarrow> ('d \<Rightarrow> 'x) \<Rightarrow> bool" where
  "serial_keeps io p f \<longleftrightarrow>
     (\<forall>v d. f (outb io (portnum p) v d) = f d) \<and> (\<forall>d. f (snd (inb io (line_status_reg p) d)) = f d)"

lemma serial_keeps_putc:
  assumes "serial_keeps io p f" "SerialPort_putc io p c d = Inr d'"
  shows "f d' = f d"
proof -
  have "f (after_reads io (line_status_reg p) n d) = f d" for n
    using assms(1) by (induction n arbitrary: d) (simp_all add: after_reads_Suc serial_keeps_def, simp add: after_reads_def)
  then show ?thesis
    using assms by (auto simp: SerialPort_putc_def wait_thr_eq serial_keeps_def of_loop_def split: if_splits)
qed

lemma serial_keeps_printf:
  assumes "serial_keeps io p f" "SerialPort_printf io p fmt args d = Inr d'"
  shows "f d' = f d"
proof -
  have all: "f d' = f d" if "putc_all (SerialPort_putc io p) t d = Inr d'" for t d d'
    using that by (induction t arbitrary: d) (auto simp: rbind_eq_Inr dest!: serial_keeps_putc [OF assms(1)])
  show ?thesis
    using serial.vprintf_collected [where fmt = fmt and args = args and s = d and p = p and io = io] assms(2) all
    by (cases "vformat fmt args") (auto simp: SerialPort_printf_def)
qed

lemma kernel_main_keeps:
  assumes "serial_keeps io p f" "init_interrupts io (e_ist0 e) (e_handlers e) (ints k) = Inr s"
    and "kernel_main io p e page_table kernel_start kernel_end virtual_base mb k = Inr (r, k')"
  shows "f (kdev k') = f (pic_dev s)"
  using assms(2,3)
  by (auto simp: kernel_main_def kernel_start_up_def kernel_report_def Let_def rbind_eq_Inr on_dev_def INFO_def kdev_def with_dev_def
      dest!: serial_keeps_printf [OF assms(1)] split: if_splits)

section \<open>Booting\<close>

lemma start_up:
  assumes "init_interrupts io (e_ist0 e) (e_handlers e) (ints k) = Inr s"
    and "boot_info_new (k_mem (km k)) mb (e_info0 e) = Inr info"
  shows "kernel_start_up io e mb k = Inr (info, k\<lparr>segments := init_gdt (e_res0 e) (segments k), ints := s,
    scr := Video_writestr hello_text (set_color WHITE BLACK (Video_clear (scr k)))\<rparr>)"
  using assms by (simp add: kernel_start_up_def Let_def Video_writestr_append hello_text_def nl_def)

text \<open>The hardware and boot information that the kernel expects when it is entered.\<close>

definition machine_ok :: "'d io_bus \<Rightarrow> SerialPort \<Rightarrow> ('d \<Rightarrow> uart) \<Rightarrow> ('d \<Rightarrow> pics) \<Rightarrow> 'd kernel \<Rightarrow> bool" where
  "machine_ok io p uv pv k \<longleftrightarrow>
     portnum p = 0x3f8 \<and> uart_at io 0x3f8 uv \<and> uart_elsewhere io 0x3f8 uv \<and> line_up (uv (kdev k)) \<and>
     pics_at io pv \<and> operating (pv (kdev k)) \<and> length (IDT (ints k)) = 256 \<and>
     - (2 ^ 31) + 4000 \<le> calc_me (ints k) \<and> calc_me (ints k) < 2 ^ 31 - 500"

lemma kernel_main_lines:
  assumes "machine_ok io p uv pv k"
    and "kernel_main io p e page_table kernel_start kernel_end virtual_base mb k = Inr (r, k')"
  shows "\<forall>n < 16. line_masked (pv (kdev k')) n \<longleftrightarrow> 2 \<le> n \<and> line_masked (pv (kdev k)) n"
    "\<exists>m sl. pv (kdev k') = with_masks m sl (remapped 0x20 0x28 (pv (kdev k)))"
proof -
  have pics: "pics_at io pv" and port: "portnum p = 0x3f8" using assms(1) by (simp_all add: machine_ok_def)
  obtain s where s: "init_interrupts io (e_ist0 e) (e_handlers e) (ints k) = Inr s"
    "\<forall>n < 16. line_masked (pv (pic_dev s)) n \<longleftrightarrow> 2 \<le> n \<and> line_masked (pv (kdev k)) n"
    "\<exists>m sl. pv (pic_dev s) = with_masks m sl (remapped 0x20 0x28 (pv (kdev k)))"
    using init_ready [of io pv "ints k" "e_ist0 e" "e_handlers e"] assms(1) unfolding machine_ok_def kdev_def by blast
  have "serial_keeps io p pv"
    by (simp add: serial_keeps_def port pics_atD [OF pics] pics_write_def line_status_reg_def)
  from kernel_main_keeps [OF this s(1) assms(2)]
  show "\<forall>n < 16. line_masked (pv (kdev k')) n \<longleftrightarrow> 2 \<le> n \<and> line_masked (pv (kdev k)) n"
    "\<exists>m sl. pv (kdev k') = with_masks m sl (remapped 0x20 0x28 (pv (kdev k)))" using s(2,3) by simp_all
qed

lemma kernel_main_run:
  assumes "machine_ok io p uv pv k" "is_valid p" "e_hi_port e = 0" "e_hi_line e = 0"
    and "tags_from (k_mem (km k)) (mb + 8) (first # ts)" "\<exists>t \<in> set ts. tag_type (k_mem (km k)) t = 4"
    and "head_room (scr k) (length (hello_text @ valid_text p))"
  shows "\<exists>k'. kernel_main io p e page_table kernel_start kernel_end virtual_base mb k = Inr (0, k') \<and>
    segments k' = init_gdt (e_res0 e) (segments k) \<and>
    interrupt_flag (ints k') \<and> installed (e_ist0 e) (e_handlers e) (IDT (ints k)) (IDT (ints k')) \<and>
    screen_of (scr k') = fold (spec_putc 0x0F) (hello_text @ valid_text p) (screen_of (Video_clear (scr k))) \<and>
    (let t = last (filter (\<lambda>t. tag_type (k_mem (km k)) t = 4) ts);
         pages = ucast (drop_bit 2 (mem_upper (read_meminfo (k_mem (km k)) t)) + 0x120)
     in km k' = paging_init virtual_base kernel_end pages (km k)) \<and>
    sent (uv (kdev k')) = sent (uv (kdev k)) @ map of_char (report_text e page_table kernel_start (km k')) \<and>
    video_ok (scr k')"
proof -
  have hw: "portnum p = 0x3f8" "uart_at io (portnum p) uv" "uart_elsewhere io 0x3f8 uv" "line_up (uv (kdev k))"
    using assms(1) by (simp_all add: machine_ok_def)
  obtain s where s: "init_interrupts io (e_ist0 e) (e_handlers e) (ints k) = Inr s" "interrupt_flag s"
    "installed (e_ist0 e) (e_handlers e) (IDT (ints k)) (IDT s)"
    using init_ready [of io pv "ints k" "e_ist0 e" "e_handlers e"] assms(1) unfolding machine_ok_def kdev_def by blast
  have us: "uv (pic_dev s) = uv (kdev k)" unfolding kdev_def by (rule init_interrupts_elsewhere [OF hw(3) s(1)])
  define t where "t = last (filter (\<lambda>t. tag_type (k_mem (km k)) t = 4) ts)"
  obtain info where info: "boot_info_new (k_mem (km k)) mb (e_info0 e) = Inr info" "meminfo info = read_meminfo (k_mem (km k)) t"
    using boot_info_meminfo [OF assms(5,6)] unfolding t_def by blast
  define v where "v = set_color WHITE BLACK (Video_clear (scr k))"
  have v: "video_ok v" "color v = 0x0F" "screen_of v = screen_of (Video_clear (scr k))" "head_room v n = head_room (scr k) n" for n
    using Video_clear_ok [of "scr k"]
    by (simp_all add: v_def set_color_ok, simp_all add: set_color_def screen_of_def vga_entry_color_def head_room_def Video_clear_def)
  define v' where "v' = Video_writestr (hello_text @ valid_text p) v"
  have ok': "video_ok v'" unfolding v'_def Video_writestr_fold using Video_writestr_ok [OF v(1)] by blast
  have v': "screen_of v' = fold (spec_putc 0x0F) (hello_text @ valid_text p) (screen_of (Video_clear (scr k)))"
    using Video_writestr_ok [OF v(1), of "hello_text @ valid_text p"] assms(7) v
    unfolding v'_def Video_writestr_fold by (simp only:)
  define k2 where "k2 = k\<lparr>segments := init_gdt (e_res0 e) (segments k), ints := s, scr := v',
    km := paging_init virtual_base kernel_end (ucast (drop_bit 2 (mem_upper (read_meminfo (k_mem (km k)) t)) + 0x120)) (km k)\<rparr>"
  have "kdev k2 = pic_dev s" by (simp add: k2_def kdev_def)
  then have k2: "uv (kdev k2) = uv (kdev k)" "line_up (uv (kdev k2))" using us hw(4) by simp_all
  obtain d where d: "kernel_report io p e page_table kernel_start k2 = Inr (with_dev d k2)"
    "uv d = (uv (kdev k2))\<lparr>sent := sent (uv (kdev k2)) @ map of_char (report_text e page_table kernel_start (km k2))\<rparr>"
    using kernel_report_sends [OF hw(2) k2(2) assms(4)] by blast
  have "kernel_main io p e page_table kernel_start kernel_end virtual_base mb k = Inr (0, with_dev d k2)"
    unfolding kernel_main_def start_up [OF s(1) info(1)]
    using assms(2) d(1) by (simp add: assms(3) Video_printf_text [OF valid_vformat] Video_writestr_append v_def [symmetric]
        v'_def [symmetric] info(2) k2_def [symmetric] del: append.simps)
  then show ?thesis
    using s v' ok' d(2) k2(1) by (intro exI [of _ "with_dev d k2"]) (simp add: k2_def t_def Let_def del: append.simps)
qed

text \<open>
  C2: Booting end to end. On a machine with the two interrupt controllers and a valid serial port,
  and with boot information whose memory tag is not the first one, \<open>kernel_main\<close> returns 0. Then
  the descriptor tables are loaded and interrupts enabled; the screen shows the greeting in white on
  black; the page allocator is initialised for the memory the last memory tag reports; and the
  serial line has carried the report, nothing more. The upper halves of the slots of the two
  \<open>int\<close> arguments are taken to be zero.
\<close>

theorem kernel_main_boots:
  assumes "machine_ok io p uv pv k" "is_valid p" "e_hi_port e = 0" "e_hi_line e = 0"
    and "tags_from (k_mem (km k)) (mb + 8) (first # ts)" "\<exists>t \<in> set ts. tag_type (k_mem (km k)) t = 4"
    and "head_room (scr k) (length (hello_text @ valid_text p))"
  shows "\<exists>k'. kernel_main io p e page_table kernel_start kernel_end virtual_base mb k = Inr (0, k') \<and>
    segments k' = init_gdt (e_res0 e) (segments k) \<and>
    interrupt_flag (ints k') \<and> installed (e_ist0 e) (e_handlers e) (IDT (ints k)) (IDT (ints k')) \<and>
    screen_of (scr k') = fold (spec_putc 0x0F) (hello_text @ valid_text p) (screen_of (Video_clear (scr k))) \<and>
    (let t = last (filter (\<lambda>t. tag_type (k_mem (km k)) t = 4) ts);
         pages = ucast (drop_bit 2 (mem_upper (read_meminfo (k_mem (km k)) t)) + 0x120)
     in km k' = paging_init virtual_base kernel_end pages (km k)) \<and>
    sent (uv (kdev k')) = sent (uv (kdev k)) @ map of_char (report_text e page_table kernel_start (km k'))"
  using kernel_main_run [OF assms] by blast

text \<open>A machine to boot on: the serial port and the controllers on one bus, and boot information with two tags.\<close>

definition boot_bus :: "(uart \<times> pics) io_bus" where
  "boot_bus =
     \<lparr>dev_in = (\<lambda>port (u, ps). if port - 0x3f8 < 8 then (case dev_in (uart_bus 0x3f8) port u of (b, u') \<Rightarrow> (b, (u', ps)))
        else (case dev_in pics_bus port ps of (b, ps') \<Rightarrow> (b, (u, ps')))),
      dev_out = (\<lambda>port v (u, ps). if port - 0x3f8 < 8 then (uart_write (port - 0x3f8) v u, ps) else (u, pics_write port v ps))\<rparr>"

lemma boot_bus_pics: "pics_at boot_bus snd"
proof -
  have "pics_write port v ps = ps" if "port - 0x3f8 < 8" for port :: u16 and v ps
    using that by (auto simp: pics_write_def)
  then show ?thesis by (auto simp: pics_at_def boot_bus_def pics_bus_def uart_bus_def split: prod.split list.split)
qed

lemma boot_bus_ready: "ready_at boot_bus (0x3f8 + 5) d 0"
  by (cases d) (simp add: ready_at_def after_reads_def inb_def boot_bus_def uart_bus_def)

lemma boot_bus_uart: "uart_at boot_bus 0x3f8 fst"
  unfolding uart_at_def
proof (intro conjI allI)
  show "\<exists>n. ready_at boot_bus (0x3f8 + 5) d n" for d by (rule exI [of _ 0], rule boot_bus_ready)
qed (auto simp: boot_bus_def uart_bus_def split: prod.split)

lemma boot_bus_elsewhere: "uart_elsewhere boot_bus 0x3f8 fst"
  by (auto simp: uart_elsewhere_def boot_bus_def pics_bus_def leD split: prod.split)

definition boot_mem :: mem where
  "boot_mem = (\<lambda>a. if a = 0x1008 then 6 else if a = 0x100C then 8 else if a = 0x1010 then 4 else if a = 0x1014 then 16
     else if a = 0x101D then 0x40 else 0)"

lemma boot_mem_loads:
  "load32 boot_mem 0x1008 = 6" "load32 boot_mem 0x100C = 8" "load32 boot_mem 0x1010 = 4" "load32 boot_mem 0x1014 = 16"
  "load32 boot_mem 0x101C = 0x4000" "load32 boot_mem 0x1020 = 0"
  by (simp_all add: load32_bytes boot_mem_def)

lemma boot_tags: "tags_from boot_mem (0x1000 + 8) [0x1008, 0x1010]" "tag_type boot_mem 0x1010 = 4"
  by (simp_all add: tag_type_def tag_size_def boot_mem_loads)

definition boot_kernel :: "(uart \<times> pics) kernel" where
  "boot_kernel =
     \<lparr>segments = (GDT0, \<lparr>gdtr_base = [], gdtr_limit = 0, code_selector = 0, data_selectors = 0\<rparr>),
      ints = \<lparr>IDT = replicate 256 gate_zero, idtr = ([], 0), interrupt_flag = False, calc_me = 0,
        pic_dev = (uart0, \<lparr>master = pic0, slave = pic0\<rparr>)\<rparr>,
      scr = Video_new (\<lambda>_. 0),
      km = \<lparr>k_mem = boot_mem, k_dumb = \<lparr>m_mem_end = 0\<rparr>,
        k_pages = \<lparr>m_kernel_base = 0, m_page_count = 0, m_allocator = \<lparr>m_set = 0, m_bitcount = 0\<rparr>\<rparr>\<rparr>\<rparr>"

definition boot_env :: environment where
  "boot_env =
     \<lparr>e_res0 = 0, e_ist0 = (\<lambda>_. 0), e_handlers = \<lparr>addr_divide_by_zero = 0x100, addr_timer = 0x200, addr_keyboard = 0x300,
        addr_double_fault = 0x400, addr_gen_prot_fault = 0x500, addr_page_fault = 0x600\<rparr>,
      e_info0 = mb_info0, e_hi_port = 0, e_hi_line = 0, e_file = ''kernel.cpp''\<rparr>"

lemma boot_machine_ok: "machine_ok boot_bus \<lparr>portnum = 0x3f8, is_valid = b\<rparr> fst snd boot_kernel"
  by (simp add: machine_ok_def boot_bus_uart boot_bus_elsewhere boot_bus_pics boot_kernel_def kdev_def line_up_def
      operating_def pic0_def uart0_def dlab_def loopback_def)

theorem kernel_main_boots_witness:
  "let p = \<lparr>portnum = 0x3f8, is_valid = True\<rparr> in
     machine_ok boot_bus p fst snd boot_kernel \<and> tags_from (k_mem (km boot_kernel)) (0x1000 + 8) [0x1008, 0x1010] \<and>
     (\<exists>k'. kernel_main boot_bus p boot_env 0x5000 0x100000 0x200000 0xffffffff80000000 0x1000 boot_kernel = Inr (0, k') \<and>
       interrupt_flag (ints k') \<and> page_count (km k') = 0x1120)"
proof -
  let ?p = "\<lparr>portnum = 0x3f8, is_valid = True\<rparr>"
  have mem: "k_mem (km boot_kernel) = boot_mem" by (simp add: boot_kernel_def)
  have "machine_ok boot_bus ?p fst snd boot_kernel" "is_valid ?p" "e_hi_port boot_env = 0" "e_hi_line boot_env = 0"
    "tags_from (k_mem (km boot_kernel)) (0x1000 + 8) [0x1008, 0x1010]" "\<exists>t \<in> set [0x1010]. tag_type (k_mem (km boot_kernel)) t = 4"
    using boot_tags boot_machine_ok by (simp_all add: boot_env_def mem del: tags_from.simps)
  note main = kernel_main_boots [OF this]
  have room: "head_room (scr boot_kernel) (length (hello_text @ valid_text ?p))"
    by (simp add: head_room_def boot_kernel_def Video_new_def Video_clear_def hello_text_def valid_text_def nl_def
        hex_text_def padded_def numeral_text.simps digit_chars_def)
  have pages: "page_count (paging_init vb ke n k) = n" for vb ke n k
    by (simp add: paging_init_def Let_def case_prod_unfold page_count_def)
  have t: "last (filter (\<lambda>t. tag_type boot_mem t = 4) [0x1010]) = 0x1010" by (simp add: boot_tags)
  have n: "mem_upper (read_meminfo boot_mem 0x1010) = 0x4000" by (simp add: read_meminfo_def boot_mem_loads)
  from main [OF room, of "0x5000" "0x100000" "0x200000" "0xffffffff80000000"]
  obtain k' where "kernel_main boot_bus ?p boot_env 0x5000 0x100000 0x200000 0xffffffff80000000 0x1000 boot_kernel = Inr (0, k')"
    "interrupt_flag (ints k')"
    "km k' = paging_init 0xffffffff80000000 0x200000 (ucast (drop_bit 2 (0x4000 :: u32) + 0x120)) (km boot_kernel)"
    unfolding mem Let_def t n by blast
  moreover from this(3) have "page_count (km k') = 0x1120" by (simp add: pages)
  ultimately show ?thesis using boot_machine_ok boot_tags(1) unfolding Let_def mem by blast
qed

text \<open>
  C35: With a serial port that failed its loopback test, \<open>kernel_main\<close> returns -1 after the greeting
  and an error line. The port object is the one its constructor made on any bus, where the byte read back was not
  \<open>0xae\<close>; of the hardware only the interrupt controllers have to work. Interrupts are enabled, but the page allocator and
  the memory are untouched, and whatever is behind the ports \<open>0x3f8\<close> to \<open>0x3ff\<close> is as the constructor left it: nothing is
  sent on the serial line.
\<close>

theorem kernel_main_broken_port:
  assumes "SerialPort_new io 0x3f8 d0 = (p, kdev k)" "\<not> is_valid p" "uart_elsewhere io 0x3f8 line"
    and "pics_at io pv" "operating (pv (kdev k))" "length (IDT (ints k)) = 256"
    and "- (2 ^ 31) + 4000 \<le> calc_me (ints k)" "calc_me (ints k) < 2 ^ 31 - 500"
    and "tags_from (k_mem (km k)) (mb + 8) (first # ts)"
  shows "\<exists>k'. kernel_main io p e page_table kernel_start kernel_end virtual_base mb k = Inr (- 1, k') \<and>
    interrupt_flag (ints k') \<and> km k' = km k \<and> line (kdev k') = line (kdev k) \<and>
    scr k' = Video_writestr (hello_text @ ''nope. port is broken.'' @ nl) (set_color WHITE BLACK (Video_clear (scr k)))"
proof -
  obtain s where s: "init_interrupts io (e_ist0 e) (e_handlers e) (ints k) = Inr s" "interrupt_flag s"
    using init_ready [of io pv "ints k" "e_ist0 e" "e_handlers e"] assms(4-8) unfolding kdev_def by blast
  obtain info where info: "boot_info_new (k_mem (km k)) mb (e_info0 e) = Inr info"
    using tag_loop_walk [OF assms(9)] by (simp add: boot_info_new_def)
  show ?thesis
    unfolding kernel_main_def start_up [OF s(1) info]
    using assms(2) s(2) init_interrupts_elsewhere [OF assms(3) s(1)]
    by (simp add: Video_writestr_append nl_def kdev_def del: append.simps)
qed

text \<open>A machine without a serial port: its ports read \<open>0xFF\<close>. The writes to them are recorded.\<close>

definition dead_bus :: "((u16 \<times> u8) list \<times> pics) io_bus" where
  "dead_bus =
     \<lparr>dev_in = (\<lambda>port (l, ps). if port - 0x3f8 < 8 then (0xFF, (l, ps))
        else (case dev_in pics_bus port ps of (b, ps') \<Rightarrow> (b, (l, ps')))),
      dev_out = (\<lambda>port v (l, ps). if port - 0x3f8 < 8 then (l @ [(port, v)], ps) else (l, pics_write port v ps))\<rparr>"

definition dead_kernel :: "((u16 \<times> u8) list \<times> pics) kernel" where
  "dead_kernel =
     \<lparr>segments = segments boot_kernel,
      ints = \<lparr>IDT = IDT (ints boot_kernel), idtr = idtr (ints boot_kernel), interrupt_flag = False, calc_me = 0,
        pic_dev = snd (SerialPort_new dead_bus 0x3f8 ([], \<lparr>master = pic0, slave = pic0\<rparr>))\<rparr>,
      scr = scr boot_kernel, km = km boot_kernel\<rparr>"

lemma dead_bus_pics: "pics_at dead_bus snd"
proof -
  have "pics_write port v ps = ps" if "port - 0x3f8 < 8" for port :: u16 and v ps
    using that by (auto simp: pics_write_def)
  then show ?thesis by (auto simp: pics_at_def dead_bus_def pics_bus_def split: prod.split)
qed

lemma dead_bus_elsewhere: "uart_elsewhere dead_bus 0x3f8 fst"
  by (auto simp: uart_elsewhere_def dead_bus_def pics_bus_def leD split: prod.split)

lemma dead_port:
  "SerialPort_new dead_bus 0x3f8 ([], ps) =
    (\<lparr>portnum = 0x3f8, is_valid = False\<rparr>,
     ([(0x3f9, 0), (0x3fb, 0x80), (0x3f8, 3), (0x3f9, 0), (0x3fb, 3), (0x3fa, 0xc7), (0x3fc, 0x0b), (0x3fc, 0x1e), (0x3f8, 0xae),
       (0x3fc, 0x0f)], ps))"
  by (simp add: SerialPort_new_def serial_regs outb_def inb_def dead_bus_def)

theorem kernel_main_broken_port_witness:
  "\<exists>p k'. SerialPort_new dead_bus 0x3f8 ([], \<lparr>master = pic0, slave = pic0\<rparr>) = (p, kdev dead_kernel) \<and> \<not> is_valid p \<and>
     kernel_main dead_bus p boot_env 0x5000 0x100000 0x200000 0xffffffff80000000 0x1000 dead_kernel = Inr (- 1, k') \<and>
     km k' = km dead_kernel \<and> length (fst (kdev k')) = 10"
proof -
  let ?p = "\<lparr>portnum = 0x3f8, is_valid = False\<rparr>"
  have mem: "k_mem (km dead_kernel) = boot_mem" by (simp add: dead_kernel_def boot_kernel_def)
  have h: "SerialPort_new dead_bus 0x3f8 ([], \<lparr>master = pic0, slave = pic0\<rparr>) = (?p, kdev dead_kernel)" "\<not> is_valid ?p"
    "operating (snd (kdev dead_kernel))" "length (IDT (ints dead_kernel)) = 256"
    "- (2 ^ 31) + 4000 \<le> calc_me (ints dead_kernel)" "calc_me (ints dead_kernel) < 2 ^ 31 - 500"
    "tags_from (k_mem (km dead_kernel)) (0x1000 + 8) [0x1008, 0x1010]"
    using boot_tags
    by (simp_all add: dead_port dead_kernel_def kdev_def operating_def pic0_def boot_kernel_def del: tags_from.simps)
  have "length (fst (kdev dead_kernel)) = 10" by (simp add: dead_kernel_def kdev_def dead_port)
  with kernel_main_broken_port [OF h(1,2) dead_bus_elsewhere dead_bus_pics h(3-7), where e = boot_env and page_table = "0x5000"
      and kernel_start = "0x100000" and kernel_end = "0x200000" and virtual_base = "0xffffffff80000000"]
  show ?thesis using h(1,2) by metis
qed

end
