(* ===== verification/Events.thy ===== *)
theory Events
  imports Handlers Interrupts
begin

text \<open>
  The running system: kernel code that prints, the interrupt controllers that take requests from
  the devices, and the two device handlers, interleaved in any order. The steps are whole calls of
  \<open>putc\<close> and whole handlers; what happens inside one of them is not interrupted in this model.
\<close>

section \<open>Steps\<close>

definition raise_line :: "nat \<Rightarrow> pics \<Rightarrow> pics" where
  "raise_line k ps = ps\<lparr>master := (master ps)\<lparr>isr := isr (master ps) OR push_bit k 1\<rparr>\<rparr>"

definition deliverable :: "pics \<Rightarrow> nat \<Rightarrow> bool" where
  "deliverable ps k \<longleftrightarrow> k < 8 \<and> \<not> line_masked ps k"

inductive sys_step :: "'d io_bus \<Rightarrow> ('d \<Rightarrow> pics) \<Rightarrow> 'd machine \<Rightarrow> 'd machine \<Rightarrow> bool" for io view where
  step_print: "sys_step io view m (m\<lparr>console := Video_putc c (console m)\<rparr>)"
| step_request: "deliverable (view (dev m)) k \<Longrightarrow> view d = raise_line k (view (dev m)) \<Longrightarrow> sys_step io view m (m\<lparr>dev := d\<rparr>)"
| step_timer: "bit (isr (master (view (dev m)))) 0 \<Longrightarrow> sys_step io view m (handle_timer io m)"
| step_keyboard: "bit (isr (master (view (dev m)))) 1 \<Longrightarrow> sys_step io view m (handle_keyboard io m)"

definition sys_reachable :: "'d io_bus \<Rightarrow> ('d \<Rightarrow> pics) \<Rightarrow> 'd machine \<Rightarrow> 'd machine \<Rightarrow> bool" where
  "sys_reachable io view = (sys_step io view)\<^sup>*\<^sup>*"

section \<open>Invariants\<close>

text \<open>What both device handlers do to the controllers, as one function.\<close>

definition after_EOI :: "pics \<Rightarrow> pics" where
  "after_EOI ps = ps\<lparr>master := (master ps)\<lparr>imr := 0x20, isr := isr (master ps) AND NOT (lowest_bit (isr (master ps)))\<rparr>\<rparr>"

lemma handlers_view:
  assumes "pics_at io view" "operating (view (dev m))"
  shows "view (dev (handle_timer io m)) = after_EOI (view (dev m))"
    "view (dev (handle_keyboard io m)) = after_EOI (view (dev m))"
  using assms(2)
  by (simp_all add: handle_timer_def handle_keyboard_def Let_def case_prod_unfold pic_EOI_def pics_atD [OF assms(1)]
      pics_write_def pic_data_def pic_command_def operating_def after_EOI_def)

definition sys_inv :: "('d \<Rightarrow> pics) \<Rightarrow> 'd machine \<Rightarrow> 'd machine \<Rightarrow> bool" where
  "sys_inv view m0 m \<longleftrightarrow>
     video_ok (console m) \<and> same_beyond (console m0) (console m) \<and> color (console m) = color (console m0) \<and>
     operating (view (dev m)) \<and> slave (view (dev m)) = slave (view (dev m0)) \<and>
     vector_base (master (view (dev m))) = vector_base (master (view (dev m0))) \<and>
     (imr (master (view (dev m))) = imr (master (view (dev m0))) \<or> imr (master (view (dev m))) = 0x20)"

lemma keyboard_console:
  assumes "video_ok (console m)"
  shows "video_ok (console (handle_keyboard io m))" "same_beyond (console m) (console (handle_keyboard io m))"
    "color (console (handle_keyboard io m)) = color (console m)"
  using Video_putc_ok [OF assms] assms
  by (simp_all add: handle_keyboard_def Let_def case_prod_unfold same_beyond_def)

lemma sys_step_inv:
  assumes "sys_step io view m m'" "pics_at io view" "sys_inv view m0 m"
  shows "sys_inv view m0 m'"
  using assms(1)
proof (cases rule: sys_step.cases)
  case (step_print c)
  then show ?thesis
    using assms(3) Video_putc_ok [of "console m"] same_beyond_trans [of "console m0" "console m"]
    by (simp add: sys_inv_def)
next
  case (step_request k d)
  then show ?thesis using assms(3) by (auto simp: sys_inv_def raise_line_def operating_def)
next
  case step_timer
  then show ?thesis
    using assms(3) handlers_view(1) [OF assms(2), of m] by (auto simp: sys_inv_def after_EOI_def operating_def) (simp_all add: handle_timer_def)
next
  case step_keyboard
  then show ?thesis
    using assms(3) handlers_view(2) [OF assms(2), of m] keyboard_console [of m io]
      same_beyond_trans [of "console m0" "console m" "console (handle_keyboard io m)"]
    by (auto simp: sys_inv_def after_EOI_def operating_def)
qed

lemma sys_reachable_inv:
  assumes "sys_reachable io view m0 m" "pics_at io view" "sys_inv view m0 m0"
  shows "sys_inv view m0 m"
  using assms(1) unfolding sys_reachable_def
proof (induction rule: rtranclp_induct)
  case base
  show ?case by (rule assms(3))
next
  case (step m m')
  then show ?case using sys_step_inv [OF _ assms(2)] by blast
qed

text \<open>
  C12: In every state that printing, interrupt requests and the two device handlers can reach, in
  any order, the console is in order and no cell beyond the screen has changed; the controllers are
  in operation with their vectors and the slave as they were; and the mask of the master is either
  still the one it started with or \<open>0x20\<close>.
\<close>

theorem running_system_invariant:
  assumes "pics_at io view" "operating (view (dev m0))" "video_ok (console m0)" "sys_reachable io view m0 m"
  shows "video_ok (console m) \<and> (\<forall>i \<ge> 2000. videomem (console m) i = videomem (console m0) i) \<and>
    operating (view (dev m)) \<and> slave (view (dev m)) = slave (view (dev m0)) \<and>
    vector_base (master (view (dev m))) = vector_base (master (view (dev m0))) \<and>
    (imr (master (view (dev m))) = imr (master (view (dev m0))) \<or> imr (master (view (dev m))) = 0x20)"
  using sys_reachable_inv [OF assms(4,1)] assms(2,3) by (simp add: sys_inv_def same_beyond_def)

theorem running_system_invariant_witness:
  "let m0 = \<lparr>console = Video_new (\<lambda>_. 0), dev = \<lparr>master = pic0\<lparr>isr := 1\<rparr>, slave = pic0\<rparr>\<rparr>;
       m = handle_timer pics_bus m0
   in pics_at pics_bus (\<lambda>ps. ps) \<and> operating (dev m0) \<and> video_ok (console m0) \<and>
      sys_reachable pics_bus (\<lambda>ps. ps) m0 m \<and> operating (dev m) \<and> slave (dev m) = pic0"
proof -
  let ?m0 = "\<lparr>console = Video_new (\<lambda>_. 0), dev = \<lparr>master = pic0\<lparr>isr := 1\<rparr>, slave = pic0\<rparr>\<rparr> :: pics machine"
  have "operating (dev ?m0)" "video_ok (console ?m0)"
    by (simp_all add: operating_def pic0_def Video_new_def Video_clear_ok)
  moreover have r: "sys_reachable pics_bus (\<lambda>ps. ps) ?m0 (handle_timer pics_bus ?m0)"
    unfolding sys_reachable_def by (intro r_into_rtranclp step_timer) simp
  ultimately show ?thesis
    using running_system_invariant [OF pics_bus_at, of ?m0] pics_bus_at by (simp add: Let_def)
qed

section \<open>The first tick\<close>

lemma imr_after_EOI: "deliverable (after_EOI ps) k \<longleftrightarrow> k < 8 \<and> k \<noteq> 5"
proof -
  have "bit (0x20 :: u8) k \<longleftrightarrow> k = 5" using bit_exp_iff [of 5 k, where 'a = u8] by auto
  then show ?thesis by (auto simp: deliverable_def line_masked_def after_EOI_def simp del: bit_numeral_word_iff)
qed

text \<open>
  C20: The first timer tick opens vectors without a handler. After \<open>init_interrupts\<close> on an empty
  table and with all lines of the master masked before, exactly the lines 0 and 1 can interrupt,
  and their gates are present. After the first run of the timer handler every line but 5 can,
  while the gates of the lines 2 to 7 are still not present.
\<close>

theorem first_tick_opens_lines:
  assumes "pics_at io view" "operating (view (pic_dev s))" "IDT s = replicate 256 gate_zero"
    "- (2 ^ 31) + 4000 \<le> calc_me s" "calc_me s < 2 ^ 31 - 500" "\<And>k. k < 8 \<Longrightarrow> line_masked (view (pic_dev s)) k"
  shows "\<exists>s'. init_interrupts io ists h s = Inr s' \<and>
    (\<forall>k < 8. gate_present (IDT s' ! (32 + k)) = 1 \<longleftrightarrow> k < 2) \<and>
    (\<forall>k. deliverable (view (pic_dev s')) k \<longleftrightarrow> k < 2) \<and>
    (\<forall>k. deliverable (view (dev (handle_timer io \<lparr>console = v, dev = pic_dev s'\<rparr>))) k \<longleftrightarrow> k < 8 \<and> k \<noteq> 5)"
proof -
  have len: "length (IDT s) = 256" by (simp add: assms(3))
  obtain s' where s': "init_interrupts io ists h s = Inr s'" "installed ists h (IDT s) (IDT s')"
    "\<exists>m sl. view (pic_dev s') = with_masks m sl (remapped 0x20 0x28 (view (pic_dev s)))"
    "\<forall>k < 16. line_masked (view (pic_dev s')) k \<longleftrightarrow> 2 \<le> k \<and> line_masked (view (pic_dev s)) k"
    using init_ready [OF assms(1,2) len assms(4,5)] by blast
  have "gate_present (IDT s' ! (32 + k)) = 1 \<longleftrightarrow> k < 2" if "k < 8" for k
    using s'(2) that by (auto simp: installed_def routine_of_def assms(3) gate_zero_def gate_descriptor_t_new_def)
  moreover have "deliverable (view (pic_dev s')) k \<longleftrightarrow> k < 2" for k
    using s'(4) assms(6) [of k] by (auto simp: deliverable_def)
  moreover have "operating (view (pic_dev s'))" using s'(3) by (auto simp: operating_def with_masks_def remapped_def)
  then have "view (dev (handle_timer io \<lparr>console = v, dev = pic_dev s'\<rparr>)) = after_EOI (view (pic_dev s'))"
    using handlers_view(1) [OF assms(1), of "\<lparr>console = v, dev = pic_dev s'\<rparr>"] by simp
  ultimately show ?thesis using s'(1) imr_after_EOI by auto
qed

theorem first_tick_opens_lines_witness:
  "let s = \<lparr>IDT = replicate 256 gate_zero, idtr = ([], 0), interrupt_flag = False, calc_me = 0,
             pic_dev = \<lparr>master = pic0\<lparr>imr := 0xFF\<rparr>, slave = pic0\<rparr>\<rparr>;
       h = \<lparr>addr_divide_by_zero = 0x100, addr_timer = 0x200, addr_keyboard = 0x300, addr_double_fault = 0x400,
             addr_gen_prot_fault = 0x500, addr_page_fault = 0x600\<rparr>
   in pics_at pics_bus (\<lambda>ps. ps) \<and> operating (pic_dev s) \<and> (\<forall>k < 8. line_masked (pic_dev s) k) \<and>
      (\<exists>s'. init_interrupts pics_bus (\<lambda>_. 0) h s = Inr s' \<and> \<not> deliverable (pic_dev s') 4 \<and>
        deliverable (dev (handle_timer pics_bus \<lparr>console = Video_new (\<lambda>_. 0), dev = pic_dev s'\<rparr>)) 4)"
proof -
  let ?s = "\<lparr>IDT = replicate 256 gate_zero, idtr = ([], 0), interrupt_flag = False, calc_me = 0,
             pic_dev = \<lparr>master = pic0\<lparr>imr := 0xFF\<rparr>, slave = pic0\<rparr>\<rparr> :: pics interrupts"
  let ?h = "\<lparr>addr_divide_by_zero = 0x100, addr_timer = 0x200, addr_keyboard = 0x300, addr_double_fault = 0x400,
             addr_gen_prot_fault = 0x500, addr_page_fault = 0x600\<rparr> :: handler_addrs"
  have op: "operating (pic_dev ?s)" by (simp add: operating_def pic0_def)
  have masked: "line_masked (pic_dev ?s) k" if "k < 8" for k
    using that by (simp add: line_masked_def bit_255 del: bit_numeral_word_iff)
  have "IDT ?s = replicate 256 gate_zero" "- (2 ^ 31) + 4000 \<le> calc_me ?s" "calc_me ?s < 2 ^ 31 - 500" by simp_all
  from first_tick_opens_lines [OF pics_bus_at op this masked, where h = ?h and ists = "\<lambda>_. 0" and v = "Video_new (\<lambda>_. 0)"]
  show ?thesis using op masked pics_bus_at unfolding Let_def by force
qed

end
