(* ===== verification/Dispatch.thy ===== *)
theory Dispatch
  imports Events
begin

text \<open>
  How requests of the devices reach the handlers. The master controller keeps requests pending and offers
  the processor the one of highest priority that is not masked, if nothing of that priority is in service; the
  processor takes it between two operations of the kernel, and the handler runs to its end, as its interrupt gate
  keeps further interrupts out. A dispatch is the request and the handler step of \<open>Events\<close> in one. The lines from 2 on have no
  gate and no step here.
\<close>

section \<open>Steps\<close>

record 'd system =
  mach :: "'d machine"
  irr :: u8

definition can_dispatch :: "pics \<Rightarrow> u8 \<Rightarrow> nat \<Rightarrow> bool" where
  "can_dispatch ps q k \<longleftrightarrow> k < 8 \<and> bit q k \<and> \<not> line_masked ps k \<and>
     (\<forall>j < k. bit q j \<longrightarrow> line_masked ps j) \<and> (\<forall>j \<le> k. \<not> bit (isr (master ps)) j)"

definition serves ::
  "('d \<Rightarrow> pics) \<Rightarrow> nat \<Rightarrow> ('d machine \<Rightarrow> 'd machine) \<Rightarrow> 'd system \<Rightarrow> 'd system \<Rightarrow> bool" where
  "serves view k h s s' \<longleftrightarrow> can_dispatch (view (dev (mach s))) (irr s) k \<and>
     (\<exists>d. view d = raise_line k (view (dev (mach s))) \<and>
       s' = \<lparr>mach = h ((mach s)\<lparr>dev := d\<rparr>), irr = irr s AND NOT (push_bit k 1)\<rparr>)"

inductive disp_step :: "'d io_bus \<Rightarrow> ('d \<Rightarrow> pics) \<Rightarrow> 'd system \<Rightarrow> 'd system \<Rightarrow> bool" for io view where
  disp_idle: "disp_step io view s s"
| disp_print: "disp_step io view s (s\<lparr>mach := (mach s)\<lparr>console := Video_putc c (console (mach s))\<rparr>\<rparr>)"
| disp_request: "k < 8 \<Longrightarrow> disp_step io view s (s\<lparr>irr := irr s OR push_bit k 1\<rparr>)"
| disp_timer: "serves view 0 (handle_timer io) s s' \<Longrightarrow> disp_step io view s s'"
| disp_keyboard: "serves view 1 (handle_keyboard io) s s' \<Longrightarrow> disp_step io view s s'"

text \<open>Every step is a sequence of steps of \<open>Events\<close>, so that its invariants hold here too.\<close>

lemma disp_step_simulated:
  assumes "disp_step io view s s'"
  shows "sys_reachable io view (mach s) (mach s')"
  using assms
proof (cases rule: disp_step.cases)
  case (disp_print c)
  then show ?thesis unfolding sys_reachable_def by (auto intro: sys_step.step_print)
next
  case disp_timer
  then obtain d where d: "deliverable (view (dev (mach s))) 0" "view d = raise_line 0 (view (dev (mach s)))"
    "mach s' = handle_timer io ((mach s)\<lparr>dev := d\<rparr>)"
    by (auto simp: serves_def can_dispatch_def deliverable_def)
  have "sys_step io view (mach s) ((mach s)\<lparr>dev := d\<rparr>)" by (rule step_request [OF d(1,2)])
  moreover have "sys_step io view ((mach s)\<lparr>dev := d\<rparr>) (mach s')"
    unfolding d(3) by (rule step_timer) (simp add: d(2) raise_line_def bit_or_iff)
  ultimately show ?thesis unfolding sys_reachable_def by simp
next
  case disp_keyboard
  then obtain d where d: "deliverable (view (dev (mach s))) 1" "view d = raise_line 1 (view (dev (mach s)))"
    "mach s' = handle_keyboard io ((mach s)\<lparr>dev := d\<rparr>)"
    by (auto simp: serves_def can_dispatch_def deliverable_def)
  have "sys_step io view (mach s) ((mach s)\<lparr>dev := d\<rparr>)" by (rule step_request [OF d(1,2)])
  moreover have "sys_step io view ((mach s)\<lparr>dev := d\<rparr>) (mach s')"
    unfolding d(3) by (rule step_keyboard) (simp add: d(2) raise_line_def bit_or_iff bit_exp_iff)
  ultimately show ?thesis unfolding sys_reachable_def by simp
qed (simp_all add: sys_reachable_def)

section \<open>The controllers between the handlers\<close>

text \<open>Nothing is in service between two handlers, and the timer and the keyboard are not masked.\<close>

definition serving :: "pics \<Rightarrow> bool" where
  "serving ps \<longleftrightarrow> operating ps \<and> isr (master ps) = 0 \<and> \<not> line_masked ps 0 \<and> \<not> line_masked ps 1"

lemma serving_dispatch:
  assumes "serving ps" "k < 2"
  shows "serving (after_EOI (raise_line k ps))"
proof -
  have "k = 0 \<or> k = 1" using assms(2) by auto
  then show ?thesis
    using assms(1) by (auto simp: serving_def after_EOI_def raise_line_def operating_def line_masked_def lowest_bit_def)
qed

lemma serves_serving:
  assumes "pics_at io view" "serving (view (dev (mach s)))" "serves view k h s s'" "h = handle_timer io \<or> h = handle_keyboard io"
    and "k < 2"
  shows "serving (view (dev (mach s')))"
proof -
  obtain d where d: "view d = raise_line k (view (dev (mach s)))" "mach s' = h ((mach s)\<lparr>dev := d\<rparr>)"
    using assms(3) by (auto simp: serves_def)
  have "operating (view d)" using assms(2) by (simp add: d(1) raise_line_def operating_def serving_def)
  then have "view (dev (mach s')) = after_EOI (view d)"
    using assms(4) handlers_view [OF assms(1), of "(mach s)\<lparr>dev := d\<rparr>"] by (auto simp: d(2))
  then show ?thesis using serving_dispatch [OF assms(2,5)] by (simp add: d(1))
qed

lemma disp_step_serving:
  assumes "disp_step io view s s'" "pics_at io view" "serving (view (dev (mach s)))"
  shows "serving (view (dev (mach s')))"
  using assms(1)
proof (cases rule: disp_step.cases)
  case disp_timer
  then show ?thesis using serves_serving [OF assms(2,3)] by simp
next
  case disp_keyboard
  then show ?thesis using serves_serving [OF assms(2,3)] by simp
qed (use assms(3) in simp_all)

text \<open>A request stays pending until it is served.\<close>

lemma disp_step_pending:
  assumes "disp_step io view s s'" "bit (irr s) k" "k < 2"
    and "\<not> serves view k (if k = 0 then handle_timer io else handle_keyboard io) s s'"
  shows "bit (irr s') k"
  using assms(1)
proof (cases rule: disp_step.cases)
  case disp_timer
  then have "k = 1" using assms(3,4) by (auto simp: less_2_cases_iff)
  then show ?thesis using disp_timer assms(2) by (auto simp: serves_def bit_simps)
next
  case disp_keyboard
  then have "k = 0" using assms(3,4) by (auto simp: less_2_cases_iff)
  then show ?thesis using disp_keyboard assms(2) by (auto simp: serves_def bit_simps bit_exp_iff)
qed (use assms(2) in \<open>simp_all add: bit_or_iff\<close>)
section \<open>Runs\<close>

definition disp_run :: "'d io_bus \<Rightarrow> ('d \<Rightarrow> pics) \<Rightarrow> (nat \<Rightarrow> 'd system) \<Rightarrow> bool" where
  "disp_run io view r \<longleftrightarrow> (\<forall>n. disp_step io view (r n) (r (Suc n)))"

text \<open>What is offered without a break is taken; what is offered again and again is taken.\<close>

definition weakly_fair :: "('d \<Rightarrow> pics) \<Rightarrow> nat \<Rightarrow> ('d machine \<Rightarrow> 'd machine) \<Rightarrow> (nat \<Rightarrow> 'd system) \<Rightarrow> bool" where
  "weakly_fair view k h r \<longleftrightarrow> (\<forall>n. (\<forall>i \<ge> n. can_dispatch (view (dev (mach (r i)))) (irr (r i)) k) \<longrightarrow>
     (\<exists>i \<ge> n. serves view k h (r i) (r (Suc i))))"

definition strongly_fair :: "('d \<Rightarrow> pics) \<Rightarrow> nat \<Rightarrow> ('d machine \<Rightarrow> 'd machine) \<Rightarrow> (nat \<Rightarrow> 'd system) \<Rightarrow> bool" where
  "strongly_fair view k h r \<longleftrightarrow> (\<forall>n. (\<forall>i \<ge> n. \<exists>j \<ge> i. can_dispatch (view (dev (mach (r j)))) (irr (r j)) k) \<longrightarrow>
     (\<exists>i \<ge> n. serves view k h (r i) (r (Suc i))))"

lemma run_serving:
  assumes "disp_run io view r" "pics_at io view" "serving (view (dev (mach (r 0))))"
  shows "serving (view (dev (mach (r n))))"
proof (induction n)
  case 0
  show ?case by (rule assms(3))
next
  case (Suc n)
  then show ?case using assms(1) disp_step_serving [OF _ assms(2)] unfolding disp_run_def by blast
qed

lemma run_pending:
  assumes "disp_run io view r" "bit (irr (r n)) k" "k < 2" "n \<le> i"
    and "\<And>j. n \<le> j \<Longrightarrow> \<not> serves view k (if k = 0 then handle_timer io else handle_keyboard io) (r j) (r (Suc j))"
  shows "bit (irr (r i)) k"
  using assms(4)
proof (induction i rule: dec_induct)
  case base
  show ?case by (rule assms(2))
next
  case (step i)
  then show ?case using assms(1,3,5) disp_step_pending [of io view "r i" "r (Suc i)" k] by (simp add: disp_run_def)
qed

lemma timer_offered: "serving ps \<Longrightarrow> bit q 0 \<Longrightarrow> can_dispatch ps q 0"
  by (simp add: can_dispatch_def serving_def)

lemma keyboard_offered: "serving ps \<Longrightarrow> bit q 1 \<Longrightarrow> \<not> bit q 0 \<Longrightarrow> can_dispatch ps q 1"
  by (simp add: can_dispatch_def serving_def)

lemma timer_served:
  assumes "disp_run io view r" "pics_at io view" "serving (view (dev (mach (r 0))))"
    and "weakly_fair view 0 (handle_timer io) r" "bit (irr (r n)) 0"
  shows "\<exists>i \<ge> n. serves view 0 (handle_timer io) (r i) (r (Suc i))"
proof (rule ccontr)
  assume none: "\<not> (\<exists>i \<ge> n. serves view 0 (handle_timer io) (r i) (r (Suc i)))"
  then have "bit (irr (r i)) 0" if "n \<le> i" for i using run_pending [OF assms(1,5) _ that] by auto
  then have "can_dispatch (view (dev (mach (r i)))) (irr (r i)) 0" if "n \<le> i" for i
    using timer_offered [OF run_serving [OF assms(1-3)]] that by blast
  then show False using assms(4) none unfolding weakly_fair_def by blast
qed

lemma run_serves:
  assumes "pics_at io view" "serving (view (dev (mach (r 0))))" "disp_run io view r"
    and "weakly_fair view 0 (handle_timer io) r" "strongly_fair view 1 (handle_keyboard io) r"
  shows "(bit (irr (r n)) 0 \<longrightarrow> (\<exists>i \<ge> n. serves view 0 (handle_timer io) (r i) (r (Suc i)))) \<and>
    (bit (irr (r n)) 1 \<longrightarrow> (\<exists>i \<ge> n. serves view 1 (handle_keyboard io) (r i) (r (Suc i))))"
proof (intro conjI impI)
  note timer = timer_served [OF assms(3,1,2,4)]
  show "bit (irr (r n)) 0 \<Longrightarrow> \<exists>i \<ge> n. serves view 0 (handle_timer io) (r i) (r (Suc i))" by (rule timer)
  assume key: "bit (irr (r n)) 1"
  show "\<exists>i \<ge> n. serves view 1 (handle_keyboard io) (r i) (r (Suc i))"
  proof (rule ccontr)
    assume none: "\<not> (\<exists>i \<ge> n. serves view 1 (handle_keyboard io) (r i) (r (Suc i)))"
    then have pending: "bit (irr (r i)) 1" if "n \<le> i" for i using run_pending [OF assms(3) key _ that] by auto
    note offered = keyboard_offered [OF run_serving [OF assms(3,1,2)] pending]
    have "\<exists>j \<ge> i. can_dispatch (view (dev (mach (r j)))) (irr (r j)) 1" if i: "n \<le> i" for i
    proof (cases "bit (irr (r i)) 0")
      case True
      then obtain j where j: "i \<le> j" "serves view 0 (handle_timer io) (r j) (r (Suc j))" using timer by blast
      then have "\<not> bit (irr (r (Suc j))) 0" by (auto simp: serves_def bit_simps)
      then show ?thesis using offered [of "Suc j"] i j(1) by (intro exI [of _ "Suc j"]) simp
    next
      case False
      then show ?thesis using offered [OF i] by blast
    qed
    then show False using assms(5) none unfolding strongly_fair_def by blast
  qed
qed

text \<open>
  C8: Every request is served. In every run of the system from a state in which nothing is in service and the timer and
  the keyboard are not masked, in which the processor takes the timer when it is offered without a break and the
  keyboard when it is offered again and again, each pending timer request is followed by a run of \<open>handle_timer\<close> and
  each pending keyboard request by one of \<open>handle_keyboard\<close>, whatever is printed and requested in between. The
  end of interrupt the handlers send leaves nothing in service, so that no line is blocked.
\<close>

theorem requests_served:
  assumes "pics_at io view" "serving (view (dev (mach (r 0))))" "disp_run io view r"
    and "weakly_fair view 0 (handle_timer io) r" "strongly_fair view 1 (handle_keyboard io) r"
  shows "(bit (irr (r n)) 0 \<longrightarrow> (\<exists>i \<ge> n. serves view 0 (handle_timer io) (r i) (r (Suc i)))) \<and>
    (bit (irr (r n)) 1 \<longrightarrow> (\<exists>i \<ge> n. serves view 1 (handle_keyboard io) (r i) (r (Suc i))))"
  by (rule run_serves [OF assms])

text \<open>A run with a pending request of the timer that is served at once; \<open>d\<close> is the hardware as the request is delivered.\<close>

definition tick_run :: "'d io_bus \<Rightarrow> 'd \<Rightarrow> 'd machine \<Rightarrow> nat \<Rightarrow> 'd system" where
  "tick_run io d m n =
     (if n = 0 then \<lparr>mach = m, irr = 1\<rparr> else \<lparr>mach = handle_timer io (m\<lparr>dev := d\<rparr>), irr = 0\<rparr>)"

lemma tick_run_fair:
  assumes "serving (view (dev m))" "view d = raise_line 0 (view (dev m))"
  shows "disp_run io view (tick_run io d m)" "weakly_fair view 0 (handle_timer io) (tick_run io d m)"
    "strongly_fair view 1 (handle_keyboard io) (tick_run io d m)"
proof -
  let ?r = "tick_run io d m"
  have rest: "irr (?r n) = 0" "?r (Suc n) = ?r n" if "0 < n" for n using that by (simp_all add: tick_run_def)
  have first: "serves view 0 (handle_timer io) (?r 0) (?r (Suc 0))"
    using timer_offered [OF assms(1), of 1] assms(2) by (auto simp: serves_def tick_run_def)
  show "disp_run io view ?r"
    unfolding disp_run_def
  proof
    fix n
    show "disp_step io view (?r n) (?r (Suc n))"
      using disp_timer [OF first] rest(2) [of n] disp_idle [of io view "?r n"] by (cases n) simp_all
  qed
  have none: "\<not> can_dispatch ps (irr (?r (Suc n))) k" for ps n k by (simp add: rest(1) can_dispatch_def)
  show "weakly_fair view 0 (handle_timer io) ?r"
    unfolding weakly_fair_def using none by (meson le_SucI le_refl)
  show "strongly_fair view 1 (handle_keyboard io) ?r"
    unfolding strongly_fair_def
  proof (intro allI impI)
    fix n
    assume "\<forall>i \<ge> n. \<exists>j \<ge> i. can_dispatch (view (dev (mach (?r j)))) (irr (?r j)) 1"
    then obtain j where "Suc n \<le> j" "can_dispatch (view (dev (mach (?r j)))) (irr (?r j)) 1" by (meson le_SucI le_refl)
    then show "\<exists>i \<ge> n. serves view 1 (handle_keyboard io) (?r i) (?r (Suc i))" using none by (cases j) auto
  qed
qed

theorem requests_served_witness:
  "let m = \<lparr>console = Video_new (\<lambda>_. 0), dev = \<lparr>master = pic0, slave = pic0\<rparr>\<rparr>;
       r = tick_run pics_bus (raise_line 0 (dev m)) m
   in serving (dev m) \<and> disp_run pics_bus (\<lambda>ps. ps) r \<and> bit (irr (r 0)) 0 \<and>
      (\<exists>i. serves (\<lambda>ps. ps) 0 (handle_timer pics_bus) (r i) (r (Suc i)))"
proof -
  define m :: "pics machine" where "m = \<lparr>console = Video_new (\<lambda>_. 0), dev = \<lparr>master = pic0, slave = pic0\<rparr>\<rparr>"
  define r where "r = tick_run pics_bus (raise_line 0 (dev m)) m"
  have m: "serving (dev m)" by (simp add: m_def serving_def operating_def pic0_def line_masked_def)
  note run = tick_run_fair [where view = "\<lambda>ps. ps", OF m refl, of pics_bus, folded r_def]
  have r0: "serving (dev (mach (r 0)))" "bit (irr (r 0)) 0" using m by (simp_all add: r_def tick_run_def)
  have "\<exists>i. serves (\<lambda>ps. ps) 0 (handle_timer pics_bus) (r i) (r (Suc i))"
    using requests_served [OF pics_bus_at r0(1) run, of 0] r0(2) by blast
  then show ?thesis using m run(1) r0(2) unfolding Let_def m_def [symmetric] r_def [symmetric] by blast
qed

lemma disp_run_inv:
  assumes "disp_run io view r" "pics_at io view" "serving (view (dev (mach (r 0))))" "video_ok (console (mach (r 0)))"
  shows "sys_inv view (mach (r 0)) (mach (r n))"
proof -
  have "sys_reachable io view (mach (r 0)) (mach (r n))"
  proof (induction n)
    case (Suc n)
    have "sys_reachable io view (mach (r n)) (mach (r (Suc n)))"
      using assms(1) by (intro disp_step_simulated) (simp add: disp_run_def)
    with Suc show ?case unfolding sys_reachable_def by (rule rtranclp_trans)
  qed (simp add: sys_reachable_def)
  from sys_reachable_inv [OF this assms(2)] show ?thesis
    using assms(3,4) by (simp add: sys_inv_def serving_def same_beyond_def)
qed

end
