(* ===== verification/Boot.thy ===== *)
theory Boot
  imports BootPaging Kernel Dispatch
begin

text \<open>
  From the boot loader to the return of \<open>kernel_main\<close>: the boot code (boot/boot.s) with its page tables, masks and control
  registers, the constructors of the two global objects (utils/video.cpp, utils/serial.cpp), which \<open>_init\<close> runs, and the
  kernel. The kernel's memory is physical memory seen from \<open>KERNEL_VIRTUAL_BASE\<close> on, which the page tables justify.
  The screen memory is the array of \<open>Video\<close>. Importing \<open>PageTables\<close> makes the one-letter names of its flags constants.
\<close>

section \<open>Operations\<close>

record control_regs =
  cr0 :: u32
  cr3 :: u64
  cr4 :: u32
  efer :: u64

definition enter_long_mode :: "u64 \<Rightarrow> control_regs \<Rightarrow> control_regs" where
  "enter_long_mode pml4 c =
     (let c1 = c\<lparr>cr4 := 0xB0\<rparr>;
          c2 = c1\<lparr>cr3 := ucast (ucast (pml4 - KERNEL_VIRTUAL_BASE) :: u32)\<rparr>;
          c3 = c2\<lparr>efer := efer c2 OR 0x100\<rparr>
      in c3\<lparr>cr0 := cr0 c3 OR 0x80000001\<rparr>)"

definition mask_irqs :: "'d io_bus \<Rightarrow> 'd \<Rightarrow> 'd" where
  "mask_irqs io dv = outb io 0x21 0xFF (outb io 0xA1 0xFF dv)"

text \<open>
  The temporary descriptor table \<open>boot_GDT\<close>, given by its words, and its pointer: the limit counts the two bytes of
  padding too. \<open>ss\<close>, \<open>gs\<close>, \<open>fs\<close>, \<open>ds\<close> and \<open>es\<close> get the data selector, the far jump loads the code selector.
\<close>

definition boot_GDT :: "gdt_entry_t list" where
  "boot_GDT = map (\<lambda>w. gdt_build (unpack_fields gdt_widths w)) [0, 0x00AF9A000000FFFF, 0x00AF92000000FFFF]"

definition load_boot_gdt :: "cpu_segments \<Rightarrow> cpu_segments" where
  "load_boot_gdt c =
     (let c1 = c\<lparr>gdtr_base := boot_GDT, gdtr_limit := 3 * 8 + 2 - 1\<rparr>;
          c2 = c1\<lparr>data_selectors := 0x0010\<rparr>
      in c2\<lparr>code_selector := 0x0008\<rparr>)"

text \<open>\<open>_init\<close>: the global objects \<open>screen\<close> and \<open>DEBUG_PORT\<close>.\<close>

definition construct_globals :: "'d io_bus \<Rightarrow> 'd kernel \<Rightarrow> SerialPort \<times> 'd kernel" where
  "construct_globals io k =
     (let k1 = k\<lparr>scr := Video_new (videomem (scr k))\<rparr>;
          (p, dv) = SerialPort_new io 0x3f8 (kdev k1)
      in (p, with_dev dv k1))"

record link_addrs =
  l_PML4 :: u64
  l_PDPT :: u64
  l_boot_start :: u64
  l_kernel_end :: u64

record 'd boot_state =
  phys :: mem
  regs :: control_regs
  kern :: "'d kernel"

definition higher_half :: "mem \<Rightarrow> mem" where
  "higher_half m = (\<lambda>va. m (va - KERNEL_VIRTUAL_BASE))"

definition start :: "'d io_bus \<Rightarrow> environment \<Rightarrow> link_addrs \<Rightarrow> u32 \<Rightarrow> 'd boot_state \<Rightarrow> (int \<times> 'd boot_state) result" where
  "start io e l ebx b =
     (let m1 = start_tables (l_PML4 l) (l_PDPT l) (phys b);
          k1 = with_dev (mask_irqs io (kdev (kern b))) (kern b);
          c1 = enter_long_mode (l_PML4 l) (regs b);
          k2 = k1\<lparr>segments := (fst (segments k1), load_boot_gdt (snd (segments k1)))\<rparr>
      in rbind (drop_identity (cr3 c1) (l_PML4 l) (l_PDPT l) m1) (\<lambda>m2.
         let k3 = k2\<lparr>km := (km k2)\<lparr>k_mem := higher_half m2\<rparr>\<rparr>;
             (p, k4) = construct_globals io k3
         in rbind (kernel_main io p e (l_PML4 l) (l_boot_start l + KERNEL_VIRTUAL_BASE) (l_kernel_end l)
              KERNEL_VIRTUAL_BASE (ucast ebx + KERNEL_VIRTUAL_BASE) k4) (\<lambda>(r, k5).
            Inr (r, \<lparr>phys = (\<lambda>pa. k_mem (km k5) (pa + KERNEL_VIRTUAL_BASE)), regs = c1, kern = k5\<rparr>))))"

section \<open>What the boot code leaves behind\<close>

definition long_mode :: "control_regs \<Rightarrow> bool" where
  "long_mode c \<longleftrightarrow> bit (cr0 c) 0 \<and> bit (cr0 c) 31 \<and> bit (cr4 c) 5 \<and> bit (efer c) 8"

lemma enter_long_mode_enters: "long_mode (enter_long_mode pml4 c)"
  by (simp add: long_mode_def enter_long_mode_def Let_def bit_or_iff)

lemma enter_long_mode_cr3:
  assumes "tables_at pml4 pdpt"
  shows "cr3 (enter_long_mode pml4 c) = pml4 - KERNEL_VIRTUAL_BASE"
  using u32_cell [of "pml4 - KERNEL_VIRTUAL_BASE" 0] assms by (simp add: enter_long_mode_def Let_def tables_at_def)

text \<open>The temporary table has the null descriptor and the kernel's code and data descriptors; \<open>init_gdt\<close> replaces all of it.\<close>

lemma boot_GDT_entries:
  "boot_GDT = [gdt_entry_zero, gdt_entry_t_new 0 0 0xfffff 1 0 1 (gdt_entry_access_t_new 0 1 0 1 1 0),
     gdt_entry_t_new 0 0 0xfffff 1 0 1 (gdt_entry_access_t_new 0 1 0 0 1 0)]"
  by (simp only: boot_GDT_def segment_words(1-3) [symmetric] list.map gdt_entry.decode_encode)

lemma init_gdt_cpu: "init_gdt res0 (t, c) = init_gdt res0 (t, c')"
  by (simp add: init_gdt_def Let_def load_gdt_def reload_segments_def)

lemma mask_irqs_view:
  assumes "pics_at io view" "operating (view dv)"
  shows "operating (view (mask_irqs io dv))" "line_masked (view (mask_irqs io dv)) k \<longleftrightarrow> k < 16"
  using assms(2) bit_imp_le_length [of "0xFF :: u8" "k - 8"]
  by (auto simp: mask_irqs_def pics_atD [OF assms(1)] pics_write_def pic_data_def operating_def line_masked_def bit_255
      simp del: bit_numeral_word_iff)

lemma construct_globals_effect:
  assumes "uart_at io 0x3f8 uv" "\<not> dlab (uv (kdev k))" "pics_at io pv" "construct_globals io k = (p, k')"
  shows "p = \<lparr>portnum = 0x3f8, is_valid = True\<rparr>" "line_up (uv (kdev k'))" "sent (uv (kdev k')) = sent (uv (kdev k))"
    "pv (kdev k') = pv (kdev k)" "scr k' = Video_new (videomem (scr k))" "km k' = km k" "segments k' = segments k"
    "\<exists>dv. ints k' = (ints k)\<lparr>pic_dev := dv\<rparr>"
proof -
  obtain dv where new: "SerialPort_new io 0x3f8 (kdev k) = (p, dv)" "k' = with_dev dv (k\<lparr>scr := Video_new (videomem (scr k))\<rparr>)"
    using assms(4) by (auto simp: construct_globals_def Let_def kdev_def split: prod.splits)
  from uart_new [OF assms(1,2) new(1)] new(2)
  show "p = \<lparr>portnum = 0x3f8, is_valid = True\<rparr>" "line_up (uv (kdev k'))" "sent (uv (kdev k')) = sent (uv (kdev k))"
    by (simp_all add: line_up_def dlab_def loopback_def)
  have "dv = snd (SerialPort_new io 0x3f8 (kdev k))" by (simp add: new(1))
  then have "pv dv = pv (kdev k)"
    by (simp add: SerialPort_new_def Let_def serial_regs case_prod_unfold pics_atD [OF assms(3)] outbs_view [OF assms(3)] pics_write_def)
  then show "pv (kdev k') = pv (kdev k)" by (simp add: new(2))
  show "scr k' = Video_new (videomem (scr k))" "km k' = km k" "segments k' = segments k" "\<exists>dv. ints k' = (ints k)\<lparr>pic_dev := dv\<rparr>"
    by (auto simp: new(2) with_dev_def)
qed

lemma paging_init_mem: "k_mem (paging_init base kend n k) = k_mem k"
  by (simp add: paging_init_def Let_def case_prod_unfold)

lemma boot_memory_word:
  assumes "maps_gigabyte (pml4 - KERNEL_VIRTUAL_BASE) p3 {511} ix3 m"
  shows "load64 (higher_half m) (pml4 + 8 * 0x1ff) = p3 OR 3"
proof -
  have "load64 (higher_half m) (pml4 + 8 * 0x1ff) = load64 m (pml4 - KERNEL_VIRTUAL_BASE + 8 * of_nat 511)"
    by (rule bit_word_eqI) (simp add: bit_load64 higher_half_def algebra_simps)
  then show ?thesis using assms by (simp add: maps_gigabyte_def del: of_nat_numeral)
qed
section \<open>The whole start-up\<close>

text \<open>The machine as the boot loader leaves it: hardware at its ports, empty tables in the loaded image.\<close>

definition loaded_ok :: "'d io_bus \<Rightarrow> ('d \<Rightarrow> uart) \<Rightarrow> ('d \<Rightarrow> pics) \<Rightarrow> link_addrs \<Rightarrow> 'd boot_state \<Rightarrow> bool" where
  "loaded_ok io uv pv l b \<longleftrightarrow>
     tables_at (l_PML4 l) (l_PDPT l) \<and> table_empty (phys b) (l_PML4 l) \<and> table_empty (phys b) (l_PDPT l) \<and>
     uart_at io 0x3f8 uv \<and> uart_elsewhere io 0x3f8 uv \<and> \<not> dlab (uv (kdev (kern b))) \<and>
     pics_at io pv \<and> operating (pv (kdev (kern b))) \<and> IDT (ints (kern b)) = replicate 256 gate_zero \<and>
     calc_me (ints (kern b)) = 0"

text \<open>The kernel as the constructors leave it is one that \<open>kernel_main\<close> expects.\<close>

lemma loaded_machine_ok:
  assumes "loaded_ok io uv pv l b" "construct_globals io ((with_dev (mask_irqs io (kdev (kern b))) (kern b))\<lparr>segments := sg, km := mk\<rparr>) = (p, k)"
  shows "machine_ok io p uv pv k" "p = \<lparr>portnum = 0x3f8, is_valid = True\<rparr>" "line_masked (pv (kdev k)) n \<longleftrightarrow> n < 16"
    "sent (uv (kdev k)) = sent (uv (kdev (kern b)))" "km k = mk" "scr k = Video_new (videomem (scr (kern b)))"
    "IDT (ints k) = replicate 256 gate_zero" "segments k = sg"
proof -
  have hw: "uart_at io 0x3f8 uv" "uart_elsewhere io 0x3f8 uv" "\<not> dlab (uv (kdev (kern b)))" "pics_at io pv"
    "operating (pv (kdev (kern b)))" "IDT (ints (kern b)) = replicate 256 gate_zero" "calc_me (ints (kern b)) = 0"
    using assms(1) by (simp_all add: loaded_ok_def)
  define k1 where "k1 = (with_dev (mask_irqs io (kdev (kern b))) (kern b))\<lparr>segments := sg, km := mk\<rparr>"
  have k1: "kdev k1 = mask_irqs io (kdev (kern b))" "IDT (ints k1) = replicate 256 gate_zero" "calc_me (ints k1) = 0"
    "km k1 = mk" "scr k1 = scr (kern b)" "segments k1 = sg"
    by (simp_all add: k1_def kdev_def with_dev_def hw)
  have u: "uv (kdev k1) = uv (kdev (kern b))" by (simp add: k1(1) mask_irqs_def elsewhere_simps [OF hw(2)])
  then have latch: "\<not> dlab (uv (kdev k1))" using hw(3) by simp
  note g = construct_globals_effect [OF hw(1) latch hw(4) assms(2) [folded k1_def]]
  note masks = mask_irqs_view [OF hw(4,5)]
  obtain dv where dv: "ints k = (ints k1)\<lparr>pic_dev := dv\<rparr>" using g(8) by blast
  show "p = \<lparr>portnum = 0x3f8, is_valid = True\<rparr>" by (rule g(1))
  show "machine_ok io p uv pv k"
    using hw g(1,2,4) masks(1) k1 by (simp add: machine_ok_def dv)
  show "line_masked (pv (kdev k)) n \<longleftrightarrow> n < 16" using masks(2) by (simp add: g(4) k1(1))
  show "sent (uv (kdev k)) = sent (uv (kdev (kern b)))" using g(3) u by simp
  show "km k = mk" "scr k = Video_new (videomem (scr (kern b)))" "IDT (ints k) = replicate 256 gate_zero" "segments k = sg"
    using g(5-7) k1 by (simp_all add: dv)
qed

lemma start_run:
  assumes "loaded_ok io uv pv l b" "e_hi_port e = 0" "e_hi_line e = 0" "boot_memory (l_PML4 l) (l_PDPT l) (phys b) = Inr m"
    and "tags_from (higher_half m) (ucast ebx + KERNEL_VIRTUAL_BASE + 8) (first # ts)"
    and "\<exists>t \<in> set ts. tag_type (higher_half m) t = 4"
  shows "\<exists>b'. start io e l ebx b = Inr (0, b') \<and> long_mode (regs b') \<and>
    (\<forall>va. page_walk (phys b') (cr3 (regs b')) va =
      (if va - KERNEL_VIRTUAL_BASE < 2 ^ 30 then Some (va - KERNEL_VIRTUAL_BASE) else None)) \<and>
    segments (kern b') = init_gdt (e_res0 e) (segments (kern b)) \<and>
    interrupt_flag (ints (kern b')) \<and> installed (e_ist0 e) (e_handlers e) (replicate 256 gate_zero) (IDT (ints (kern b'))) \<and>
    (\<forall>n < 16. line_masked (pv (kdev (kern b'))) n \<longleftrightarrow> 2 \<le> n) \<and> serving (pv (kdev (kern b'))) \<and>
    (let t = last (filter (\<lambda>t. tag_type (higher_half m) t = 4) ts);
         pages = ucast (drop_bit 2 (mem_upper (read_meminfo (higher_half m) t)) + 0x120)
     in km (kern b') = paging_init KERNEL_VIRTUAL_BASE (l_kernel_end l) pages ((km (kern b))\<lparr>k_mem := higher_half m\<rparr>)) \<and>
    sent (uv (kdev (kern b'))) = sent (uv (kdev (kern b))) @
      map of_char (report_text e (l_PML4 l) (l_boot_start l + KERNEL_VIRTUAL_BASE) (km (kern b'))) \<and>
    load64 (k_mem (km (kern b'))) (l_PML4 l + 8 * 0x1ff) = (l_PDPT l - KERNEL_VIRTUAL_BASE) OR 3 \<and> video_ok (scr (kern b'))"
proof -
  have tabs: "tables_at (l_PML4 l) (l_PDPT l)" "table_empty (phys b) (l_PML4 l)" "table_empty (phys b) (l_PDPT l)"
    using assms(1) by (simp_all add: loaded_ok_def)
  have maps: "maps_gigabyte (l_PML4 l - KERNEL_VIRTUAL_BASE) (l_PDPT l - KERNEL_VIRTUAL_BASE) {511} {510} m"
    using boot_memory_maps [OF tabs] assms(4) by (metis sum.inject(2))
  define mk where "mk = (km (kern b))\<lparr>k_mem := higher_half m\<rparr>"
  define sg where "sg = (fst (segments (kern b)), load_boot_gdt (snd (segments (kern b))))"
  define k1 where "k1 = (with_dev (mask_irqs io (kdev (kern b))) (kern b))\<lparr>segments := sg, km := mk\<rparr>"
  obtain p k where pk: "construct_globals io k1 = (p, k)" by fastforce
  note ok = loaded_machine_ok [OF assms(1) pk [unfolded k1_def]]
  have mem: "k_mem (km k) = higher_half m" by (simp add: ok(5) mk_def)
  have seg: "init_gdt (e_res0 e) (segments k) = init_gdt (e_res0 e) (segments (kern b))"
    using init_gdt_cpu [of "e_res0 e" "fst (segments (kern b))" "snd (segments (kern b))"] by (simp only: ok(8) sg_def prod.collapse)
  have room: "head_room (scr k) (length (hello_text @ valid_text p))"
    by (simp add: ok(2,6) head_room_def Video_new_def Video_clear_def hello_text_def valid_text_def nl_def
        hex_text_def padded_def numeral_text.simps digit_chars_def)
  have valid: "is_valid p" by (simp add: ok(2))
  obtain k' where k': "kernel_main io p e (l_PML4 l) (l_boot_start l + KERNEL_VIRTUAL_BASE) (l_kernel_end l)
      KERNEL_VIRTUAL_BASE (ucast ebx + KERNEL_VIRTUAL_BASE) k = Inr (0, k')"
    "segments k' = init_gdt (e_res0 e) (segments k)" "interrupt_flag (ints k')"
    "installed (e_ist0 e) (e_handlers e) (IDT (ints k)) (IDT (ints k'))"
    "let t = last (filter (\<lambda>t. tag_type (higher_half m) t = 4) ts);
         pages = ucast (drop_bit 2 (mem_upper (read_meminfo (higher_half m) t)) + 0x120)
     in km k' = paging_init KERNEL_VIRTUAL_BASE (l_kernel_end l) pages (km k)"
    "sent (uv (kdev k')) = sent (uv (kdev k)) @ map of_char (report_text e (l_PML4 l) (l_boot_start l + KERNEL_VIRTUAL_BASE) (km k'))"
    "video_ok (scr k')"
    using kernel_main_run [OF ok(1) valid assms(2,3) assms(5,6) [folded mem] room] unfolding mem by blast
  have lines: "\<forall>n < 16. line_masked (pv (kdev k')) n \<longleftrightarrow> 2 \<le> n" using kernel_main_lines(1) [OF ok(1) k'(1)] ok(3) by simp
  have serving: "serving (pv (kdev k'))"
    using lines kernel_main_lines(2) [OF ok(1) k'(1)] by (auto simp: serving_def operating_def with_masks_def remapped_def)
  have "k_mem (km k') = higher_half m" using k'(5) by (simp add: Let_def paging_init_mem mem)
  then have mem': "k_mem (km k') = higher_half m" "(\<lambda>pa. k_mem (km k') (pa + KERNEL_VIRTUAL_BASE)) = m"
    by (simp_all add: higher_half_def)
  define c where "c = enter_long_mode (l_PML4 l) (regs b)"
  have cr3: "cr3 c = l_PML4 l - KERNEL_VIRTUAL_BASE" unfolding c_def by (rule enter_long_mode_cr3 [OF tabs(1)])
  have run: "start io e l ebx b = Inr (0, \<lparr>phys = m, regs = c, kern = k'\<rparr>)"
    using assms(4) k'(1) pk unfolding start_def Let_def c_def [symmetric] cr3 boot_memory_def k1_def mk_def sg_def
    by (simp add: mem'(2))
  show ?thesis
    using run k' lines serving ok(4,5,7) walk_boot_memory [OF tabs(1) maps] boot_memory_word [OF maps] mem'(1) seg cr3
      enter_long_mode_enters [of "l_PML4 l" "regs b"]
    by (intro exI [of _ "\<lparr>phys = m, regs = c, kern = k'\<rparr>"]) (simp add: c_def mk_def)
qed

text \<open>
  C1: The system comes up. On a machine as the boot loader leaves it, whose boot information has a memory tag
  behind the first tag, the boot code, the constructors and \<open>kernel_main\<close> run through and return 0. Then the processor is in long
  mode, exactly the gigabyte from \<open>KERNEL_VIRTUAL_BASE\<close> on is mapped, the descriptor tables are set up, interrupts are enabled, and of the
  16 interrupt lines exactly those of the timer and the keyboard can interrupt, with nothing in service; the page allocator is
  initialised; and the serial line has carried the report, in which the value of the page table entry is
  that of the entry for the kernel.
\<close>

theorem system_comes_up:
  assumes "loaded_ok io uv pv l b" "e_hi_port e = 0" "e_hi_line e = 0" "boot_memory (l_PML4 l) (l_PDPT l) (phys b) = Inr m"
    and "tags_from (higher_half m) (ucast ebx + KERNEL_VIRTUAL_BASE + 8) (first # ts)"
    and "\<exists>t \<in> set ts. tag_type (higher_half m) t = 4"
  shows "\<exists>b'. start io e l ebx b = Inr (0, b') \<and> long_mode (regs b') \<and>
    (\<forall>va. page_walk (phys b') (cr3 (regs b')) va =
      (if va - KERNEL_VIRTUAL_BASE < 2 ^ 30 then Some (va - KERNEL_VIRTUAL_BASE) else None)) \<and>
    segments (kern b') = init_gdt (e_res0 e) (segments (kern b)) \<and>
    interrupt_flag (ints (kern b')) \<and> installed (e_ist0 e) (e_handlers e) (replicate 256 gate_zero) (IDT (ints (kern b'))) \<and>
    (\<forall>n < 16. line_masked (pv (kdev (kern b'))) n \<longleftrightarrow> 2 \<le> n) \<and> serving (pv (kdev (kern b'))) \<and>
    (let t = last (filter (\<lambda>t. tag_type (higher_half m) t = 4) ts);
         pages = ucast (drop_bit 2 (mem_upper (read_meminfo (higher_half m) t)) + 0x120)
     in km (kern b') = paging_init KERNEL_VIRTUAL_BASE (l_kernel_end l) pages ((km (kern b))\<lparr>k_mem := higher_half m\<rparr>)) \<and>
    sent (uv (kdev (kern b'))) = sent (uv (kdev (kern b))) @
      map of_char (report_text e (l_PML4 l) (l_boot_start l + KERNEL_VIRTUAL_BASE) (km (kern b'))) \<and>
    load64 (k_mem (km (kern b'))) (l_PML4 l + 8 * 0x1ff) = (l_PDPT l - KERNEL_VIRTUAL_BASE) OR 3"
  using start_run [OF assms] by blast

text \<open>The machine of \<open>boot_bus\<close>, loaded at the addresses of the linker script.\<close>

definition boot_links :: link_addrs where
  "boot_links = \<lparr>l_PML4 = 0xFFFFFFFF80109000, l_PDPT = 0xFFFFFFFF8010A000, l_boot_start = 0x100000, l_kernel_end = 0xFFFFFFFF80200000\<rparr>"

definition boot_loaded :: "(uart \<times> pics) boot_state" where
  "boot_loaded = \<lparr>phys = boot_mem, regs = \<lparr>cr0 = 1, cr3 = 0, cr4 = 0, efer = 0\<rparr>, kern = boot_kernel\<rparr>"

lemma boot_mem_high: "0x2000 \<le> unat b \<Longrightarrow> boot_mem b = 0"
  by (auto simp: boot_mem_def)

lemma boot_mem_tables:
  fixes t :: u64
  assumes "0x2000 \<le> unat (t - KERNEL_VIRTUAL_BASE)" "unat (t - KERNEL_VIRTUAL_BASE) < 2 ^ 30"
  shows "table_empty boot_mem t"
proof -
  define q where "q = t - KERNEL_VIRTUAL_BASE"
  have "load64 boot_mem (q + 8 * of_nat i) = load64 (\<lambda>_. 0) (q + 8 * of_nat i)" if "i < 512" for i
  proof (rule load64_cong)
    fix j :: nat
    assume "j < 8"
    have "unat (of_nat (unat q + (8 * i + j)) :: u64) = unat q + (8 * i + j)"
      using assms that \<open>j < 8\<close> by (intro unat_of_nat_u64) (simp add: q_def)
    then have "unat (q + 8 * of_nat i + of_nat j) = unat q + (8 * i + j)"
      by (simp only: of_nat_add of_nat_mult word_of_unat of_nat_numeral add.assoc)
    then show "boot_mem (q + 8 * of_nat i + of_nat j) = 0" using assms by (intro boot_mem_high) (simp add: q_def)
  qed
  then show ?thesis by (simp add: table_empty_def q_def load64_def)
qed

lemma boot_loaded_ok: "loaded_ok boot_bus fst snd boot_links boot_loaded"
proof -
  have "table_empty boot_mem 0xFFFFFFFF80109000" "table_empty boot_mem 0xFFFFFFFF8010A000"
    by (rule boot_mem_tables; simp add: KERNEL_VIRTUAL_BASE_def)+
  then show ?thesis
    using tables_example(1) boot_machine_ok [of True]
    by (simp add: loaded_ok_def boot_links_def boot_loaded_def machine_ok_def line_up_def boot_kernel_def)
qed

lemma boot_loads:
  assumes "boot_memory 0xFFFFFFFF80109000 0xFFFFFFFF8010A000 boot_mem = Inr m"
  shows "load32 (higher_half m) 0xFFFFFFFF80001008 = 6" "load32 (higher_half m) 0xFFFFFFFF8000100C = 8"
    "load32 (higher_half m) 0xFFFFFFFF80001010 = 4" "load32 (higher_half m) 0xFFFFFFFF80001014 = 16"
    "load32 (higher_half m) 0xFFFFFFFF8000101C = 0x4000" "load32 (higher_half m) 0xFFFFFFFF80001020 = 0"
proof -
  have kvb: "0xFFFFFFFF80109000 - KERNEL_VIRTUAL_BASE = 0x109000" "0xFFFFFFFF8010A000 - KERNEL_VIRTUAL_BASE = 0x10A000"
    by (simp_all add: KERNEL_VIRTUAL_BASE_def)
  have "table_empty boot_mem 0xFFFFFFFF80109000" "table_empty boot_mem 0xFFFFFFFF8010A000"
    by (rule boot_mem_tables; simp add: KERNEL_VIRTUAL_BASE_def)+
  then obtain m' where "boot_memory 0xFFFFFFFF80109000 0xFFFFFFFF8010A000 boot_mem = Inr m'"
    "\<And>c. 4096 \<le> c - 0x109000 \<Longrightarrow> 4096 \<le> c - 0x10A000 \<Longrightarrow> m' c = boot_mem c"
    using boot_memory_maps [OF tables_example(1), unfolded kvb] by metis
  then have frame: "m c = boot_mem c" if "4096 \<le> c - 0x109000" "4096 \<le> c - 0x10A000" for c using assms that by simp
  show "load32 (higher_half m) 0xFFFFFFFF80001008 = 6" "load32 (higher_half m) 0xFFFFFFFF8000100C = 8"
    "load32 (higher_half m) 0xFFFFFFFF80001010 = 4" "load32 (higher_half m) 0xFFFFFFFF80001014 = 16"
    "load32 (higher_half m) 0xFFFFFFFF8000101C = 0x4000" "load32 (higher_half m) 0xFFFFFFFF80001020 = 0"
    by (simp_all add: load32_bytes higher_half_def KERNEL_VIRTUAL_BASE_def frame boot_mem_def)
qed

lemma boot_example:
  obtains m where "boot_memory (l_PML4 boot_links) (l_PDPT boot_links) (phys boot_loaded) = Inr m"
    "tags_from (higher_half m) (ucast (0x1000 :: u32) + KERNEL_VIRTUAL_BASE + 8) [0xFFFFFFFF80001008, 0xFFFFFFFF80001010]"
    "\<exists>t \<in> set [0xFFFFFFFF80001010]. tag_type (higher_half m) t = 4"
proof -
  have links: "l_PML4 boot_links = 0xFFFFFFFF80109000" "l_PDPT boot_links = 0xFFFFFFFF8010A000" "phys boot_loaded = boot_mem"
    by (simp_all add: boot_links_def boot_loaded_def)
  obtain m where m: "boot_memory (l_PML4 boot_links) (l_PDPT boot_links) (phys boot_loaded) = Inr m"
    using boot_loaded_ok boot_memory_maps [of "l_PML4 boot_links"] unfolding loaded_ok_def by metis
  note loads = boot_loads [OF m [unfolded links]]
  show thesis
    by (rule that [OF m]) (use loads in \<open>simp_all add: KERNEL_VIRTUAL_BASE_def tag_type_def tag_size_def next_tag_def round_up_8_def\<close>)
qed

theorem system_comes_up_witness:
  "loaded_ok boot_bus fst snd boot_links boot_loaded \<and>
   (\<exists>b'. start boot_bus boot_env boot_links 0x1000 boot_loaded = Inr (0, b') \<and> long_mode (regs b') \<and>
     page_walk (phys b') (cr3 (regs b')) 0xFFFFFFFF800B8000 = Some 0xB8000 \<and>
     interrupt_flag (ints (kern b')) \<and> load64 (k_mem (km (kern b'))) 0xFFFFFFFF80109FF8 = 0x10A003)"
proof -
  have links: "l_PML4 boot_links = 0xFFFFFFFF80109000" "l_PDPT boot_links = 0xFFFFFFFF8010A000" by (simp_all add: boot_links_def)
  obtain m where m: "boot_memory (l_PML4 boot_links) (l_PDPT boot_links) (phys boot_loaded) = Inr m"
    "tags_from (higher_half m) (ucast (0x1000 :: u32) + KERNEL_VIRTUAL_BASE + 8) [0xFFFFFFFF80001008, 0xFFFFFFFF80001010]"
    "\<exists>t \<in> set [0xFFFFFFFF80001010]. tag_type (higher_half m) t = 4"
    by (rule boot_example)
  have hi: "e_hi_port boot_env = 0" "e_hi_line boot_env = 0" by (simp_all add: boot_env_def)
  obtain b' where b': "start boot_bus boot_env boot_links 0x1000 boot_loaded = Inr (0, b')" "long_mode (regs b')"
    "\<And>va. page_walk (phys b') (cr3 (regs b')) va =
      (if va - KERNEL_VIRTUAL_BASE < 2 ^ 30 then Some (va - KERNEL_VIRTUAL_BASE) else None)"
    "interrupt_flag (ints (kern b'))"
    "load64 (k_mem (km (kern b'))) (l_PML4 boot_links + 8 * 0x1ff) = (l_PDPT boot_links - KERNEL_VIRTUAL_BASE) OR 3"
    using system_comes_up [OF boot_loaded_ok hi m] by blast
  have "page_walk (phys b') (cr3 (regs b')) 0xFFFFFFFF800B8000 = Some 0xB8000"
    unfolding b'(3) by (simp add: KERNEL_VIRTUAL_BASE_def)
  moreover have "load64 (k_mem (km (kern b'))) 0xFFFFFFFF80109FF8 = 0x10A003"
    using b'(5) by (simp add: links KERNEL_VIRTUAL_BASE_def)
  ultimately show ?thesis using boot_loaded_ok b'(1,2,4) by blast
qed

text \<open>The processor halts after the start-up (\<open>hlt_loop\<close>) and only serves interrupts.\<close>

definition booted :: "'d boot_state \<Rightarrow> 'd machine" where
  "booted b = \<lparr>console = scr (kern b), dev = kdev (kern b)\<rparr>"

text \<open>
  C5: From power-on to service. On a machine as the boot loader leaves it the start-up returns, and in every run from the state it
  leaves, in which the processor takes the requests the controllers offer it, each pending request of the timer and of the
  keyboard is served, and the console stays in order for ever.
\<close>

theorem booted_system_serves:
  assumes "loaded_ok io uv pv l b" "e_hi_port e = 0" "e_hi_line e = 0" "boot_memory (l_PML4 l) (l_PDPT l) (phys b) = Inr m"
    and "tags_from (higher_half m) (ucast ebx + KERNEL_VIRTUAL_BASE + 8) (first # ts)"
    and "\<exists>t \<in> set ts. tag_type (higher_half m) t = 4"
  shows "\<exists>b'. start io e l ebx b = Inr (0, b') \<and>
    (\<forall>r. mach (r 0) = booted b' \<longrightarrow> disp_run io pv r \<longrightarrow>
      weakly_fair pv 0 (handle_timer io) r \<longrightarrow> strongly_fair pv 1 (handle_keyboard io) r \<longrightarrow>
      (\<forall>n. (bit (irr (r n)) 0 \<longrightarrow> (\<exists>i \<ge> n. serves pv 0 (handle_timer io) (r i) (r (Suc i)))) \<and>
        (bit (irr (r n)) 1 \<longrightarrow> (\<exists>i \<ge> n. serves pv 1 (handle_keyboard io) (r i) (r (Suc i)))) \<and>
        video_ok (console (mach (r n)))))"
proof -
  obtain b' where b': "start io e l ebx b = Inr (0, b')" "serving (pv (kdev (kern b')))" "video_ok (scr (kern b'))"
    using start_run [OF assms] by blast
  have pics: "pics_at io pv" using assms(1) by (simp add: loaded_ok_def)
  have "(bit (irr (r n)) 0 \<longrightarrow> (\<exists>i \<ge> n. serves pv 0 (handle_timer io) (r i) (r (Suc i)))) \<and>
      (bit (irr (r n)) 1 \<longrightarrow> (\<exists>i \<ge> n. serves pv 1 (handle_keyboard io) (r i) (r (Suc i)))) \<and>
      video_ok (console (mach (r n)))"
    if r: "mach (r 0) = booted b'" "disp_run io pv r" "weakly_fair pv 0 (handle_timer io) r" "strongly_fair pv 1 (handle_keyboard io) r"
    for r n
  proof -
    have ok: "serving (pv (dev (mach (r 0))))" "video_ok (console (mach (r 0)))" using b'(2,3) by (simp_all add: r(1) booted_def)
    then show ?thesis using run_serves [OF pics ok(1) r(2-4), of n] disp_run_inv [OF r(2) pics ok, of n] unfolding sys_inv_def by blast
  qed
  then show ?thesis using b'(1) by blast
qed

theorem booted_system_serves_witness:
  "loaded_ok boot_bus fst snd boot_links boot_loaded \<and>
   (\<exists>b' d. start boot_bus boot_env boot_links 0x1000 boot_loaded = Inr (0, b') \<and>
     (\<exists>i. serves snd 0 (handle_timer boot_bus) (tick_run boot_bus d (booted b') i) (tick_run boot_bus d (booted b') (Suc i))))"
proof -
  obtain m where m: "boot_memory (l_PML4 boot_links) (l_PDPT boot_links) (phys boot_loaded) = Inr m"
    "tags_from (higher_half m) (ucast (0x1000 :: u32) + KERNEL_VIRTUAL_BASE + 8) [0xFFFFFFFF80001008, 0xFFFFFFFF80001010]"
    "\<exists>t \<in> set [0xFFFFFFFF80001010]. tag_type (higher_half m) t = 4"
    by (rule boot_example)
  have hi: "e_hi_port boot_env = 0" "e_hi_line boot_env = 0" by (simp_all add: boot_env_def)
  obtain b1 where b1: "start boot_bus boot_env boot_links 0x1000 boot_loaded = Inr (0, b1)" "serving (snd (kdev (kern b1)))"
    using start_run [OF boot_loaded_ok hi m] by blast
  define d where "d = (fst (dev (booted b1)), raise_line 0 (snd (dev (booted b1))))"
  define r where "r = tick_run boot_bus d (booted b1)"
  have "serving (snd (dev (booted b1)))" "snd d = raise_line 0 (snd (dev (booted b1)))" using b1(2) by (simp_all add: booted_def d_def)
  note run = tick_run_fair [where view = snd, OF this, of boot_bus, folded r_def]
  have r0: "mach (r 0) = booted b1" "bit (irr (r 0)) 0" by (simp_all add: r_def tick_run_def)
  have "\<exists>i. serves snd 0 (handle_timer boot_bus) (r i) (r (Suc i))"
    using booted_system_serves [OF boot_loaded_ok hi m] b1(1) r0 run by (metis prod.inject sum.inject(2))
  then show ?thesis using boot_loaded_ok b1(1) unfolding r_def by blast
qed

end
