(* ===== verification/CString.thy ===== *)
theory CString
  imports Memory
begin

text \<open>
  The string and memory routines (utils/string.cpp, utils/string.h) and \<open>max\<close>/\<open>min\<close> (utils/algorithm.h), on the machine
  memory. \<open>strlen\<close> is a loop that may not end; the other two copy byte by byte in ascending order,
  so that overlapping ranges behave as the code makes them.
\<close>

section \<open>Operations\<close>

text \<open>\<open>while (str[len++]) {} return len - 1;\<close>\<close>

partial_function (option) strlen_loop :: "mem \<Rightarrow> u64 \<Rightarrow> u64 \<Rightarrow> u64 option" where
  "strlen_loop m str len = (if m (str + len) \<noteq> 0 then strlen_loop m str (len + 1) else Some (len + 1 - 1))"

definition strlen :: "mem \<Rightarrow> u64 \<Rightarrow> u64 result" where
  "strlen m str = of_loop (strlen_loop m str 0)"

definition memcpy :: "u64 \<Rightarrow> u64 \<Rightarrow> u64 \<Rightarrow> mem \<Rightarrow> mem" where
  "memcpy dst src len m = fold (\<lambda>i m. m(dst + of_nat i := m (src + of_nat i))) [0..<unat len] m"

definition memset :: "u64 \<Rightarrow> u8 \<Rightarrow> u64 \<Rightarrow> mem \<Rightarrow> mem" where
  "memset dst val len m = fold (\<lambda>i m. m(dst + of_nat i := val)) [0..<unat len] m"

text \<open>\<open>ZERO_ARR\<close> on an array of \<open>n\<close> elements of \<open>esize\<close> bytes: \<open>sizeof(arr) / sizeof(arr[0])\<close> is the third argument.\<close>

definition ZERO_ARR :: "u64 \<Rightarrow> nat \<Rightarrow> nat \<Rightarrow> mem \<Rightarrow> mem" where
  "ZERO_ARR arr n esize m = memset arr 0 (of_nat (n * esize div esize)) m"

text \<open>\<open>max\<close> and \<open>min\<close> return one of their reference arguments; \<open>True\<close> stands for the first.\<close>

definition max_ref :: "'a::linorder \<Rightarrow> 'a \<Rightarrow> bool" where
  "max_ref a b = (if a > b then True else False)"

definition min_ref :: "'a::linorder \<Rightarrow> 'a \<Rightarrow> bool" where
  "min_ref a b = (if a > b then False else True)"

section \<open>Properties\<close>

text \<open>The string at an address: the bytes before the first zero.\<close>

primrec string_at :: "mem \<Rightarrow> u64 \<Rightarrow> u8 list \<Rightarrow> bool" where
  "string_at m a [] \<longleftrightarrow> m a = 0"
| "string_at m a (c # cs) \<longleftrightarrow> m a = c \<and> c \<noteq> 0 \<and> string_at m (a + 1) cs"

lemma strlen_loop_string:
  "string_at m (str + len) t \<Longrightarrow> strlen_loop m str len = Some (len + of_nat (length t))"
proof (induction t arbitrary: len)
  case Nil
  then show ?case by (subst strlen_loop.simps) simp
next
  case (Cons c t)
  then show ?case using Cons.IH [of "len + 1"] by (subst strlen_loop.simps) (simp add: algebra_simps)
qed

text \<open>The bytes of a range, on the circle of addresses.\<close>

lemma offset_eq_iff: "n < 2 ^ 64 \<Longrightarrow> b = a + of_nat n \<longleftrightarrow> unat (b - a :: u64) = n"
proof
  assume "n < 2 ^ 64" "b = a + of_nat n"
  then show "unat (b - a) = n" by (simp add: unat_of_nat_u64)
next
  assume "unat (b - a) = n"
  then have "of_nat n = b - a" by (simp flip: \<open>unat (b - a) = n\<close>)
  then show "b = a + of_nat n" by simp
qed

lemma fold_bytes:
  assumes "n < 2 ^ 64" and "\<And>i m'. i < n \<Longrightarrow> (\<And>b. i \<le> unat (b - dst) \<Longrightarrow> m' b = m b) \<Longrightarrow> v i m' = w i"
  shows "fold (\<lambda>i m. m(dst + of_nat i := v i m)) [0..<n] m =
    (\<lambda>b. if unat (b - dst :: u64) < n then w (unat (b - dst)) else m b)"
  using assms
proof (induction n)
  case (Suc n)
  let ?m = "\<lambda>b. if unat (b - dst) < n then w (unat (b - dst)) else m b"
  have IH: "fold (\<lambda>i m. m(dst + of_nat i := v i m)) [0..<n] m = ?m"
    by (rule Suc.IH) (use Suc.prems in auto)
  have "v n ?m = w n" by (rule Suc.prems(2)) auto
  then have "fold (\<lambda>i m. m(dst + of_nat i := v i m)) [0..<Suc n] m = ?m(dst + of_nat n := w n)"
    using IH by simp
  also have "\<dots> = (\<lambda>b. if unat (b - dst) < Suc n then w (unat (b - dst)) else m b)"
    using Suc.prems(1) offset_eq_iff [of n _ dst] by (auto simp: fun_eq_iff less_Suc_eq)
  finally show ?case .
qed simp

lemma memset_eq: "memset dst val len m = (\<lambda>b. if b - dst < len then val else m b)"
  using fold_bytes [OF unat_u64_less, of len dst m "\<lambda>_ _. val" "\<lambda>_. val"] by (simp add: memset_def word_less_nat_alt)

lemma memcpy_eq:
  assumes "dst = src \<or> len \<le> dst - src"
  shows "memcpy dst src len m = (\<lambda>b. if b - dst < len then m (src + (b - dst)) else m b)"
proof -
  have "fold (\<lambda>i m. m(dst + of_nat i := m (src + of_nat i))) [0..<unat len] m =
    (\<lambda>b. if unat (b - dst) < unat len then m (src + of_nat (unat (b - dst))) else m b)"
  proof (rule fold_bytes)
    fix i and m' :: mem assume i: "i < unat len" and m': "\<And>b. i \<le> unat (b - dst) \<Longrightarrow> m' b = m b"
    have ui: "unat (of_nat i :: u64) = i" using i by (intro unat_of_nat_u64) (meson less_trans unat_u64_less)
    show "m' (src + of_nat i) = m (src + of_nat i)"
    proof (rule m')
      show "i \<le> unat (src + of_nat i - dst)"
      proof (cases "dst = src")
        case False
        then have "unat len \<le> unat (dst - src)" using assms by (simp add: word_le_nat_alt)
        then have "unat (of_nat i - (dst - src)) = 2 ^ 64 + i - unat (dst - src)"
          using i ui by (subst unat_sub_if_size) (simp add: word_size)
        moreover have "src + of_nat i - dst = of_nat i - (dst - src)" by simp
        ultimately show ?thesis using less_imp_le [OF unat_u64_less [of "dst - src"]] by (simp only:)
      qed (simp add: ui)
    qed
  qed (rule unat_u64_less)
  then show ?thesis by (simp add: memcpy_def word_less_nat_alt word_of_unat fun_eq_iff)
qed

text \<open>
  \<open>ZERO_ARR\<close> clears its array, whatever it held, exactly when the elements are single bytes: it passes the number of
  elements where \<open>memset\<close> counts bytes.
\<close>

theorem ZERO_ARR_clears_iff:
  assumes "0 < n" "0 < esize" "n * esize < 2 ^ 64"
  shows "(\<forall>m. \<forall>i < n * esize. ZERO_ARR arr n esize m (arr + of_nat i) = 0) \<longleftrightarrow> esize = 1"
proof -
  have un: "unat (of_nat i :: u64) = i" if "i \<le> n * esize" for i using that assms(3) by (intro unat_of_nat_u64) simp
  have nle: "n \<le> n * esize" using assms(2) by simp
  have eq: "ZERO_ARR arr n esize m (arr + of_nat i) = (if i < n then 0 else m (arr + of_nat i))" if "i < n * esize" for m i
    using un [of i] un [OF nle] that assms(2) by (simp add: ZERO_ARR_def memset_eq word_less_nat_alt)
  show ?thesis
  proof
    assume all: "\<forall>m. \<forall>i < n * esize. ZERO_ARR arr n esize m (arr + of_nat i) = 0"
    show "esize = 1"
    proof (rule ccontr)
      assume "esize \<noteq> 1"
      then have "n < n * esize" using assms(1,2) by simp
      with all eq [of n "\<lambda>_. 1"] show False by simp
    qed
  qed (use eq in auto)
qed

theorem ZERO_ARR_clears_iff_witness:
  "(0 :: nat) < 4 \<and> \<not> (\<forall>m. \<forall>i < 4 * 8. ZERO_ARR 0x100 4 8 m (0x100 + of_nat i) = 0)"
  using ZERO_ARR_clears_iff [of 4 8 "0x100"] by simp

text \<open>
  \<open>strlen\<close> terminates with the length of the string on every terminated string of at most
  \<open>2 ^ 64 - 1\<close> bytes, wherever it lies in memory.
\<close>

theorem strlen_length:
  assumes "string_at m str t" "length t < 2 ^ 64"
  shows "\<exists>n. strlen m str = Inr n \<and> unat n = length t"
  using strlen_loop_string [of m str 0 t] assms by (simp add: strlen_def unat_of_nat_u64)

theorem strlen_length_witness:
  "let m = (\<lambda>a :: u64. if a = 0x100 then 0x79 else 0) in
     string_at m 0x100 [0x79] \<and> (\<exists>n. strlen m 0x100 = Inr n \<and> unat n = 1)"
proof -
  have "string_at (\<lambda>a :: u64. if a = 0x100 then 0x79 else 0) 0x100 [0x79]" by simp
  from strlen_length [OF this] show ?thesis by (simp add: Let_def)
qed

text \<open>
  \<open>memset\<close> and \<open>memcpy\<close> change exactly the bytes of the destination. \<open>memset\<close> sets each of them; \<open>memcpy\<close>
  gives each the byte the source had before the call, for disjoint ranges and also for
  overlapping ones whose destination does not start inside the source behind its first byte.
\<close>

theorem memset_memcpy_bytes:
  "memset dst val len m = (\<lambda>b. if b - dst < len then val else m b) \<and>
   (dst = src \<or> len \<le> dst - src \<longrightarrow> memcpy dst src len m = (\<lambda>b. if b - dst < len then m (src + (b - dst)) else m b))"
  using memset_eq memcpy_eq by blast

theorem memset_memcpy_bytes_witness:
  "(4 :: u64) \<le> 0x200 - 0x100 \<and> memcpy 0x200 0x100 4 (\<lambda>a. ucast a) 0x202 = 0x02 \<and> memset 0x200 7 4 (\<lambda>a. ucast a) 0x203 = 7"
  using memset_memcpy_bytes [where dst = "0x200" and val = 7 and len = 4 and src = "0x100" and m = "\<lambda>a. ucast a"] by simp

end
