(* ===== verification/MapPage.thy ===== *)
theory MapPage
  imports Boot CString
begin

text \<open>
  Page tables built with the parts that memory/paging.h provides for it: \<open>PZ\<close>, which clears a table, the constructors of the
  entries, the index macros, \<open>present\<close> and \<open>_load_cr3\<close> (memory/paging.cpp). The theorems relate them to the walk of the
  processor. Memory is physical here, as the tables are addressed physically.
\<close>

section \<open>Operations\<close>

definition PZ :: "u64 \<Rightarrow> mem \<Rightarrow> mem" where
  "PZ addr m = memset addr 0 PAGE_SIZE m"

text \<open>The template \<open>present\<close> for an entry type with the field \<open>present\<close>.\<close>

definition entry_present :: "('e \<Rightarrow> 1 word) \<Rightarrow> 'e \<Rightarrow> bool" where
  "entry_present present_field e \<longleftrightarrow> present_field e \<noteq> 0"

definition load_cr3 :: "u64 \<Rightarrow> control_regs \<Rightarrow> control_regs" where
  "load_cr3 pml4 c = c\<lparr>cr3 := pml4\<rparr>"

section \<open>Entries and the walk\<close>

lemma present_bit:
  "entry_present PML4_entry.present e4 \<longleftrightarrow> bit (pack_fields entry_widths (PML4_entry_fields e4)) 0"
  "entry_present PDPT_entry.present e3 \<longleftrightarrow> bit (pack_fields entry_widths (PDPT_entry_fields e3)) 0"
  "entry_present PD_entry.present e2 \<longleftrightarrow> bit (pack_fields entry_widths (PD_entry_fields e2)) 0"
  "entry_present PT_entry.present e1 \<longleftrightarrow> bit (pack_fields PT_entry_widths (PT_entry_fields e1)) 0"
proof -
  have one: "(x :: 1 word) \<noteq> 0 \<longleftrightarrow> bit x 0" for x
    using bit_eq_iff [of x 0] bit_imp_le_length [of x] by (metis bit_0_eq bot_apply bot_bool_def len_num1 less_one)
  have low: "bit (pack_fields (1 # ns) (v # vs)) 0 \<longleftrightarrow> bit v 0" for ns and v :: u64 and vs
    by (simp only: pack_fields.simps bit_or_iff bit_push_bit_iff bit_take_bit_iff) simp
  show "entry_present PML4_entry.present e4 \<longleftrightarrow> bit (pack_fields entry_widths (PML4_entry_fields e4)) 0"
    "entry_present PDPT_entry.present e3 \<longleftrightarrow> bit (pack_fields entry_widths (PDPT_entry_fields e3)) 0"
    "entry_present PD_entry.present e2 \<longleftrightarrow> bit (pack_fields entry_widths (PD_entry_fields e2)) 0"
    "entry_present PT_entry.present e1 \<longleftrightarrow> bit (pack_fields PT_entry_widths (PT_entry_fields e1)) 0"
    by (simp_all only: entry_present_def one entry_widths_def PT_entry_widths_def PML4_entry_fields_def PDPT_entry_fields_def
        PD_entry_fields_def PT_entry_fields_def low) (simp_all add: bit_ucast_iff)
qed

text \<open>A table or frame of \<open>2 ^ n\<close> bytes, aligned, within the 48 bits an entry holds.\<close>

definition frame_at :: "nat \<Rightarrow> u64 \<Rightarrow> bool" where
  "frame_at n p \<longleftrightarrow> p = push_bit n (drop_bit n (take_bit 48 p))"

lemma frame_at_bit: "frame_at n p \<Longrightarrow> bit p k \<Longrightarrow> n \<le> k \<and> k < 48"
proof -
  assume "frame_at n p" "bit p k"
  then have "bit (push_bit n (drop_bit n (take_bit 48 p))) k" unfolding frame_at_def by (rule subst)
  then show "n \<le> k \<and> k < 48" by (auto simp: bit_simps)
qed

lemma entry_word_bits:
  "bit (entry_word rw0 us0 pwt0 pcd0 ps0 p xd0) 0" "bit (entry_word rw0 us0 pwt0 pcd0 ps0 p xd0) 7 \<longleftrightarrow> odd ps0"
  "12 \<le> k \<Longrightarrow> k < 52 \<Longrightarrow> bit (entry_word rw0 us0 pwt0 pcd0 ps0 p xd0) k \<longleftrightarrow> k < 48 \<and> bit p k"
  by (auto simp: bit_entry_word)

lemma bit_entry_addr: "bit (entry_addr n w) k \<longleftrightarrow> n \<le> k \<and> k < 52 \<and> bit w k"
  using bit_imp_le_length [of w k] by (auto simp: entry_addr_def bit_simps)

lemma entry_addr_word:
  assumes "frame_at n p" "12 \<le> n"
  shows "entry_addr n (entry_word rw0 us0 pwt0 pcd0 ps0 p xd0) = p"
proof (rule bit_word_eqI)
  fix k
  show "bit (entry_addr n (entry_word rw0 us0 pwt0 pcd0 ps0 p xd0)) k \<longleftrightarrow> bit p k"
    using frame_at_bit [OF assms(1), of k] assms(2) entry_word_bits(3) [of k] by (auto simp: bit_entry_addr)
qed

lemma entry_addr_frame: "frame_at 12 p \<Longrightarrow> entry_addr 12 p = p"
  by (rule bit_word_eqI) (use frame_at_bit in \<open>fastforce simp: bit_entry_addr\<close>)

section \<open>Claims\<close>

lemma PZ_clears: "i < 512 \<Longrightarrow> load64 (PZ t m) (t + 8 * of_nat i) = 0"
proof -
  assume i: "i < 512"
  have "load64 (PZ t m) (t + 8 * of_nat i) = load64 (\<lambda>_. 0) (t + 8 * of_nat i)"
  proof (rule load64_cong)
    fix j :: nat
    assume "j < 8"
    have "unat (of_nat (8 * i + j) :: u64) = 8 * i + j" using i \<open>j < 8\<close> by (intro unat_of_nat_u64) simp
    then have "t + 8 * of_nat i + of_nat j - t < PAGE_SIZE" using i \<open>j < 8\<close> by (simp add: word_less_nat_alt PAGE_SIZE_def)
    then show "PZ t m (t + 8 * of_nat i + of_nat j) = 0" by (simp add: PZ_def memset_eq)
  qed
  then show ?thesis by (simp add: load64_def)
qed

text \<open>The index macros select the bits of an address by which the processor walks.\<close>

lemma indx_slices:
  "PML4_INDX va = take_bit 9 (drop_bit 39 va)" "PDPT_INDX va = take_bit 9 (drop_bit 30 va)"
  "PD_INDX va = take_bit 9 (drop_bit 21 va)" "PT_INDX va = take_bit 9 (drop_bit 12 va)"
proof -
  have "(0x1ff :: u64) = mask 9" by (simp add: mask_numeral)
  then have "TABLE_INDEX va off = take_bit 9 (drop_bit off va)" for off by (simp add: TABLE_INDEX_def take_bit_eq_mask)
  then show "PML4_INDX va = take_bit 9 (drop_bit 39 va)" "PDPT_INDX va = take_bit 9 (drop_bit 30 va)"
    "PD_INDX va = take_bit 9 (drop_bit 21 va)" "PT_INDX va = take_bit 9 (drop_bit 12 va)"
    by (simp_all add: PML4_INDX_def PDPT_INDX_def PD_INDX_def PT_INDX_def)
qed

text \<open>
  C10: The parts of paging.h make working page tables. A table that \<open>PZ\<close> has cleared maps nothing, and changes no byte
  outside. If the entries that the index macros select for an address are built by the constructors, with the physical
  addresses of the next tables, and \<open>_load_cr3\<close> has loaded the physical address of the PML4, then the processor translates the
  address to the frame the last entry was given: one of 1 GiB or 2 MiB if the page size flag is set in the entry of the
  PDPT or the PD, one of 4 KiB otherwise, each with the offset of the address in it. The processor takes the indices from
  bits 39 to 47, 30 to 38, 21 to 29 and 12 to 20 of the address, so the macros have to select these.
\<close>

theorem entries_map_page:
  assumes "frame_at 12 pml4" "frame_at 12 pdpt" "canonical va"
    and "load64 m (pml4 + 8 * PML4_INDX va) = pack_fields entry_widths (PML4_entry_fields (PML4_entry_new rw4 us4 wt4 cd4 pdpt xd4))"
    and "load64 m (pdpt + 8 * PDPT_INDX va) = pack_fields entry_widths (PDPT_entry_fields (PDPT_entry_new rw3 us3 wt3 cd3 ps3 pd xd3))"
    and "even ps3 \<longrightarrow> frame_at 12 pd \<and>
      load64 m (pd + 8 * PD_INDX va) = pack_fields entry_widths (PD_entry_fields (PD_entry_new rw2 us2 wt2 cd2 ps2 pt xd2))"
    and "even ps3 \<and> even ps2 \<longrightarrow> frame_at 12 pt \<and>
      load64 m (pt + 8 * PT_INDX va) = pack_fields PT_entry_widths (PT_entry_fields (PT_entry_new rw1 us1 wt1 cd1 frame xd1))"
  shows "(\<forall>va. page_walk (PZ pml4 m) pml4 va = None) \<and> (\<forall>c. 0x1000 \<le> c - pml4 \<longrightarrow> PZ pml4 m c = m c) \<and>
    (odd ps3 \<and> frame_at 30 pd \<longrightarrow> page_walk m (cr3 (load_cr3 pml4 c)) va = Some (pd OR take_bit 30 va)) \<and>
    (even ps3 \<and> odd ps2 \<and> frame_at 21 pt \<longrightarrow> page_walk m (cr3 (load_cr3 pml4 c)) va = Some (pt OR take_bit 21 va)) \<and>
    (even ps3 \<and> even ps2 \<and> frame_at 12 frame \<longrightarrow> page_walk m (cr3 (load_cr3 pml4 c)) va = Some (frame OR take_bit 12 va))"
proof -
  have "page_walk (PZ pml4 m) pml4 x = None" for x
  proof -
    have "load64 (PZ pml4 m) (pml4 + 8 * take_bit 9 (drop_bit 39 x)) = 0"
      unfolding table_slice by (rule PZ_clears) simp
    then show ?thesis by (simp add: page_walk_def entry_addr_frame [OF assms(1)])
  qed
  moreover have "PZ pml4 m x = m x" if "0x1000 \<le> x - pml4" for x
    using that by (simp add: PZ_def memset_eq PAGE_SIZE_def not_less [symmetric])
  moreover have "cr3 (load_cr3 pml4 c) = pml4" by (simp add: load_cr3_def)
  ultimately show ?thesis
    using assms(2-7)
    by (auto simp: page_walk_def Let_def entry_addr_frame [OF assms(1)] indx_slices entry_words entry_word_bits entry_addr_word)
qed

text \<open>
  Four tables and a frame one behind the other, for the address 0x8080604005, whose indices are 1, 2, 3 and 4; the entries
  are put at these slots.
\<close>

definition example_tables :: mem where
  "example_tables =
     store64 0x1008 (pack_fields entry_widths (PML4_entry_fields (PML4_entry_new 1 0 0 0 0x2000 0)))
     (store64 0x2010 (pack_fields entry_widths (PDPT_entry_fields (PDPT_entry_new 1 0 0 0 0 0x3000 0)))
     (store64 0x3018 (pack_fields entry_widths (PD_entry_fields (PD_entry_new 1 0 0 0 0 0x4000 0)))
     (store64 0x4020 (pack_fields PT_entry_widths (PT_entry_fields (PT_entry_new 1 0 0 0 0x5000 0))) (\<lambda>_. 0))))"

theorem entries_map_page_witness:
  "frame_at 12 0x1000 \<and> frame_at 12 0x2000 \<and> page_walk example_tables 0x1000 0x8080604005 = Some 0x5005"
proof -
  have dis: "disjoint64 0x1008 0x2010" "disjoint64 0x1008 0x3018" "disjoint64 0x1008 0x4020" "disjoint64 0x2010 0x3018"
    "disjoint64 0x2010 0x4020" "disjoint64 0x3018 0x4020"
    by (simp_all add: disjoint64_def)
  have idx: "0x1000 + 8 * PML4_INDX 0x8080604005 = 0x1008" "0x2000 + 8 * PDPT_INDX 0x8080604005 = 0x2010"
    "0x3000 + 8 * PD_INDX 0x8080604005 = 0x3018" "0x4000 + 8 * PT_INDX 0x8080604005 = 0x4020"
    by (simp_all add: PML4_INDX_def PDPT_INDX_def PD_INDX_def PT_INDX_def TABLE_INDEX_def)
  have frames: "frame_at 12 0x1000" "frame_at 12 0x2000" "frame_at 12 0x3000" "frame_at 12 0x4000" "frame_at 12 0x5000"
    "canonical 0x8080604005"
    by (simp_all add: frame_at_def canonical_def)
  have "load64 example_tables (0x1000 + 8 * PML4_INDX 0x8080604005) =
      pack_fields entry_widths (PML4_entry_fields (PML4_entry_new 1 0 0 0 0x2000 0))"
    "load64 example_tables (0x2000 + 8 * PDPT_INDX 0x8080604005) =
      pack_fields entry_widths (PDPT_entry_fields (PDPT_entry_new 1 0 0 0 0 0x3000 0))"
    "even (0 :: u8) \<longrightarrow> frame_at 12 0x3000 \<and> load64 example_tables (0x3000 + 8 * PD_INDX 0x8080604005) =
       pack_fields entry_widths (PD_entry_fields (PD_entry_new 1 0 0 0 0 0x4000 0))"
    "even (0 :: u8) \<and> even (0 :: u8) \<longrightarrow> frame_at 12 0x4000 \<and> load64 example_tables (0x4000 + 8 * PT_INDX 0x8080604005) =
       pack_fields PT_entry_widths (PT_entry_fields (PT_entry_new 1 0 0 0 0x5000 0))"
    by (simp_all only: idx example_tables_def load64_store64_same load64_store64_disjoint [OF dis(1)]
        load64_store64_disjoint [OF dis(2)] load64_store64_disjoint [OF dis(3)] load64_store64_disjoint [OF dis(4)]
        load64_store64_disjoint [OF dis(5)] load64_store64_disjoint [OF dis(6)] frames simp_thms)
  from entries_map_page [OF frames(1,2,6) this] frames
  have "page_walk example_tables (cr3 (load_cr3 0x1000 c)) 0x8080604005 = Some (0x5000 OR take_bit 12 0x8080604005)" for c
    by simp
  then show ?thesis using frames by (simp add: load_cr3_def take_bit_eq_mask mask_numeral)
qed

end
