(* ===== verification/Interleave.thy ===== *)
theory Interleave
  imports Dispatch Kernel "HOL-Library.Product_Lexorder"
begin

text \<open>
  The report of \<open>kernel_main\<close> on the serial port while interrupts are taken. \<open>SerialPort::putc\<close> is split into its port
  accesses: the read of the line status, repeated until the transmitter is empty, and the write of the character. The
  handlers of the timer and the keyboard run between any two of them, as \<open>Dispatch\<close> lets them. The strings are
  fixed before: \<open>vprintf\<close> works on local variables and on memory that the handlers do not touch.
\<close>

section \<open>Steps\<close>

text \<open>Where \<open>putc\<close> stands: before a read of the status, or behind the loop, before the write.\<close>

datatype putc_pc = Poll | Emit

record 'd sending =
  sys :: "'d system"
  pc :: putc_pc
  todo :: string

text \<open>One port access of the sender; with nothing left to send it stands still.\<close>

definition send_step :: "'d io_bus \<Rightarrow> SerialPort \<Rightarrow> 'd sending \<Rightarrow> 'd sending" where
  "send_step io p s =
     (case todo s of
        [] \<Rightarrow> s
      | c # rest \<Rightarrow>
          (let m = mach (sys s)
           in case pc s of
                Poll \<Rightarrow> (let (status, d) = inb io (line_status_reg p) (dev m)
                         in s\<lparr>sys := (sys s)\<lparr>mach := m\<lparr>dev := d\<rparr>\<rparr>, pc := (if status AND 0x20 = 0 then Poll else Emit)\<rparr>)
              | Emit \<Rightarrow> s\<lparr>sys := (sys s)\<lparr>mach := m\<lparr>dev := outb io (portnum p) (of_char c) (dev m)\<rparr>\<rparr>, pc := Poll, todo := rest\<rparr>))"

text \<open>
  The environment of the sender: requests, and handlers that interrupt it. \<open>keep\<close> is a part of the hardware that the delivery of
  a request to the processor does not change.
\<close>

inductive irq_step :: "'d io_bus \<Rightarrow> ('d \<Rightarrow> pics) \<Rightarrow> ('d \<Rightarrow> 'x) \<Rightarrow> 'd system \<Rightarrow> 'd system \<Rightarrow> bool" for io view keep where
  irq_request: "k < 8 \<Longrightarrow> irq_step io view keep s (s\<lparr>irr := irr s OR push_bit k 1\<rparr>)"
| irq_timer: "can_dispatch (view (dev (mach s))) (irr s) 0 \<Longrightarrow> view d = raise_line 0 (view (dev (mach s))) \<Longrightarrow>
    keep d = keep (dev (mach s)) \<Longrightarrow>
    irq_step io view keep s \<lparr>mach = handle_timer io ((mach s)\<lparr>dev := d\<rparr>), irr = irr s AND NOT (push_bit 0 1)\<rparr>"
| irq_keyboard: "can_dispatch (view (dev (mach s))) (irr s) 1 \<Longrightarrow> view d = raise_line 1 (view (dev (mach s))) \<Longrightarrow>
    keep d = keep (dev (mach s)) \<Longrightarrow>
    irq_step io view keep s \<lparr>mach = handle_keyboard io ((mach s)\<lparr>dev := d\<rparr>), irr = irr s AND NOT (push_bit 1 1)\<rparr>"

inductive mixed_step :: "'d io_bus \<Rightarrow> SerialPort \<Rightarrow> ('d \<Rightarrow> pics) \<Rightarrow> ('d \<Rightarrow> 'x) \<Rightarrow> 'd sending \<Rightarrow> 'd sending \<Rightarrow> bool"
  for io p view keep where
  mixed_send: "mixed_step io p view keep s (send_step io p s)"
| mixed_irq: "irq_step io view keep (sys s) y \<Longrightarrow> mixed_step io p view keep s (s\<lparr>sys := y\<rparr>)"

inductive_cases mixed_stepE [elim!]: "mixed_step io p view keep s s'"

section \<open>The sender alone\<close>

text \<open>
  Without interrupts the steps are the program: if \<open>putc\<close> returns for every character, they lead to the state in which it returns.
\<close>

definition at_dev :: "'d \<Rightarrow> 'd system \<Rightarrow> 'd system" where
  "at_dev d y = y\<lparr>mach := (mach y)\<lparr>dev := d\<rparr>\<rparr>"

definition sends_to :: "'d io_bus \<Rightarrow> SerialPort \<Rightarrow> 'd sending \<Rightarrow> 'd sending \<Rightarrow> bool" where
  "sends_to io p s s' \<longleftrightarrow> (\<exists>n. s' = (send_step io p ^^ n) s)"

lemma sends_to_trans [trans]: "sends_to io p s s' \<Longrightarrow> sends_to io p s' s'' \<Longrightarrow> sends_to io p s s''"
  unfolding sends_to_def by (metis funpow_add comp_apply)

lemma sends_to_step: "sends_to io p s (send_step io p s)"
  unfolding sends_to_def by (rule exI [of _ 1]) simp

lemma poll_until_ready:
  assumes "ready_at io (line_status_reg p) d n" "\<And>k. k < n \<Longrightarrow> \<not> ready_at io (line_status_reg p) d k"
  shows "sends_to io p \<lparr>sys = at_dev d y, pc = Poll, todo = c # rest\<rparr>
    \<lparr>sys = at_dev (after_reads io (line_status_reg p) (Suc n) d) y, pc = Emit, todo = c # rest\<rparr>"
  using assms
proof (induction n arbitrary: d)
  case 0
  then have "\<lparr>sys = at_dev (after_reads io (line_status_reg p) (Suc 0) d) y, pc = Emit, todo = c # rest\<rparr> =
    send_step io p \<lparr>sys = at_dev d y, pc = Poll, todo = c # rest\<rparr>"
    by (simp add: send_step_def ready_at_def after_reads_def at_dev_def case_prod_unfold)
  then show ?case using sends_to_step by metis
next
  case (Suc n)
  let ?d = "snd (inb io (line_status_reg p) d)"
  have "\<not> ready_at io (line_status_reg p) d 0" by (rule Suc.prems) simp
  then have "send_step io p \<lparr>sys = at_dev d y, pc = Poll, todo = c # rest\<rparr> = \<lparr>sys = at_dev ?d y, pc = Poll, todo = c # rest\<rparr>"
    by (simp add: send_step_def ready_at_def after_reads_def at_dev_def case_prod_unfold)
  then have "sends_to io p \<lparr>sys = at_dev d y, pc = Poll, todo = c # rest\<rparr> \<lparr>sys = at_dev ?d y, pc = Poll, todo = c # rest\<rparr>"
    using sends_to_step by metis
  also have "sends_to io p \<dots> \<lparr>sys = at_dev (after_reads io (line_status_reg p) (Suc n) ?d) y, pc = Emit, todo = c # rest\<rparr>"
  proof (rule Suc.IH)
    show "ready_at io (line_status_reg p) ?d n" using Suc.prems(1) by (simp add: ready_at_def after_reads_Suc)
    show "\<not> ready_at io (line_status_reg p) ?d k" if "k < n" for k
      using Suc.prems(2) [of "Suc k"] that by (simp add: ready_at_def after_reads_Suc)
  qed
  finally show ?case by (simp add: after_reads_Suc)
qed

lemma send_putc:
  assumes "SerialPort_putc io p c d = Inr d'"
  shows "sends_to io p \<lparr>sys = at_dev d y, pc = Poll, todo = c # rest\<rparr> \<lparr>sys = at_dev d' y, pc = Poll, todo = rest\<rparr>"
proof -
  have ready: "\<exists>n. ready_at io (line_status_reg p) d n"
    using assms by (auto simp: SerialPort_putc_def wait_thr_eq split: if_splits)
  define n where "n = (LEAST n. ready_at io (line_status_reg p) d n)"
  have "sends_to io p \<lparr>sys = at_dev d y, pc = Poll, todo = c # rest\<rparr>
    \<lparr>sys = at_dev (after_reads io (line_status_reg p) (Suc n) d) y, pc = Emit, todo = c # rest\<rparr>"
    using ready by (intro poll_until_ready) (auto simp: n_def intro: LeastI dest: not_less_Least)
  also have "sends_to io p \<dots> (send_step io p \<dots>)" by (rule sends_to_step)
  also have "\<dots> = \<lparr>sys = at_dev d' y, pc = Poll, todo = rest\<rparr>"
    using assms ready by (auto simp: send_step_def at_dev_def SerialPort_putc_def wait_thr_eq n_def)
  finally show ?thesis .
qed

lemma send_all:
  "putc_all (SerialPort_putc io p) t d = Inr d' \<Longrightarrow>
   sends_to io p \<lparr>sys = at_dev d y, pc = Poll, todo = t\<rparr> \<lparr>sys = at_dev d' y, pc = Poll, todo = []\<rparr>"
proof (induction t arbitrary: d)
  case Nil
  then show ?case unfolding sends_to_def by (intro exI [of _ 0]) simp
next
  case (Cons c t)
  then obtain d1 where "SerialPort_putc io p c d = Inr d1" "putc_all (SerialPort_putc io p) t d1 = Inr d'"
    by (auto simp: rbind_eq_Inr)
  then show ?case using send_putc Cons.IH sends_to_trans by metis
qed

text \<open>The same for a call of \<open>printf\<close>, whose characters are those of the string its format denotes.\<close>

lemma send_printf:
  assumes "vformat fmt args = Inr t" "SerialPort_printf io p fmt args d = Inr d'"
  shows "sends_to io p \<lparr>sys = at_dev d y, pc = Poll, todo = t\<rparr> \<lparr>sys = at_dev d' y, pc = Poll, todo = []\<rparr>"
  using send_all [of io p t d d' y] assms serial.vprintf_collected [where fmt = fmt and args = args and s = d and p = p and io = io]
  by (simp add: SerialPort_printf_def)

section \<open>What interrupts leave alone\<close>

abbreviation devs :: "'d sending \<Rightarrow> 'd" where "devs s \<equiv> dev (mach (sys s))"

text \<open>Hardware that the ports of the handlers do not reach.\<close>

definition handlers_keep :: "'d io_bus \<Rightarrow> ('d \<Rightarrow> 'd \<Rightarrow> bool) \<Rightarrow> bool" where
  "handlers_keep io R \<longleftrightarrow> (\<forall>port v d. port \<in> {0x20, 0x21, 0x60} \<longrightarrow> R d (outb io port v d) \<and> R d (snd (inb io port d)))"

lemma handlers_rel:
  assumes "handlers_keep io R" "transp R"
  shows "R (dev m) (dev (handle_timer io m))" "R (dev m) (dev (handle_keyboard io m))"
proof -
  have eoi: "R d (pic_EOI io n d)" for n d
    using assms unfolding handlers_keep_def transp_def pic_EOI_def by (cases "8 \<le> n") (simp_all, blast)
  show "R (dev m) (dev (handle_timer io m))" by (simp add: handle_timer_def eoi)
  have "R (dev m) (snd (inb io 0x60 (dev m)))" using assms(1) by (simp add: handlers_keep_def)
  then show "R (dev m) (dev (handle_keyboard io m))"
    using eoi assms(2) unfolding transp_def handle_keyboard_def Let_def case_prod_unfold by simp
qed

lemma irq_step_rel:
  assumes "irq_step io view keep y y'" "handlers_keep io R" "transp R" "reflp R" "\<And>d d'. keep d' = keep d \<Longrightarrow> R d d'"
  shows "R (dev (mach y)) (dev (mach y'))"
  using assms(1)
proof (cases rule: irq_step.cases)
  case (irq_request k)
  then show ?thesis using assms(4) by (simp add: reflp_def)
next
  case (irq_timer d)
  have "R d (dev (mach y'))" using handlers_rel(1) [OF assms(2,3), of "(mach y)\<lparr>dev := d\<rparr>"] irq_timer(1) by simp
  then show ?thesis using assms(5) [OF irq_timer(4)] assms(3) unfolding transp_def by blast
next
  case (irq_keyboard d)
  have "R d (dev (mach y'))" using handlers_rel(2) [OF assms(2,3), of "(mach y)\<lparr>dev := d\<rparr>"] irq_keyboard(1) by simp
  then show ?thesis using assms(5) [OF irq_keyboard(4)] assms(3) unfolding transp_def by blast
qed

lemma uart_handlers_keep: "uart_elsewhere io 0x3f8 uv \<Longrightarrow> handlers_keep io (\<lambda>d d'. uv d' = uv d)"
  by (auto simp: handlers_keep_def elsewhere_simps)

lemma irq_step_dispatch: "irq_step io view keep y y' \<Longrightarrow> disp_step io view y y'"
proof (induction rule: irq_step.induct)
  case (irq_request k s)
  then show ?case by (rule disp_request)
next
  case (irq_timer s d)
  then show ?case unfolding serves_def by (intro disp_timer) (simp only: serves_def, blast)
next
  case (irq_keyboard s d)
  then show ?case unfolding serves_def by (intro disp_keyboard) (simp only: serves_def, blast)
qed

lemma sys_inv_reachable:
  assumes "sys_reachable io view m m'" "pics_at io view" "sys_inv view m0 m"
  shows "sys_inv view m0 m'"
  using assms(1) unfolding sys_reachable_def
  by (induction rule: rtranclp_induct) (use assms(3) sys_step_inv [OF _ assms(2)] in blast)+

section \<open>The invariant\<close>

text \<open>
  What has been sent and what is left make up the string, the rest of the UART is as it was, and the console and the
  controllers are as in \<open>Events\<close> and \<open>Dispatch\<close>.
\<close>

definition send_inv :: "('d \<Rightarrow> pics) \<Rightarrow> ('d \<Rightarrow> uart) \<Rightarrow> 'd sending \<Rightarrow> 'd sending \<Rightarrow> bool" where
  "send_inv pv uv s0 s \<longleftrightarrow>
     (\<exists>out. todo s0 = out @ todo s \<and> uv (devs s) = (uv (devs s0))\<lparr>sent := sent (uv (devs s0)) @ map of_char out\<rparr>) \<and>
     sys_inv pv (mach (sys s0)) (mach (sys s)) \<and> serving (pv (devs s))"

lemma send_step_inv:
  assumes "portnum p = 0x3f8" "uart_at io 0x3f8 uv" "pics_at io pv" "line_up (uv (devs s0))" "send_inv pv uv s0 s"
  shows "send_inv pv uv s0 (send_step io p s)"
proof (cases "todo s")
  case Nil
  then show ?thesis using assms(5) by (simp add: send_step_def)
next
  case (Cons c rest)
  note u = uart_atD [OF assms(2)]
  obtain out where out: "todo s0 = out @ todo s" "uv (devs s) = (uv (devs s0))\<lparr>sent := sent (uv (devs s0)) @ map of_char out\<rparr>"
    using assms(5) by (auto simp: send_inv_def)
  let ?s = "send_step io p s"
  have pv: "pv (devs ?s) = pv (devs s)"
    using assms(1) by (cases "pc s") (simp_all add: send_step_def Cons Let_def case_prod_unfold line_status_reg_def
        pics_atD [OF assms(3)] pics_write_def)
  have con: "console (mach (sys ?s)) = console (mach (sys s))"
    by (cases "pc s") (simp_all add: send_step_def Cons Let_def case_prod_unfold)
  have "\<exists>out. todo s0 = out @ todo ?s \<and> uv (devs ?s) = (uv (devs s0))\<lparr>sent := sent (uv (devs s0)) @ map of_char out\<rparr>"
  proof (cases "pc s")
    case Poll
    then show ?thesis using out assms(1) u(4) by (simp add: send_step_def Cons Let_def case_prod_unfold line_status_reg_def)
  next
    case Emit
    have "uv (devs ?s) = (uv (devs s0))\<lparr>sent := sent (uv (devs s0)) @ map of_char (out @ [c])\<rparr>"
      using out(2) assms(1,4) by (simp add: send_step_def Cons Emit Let_def u(2) uart_write_def line_up_def dlab_def loopback_def)
    moreover have "todo s0 = (out @ [c]) @ todo ?s" using out(1) by (simp add: send_step_def Cons Emit Let_def)
    ultimately show ?thesis by blast
  qed
  then show ?thesis using assms(5) by (simp add: send_inv_def sys_inv_def pv con)
qed

lemma mixed_step_inv:
  assumes "mixed_step io p pv keep s s'" "portnum p = 0x3f8" "uart_at io 0x3f8 uv" "uart_elsewhere io 0x3f8 uv" "pics_at io pv"
    and "line_up (uv (devs s0))" "\<And>d d'. keep d' = keep d \<Longrightarrow> uv d' = uv d" "send_inv pv uv s0 s"
  shows "send_inv pv uv s0 s'"
  using assms(1)
proof (cases rule: mixed_step.cases)
  case mixed_send
  then show ?thesis using send_step_inv [OF assms(2,3,5,6,8)] by simp
next
  case (mixed_irq y)
  have "uv (dev (mach y)) = uv (devs s)"
    by (rule irq_step_rel [OF mixed_irq(2) uart_handlers_keep [OF assms(4)] _ _ assms(7)])
      (auto simp: transp_def reflp_def)
  moreover have "sys_inv pv (mach (sys s0)) (mach y)"
    using sys_inv_reachable [OF disp_step_simulated [OF irq_step_dispatch [OF mixed_irq(2)]] assms(5)] assms(8)
    by (simp add: send_inv_def)
  moreover have "serving (pv (dev (mach y)))"
    using disp_step_serving [OF irq_step_dispatch [OF mixed_irq(2)] assms(5)] assms(8) by (simp add: send_inv_def)
  ultimately show ?thesis using assms(8) by (simp add: send_inv_def mixed_irq(1))
qed

lemma send_inv_start:
  "video_ok (console (mach (sys s))) \<Longrightarrow> serving (pv (devs s)) \<Longrightarrow> send_inv pv uv s s"
  by (auto simp: send_inv_def sys_inv_def serving_def same_beyond_def)

section \<open>Progress\<close>

text \<open>
  A bound on the wait for the transmitter: a status read that does not report it empty lowers the bound, and what happens at
  other ports does not raise it.
\<close>

definition uart_drains :: "'d io_bus \<Rightarrow> u16 \<Rightarrow> ('d \<Rightarrow> nat) \<Rightarrow> bool" where
  "uart_drains io base delay \<longleftrightarrow>
     (\<forall>d. fst (inb io (base + 5) d) AND 0x20 = 0 \<longrightarrow> delay (snd (inb io (base + 5) d)) < delay d) \<and>
     (\<forall>port v d. 8 \<le> port - base \<longrightarrow> delay (outb io port v d) \<le> delay d \<and> delay (snd (inb io port d)) \<le> delay d)"

definition rank :: "('d \<Rightarrow> nat) \<Rightarrow> 'd sending \<Rightarrow> nat \<times> nat \<times> nat" where
  "rank delay s = (length (todo s), if pc s = Poll then (1, delay (devs s)) else (0, 0))"

lemma send_step_rank:
  assumes "portnum p = 0x3f8" "uart_drains io 0x3f8 delay" "todo s \<noteq> []"
  shows "rank delay (send_step io p s) < rank delay s"
proof -
  obtain c rest where todo: "todo s = c # rest" using assms(3) by (cases "todo s") auto
  show ?thesis
    using assms(1,2) by (cases "pc s")
      (simp_all add: send_step_def todo Let_def case_prod_unfold rank_def line_status_reg_def uart_drains_def less_prod_def)
qed

lemma irq_step_rank:
  assumes "irq_step io view keep (sys s) y" "uart_drains io 0x3f8 delay" "\<And>d d'. keep d' = keep d \<Longrightarrow> delay d' = delay d"
  shows "rank delay (s\<lparr>sys := y\<rparr>) \<le> rank delay s"
proof -
  have "handlers_keep io (\<lambda>d d'. delay d' \<le> delay d)"
    using assms(2) by (auto simp: handlers_keep_def uart_drains_def)
  then have "delay (dev (mach y)) \<le> delay (devs s)"
  proof (rule irq_step_rel [OF assms(1)])
    show "delay d' \<le> delay d" if "keep d' = keep d" for d d' using assms(3) [OF that] by simp
  qed (auto simp: transp_def reflp_def)
  then show ?thesis by (simp add: rank_def)
qed

lemma mixed_step_rank:
  assumes "mixed_step io p view keep s s'" "portnum p = 0x3f8" "uart_drains io 0x3f8 delay" "\<And>d d'. keep d' = keep d \<Longrightarrow> delay d' = delay d"
  shows "rank delay s' \<le> rank delay s"
  using assms(1)
proof (cases rule: mixed_step.cases)
  case mixed_send
  then show ?thesis
    using send_step_rank [OF assms(2,3), of s] by (cases "todo s") (auto simp: send_step_def)
next
  case (mixed_irq y)
  then show ?thesis using irq_step_rank [OF _ assms(3,4)] by simp
qed

lemma run_rank:
  assumes "\<And>n. mixed_step io p view keep (r n) (r (Suc n))" "portnum p = 0x3f8" "uart_drains io 0x3f8 delay"
    and "\<And>d d'. keep d' = keep d \<Longrightarrow> delay d' = delay d" "n \<le> i"
  shows "rank delay (r i) \<le> rank delay (r n)"
  using assms(5)
proof (induction i rule: dec_induct)
  case (step i)
  then show ?case using mixed_step_rank [OF assms(1-4), of i] by (meson order_trans)
qed simp

lemma run_empties:
  assumes "\<And>n. mixed_step io p view keep (r n) (r (Suc n))" "portnum p = 0x3f8" "uart_drains io 0x3f8 delay"
    and "\<And>d d'. keep d' = keep d \<Longrightarrow> delay d' = delay d" "\<And>n. \<exists>i \<ge> n. r (Suc i) = send_step io p (r i)"
  shows "\<exists>i \<ge> n. todo (r i) = []"
proof (induction "rank delay (r n)" arbitrary: n rule: less_induct)
  case less
  obtain i where i: "n \<le> i" "r (Suc i) = send_step io p (r i)" using assms(5) by blast
  show ?case
  proof (cases "todo (r i) = []")
    case False
    have "rank delay (r (Suc i)) < rank delay (r n)"
      using send_step_rank [OF assms(2,3) False] run_rank [where r = r, OF assms(1-4) i(1)] by (simp add: i(2) less_le_trans)
    from less [OF this] show ?thesis using i(1) by (meson le_Suc_eq le_trans)
  qed (use i(1) in blast)
qed

section \<open>Claims\<close>

definition sender_ok :: "'d io_bus \<Rightarrow> SerialPort \<Rightarrow> ('d \<Rightarrow> uart) \<Rightarrow> ('d \<Rightarrow> pics) \<Rightarrow> 'd sending \<Rightarrow> bool" where
  "sender_ok io p uv pv s \<longleftrightarrow>
     portnum p = 0x3f8 \<and> uart_at io 0x3f8 uv \<and> uart_elsewhere io 0x3f8 uv \<and> pics_at io pv \<and>
     line_up (uv (devs s)) \<and> serving (pv (devs s)) \<and> video_ok (console (mach (sys s)))"

lemma mixed_reachable_inv:
  assumes "sender_ok io p uv pv s0" "\<And>d d'. keep d' = keep d \<Longrightarrow> uv d' = uv d" "(mixed_step io p pv keep)\<^sup>*\<^sup>* s0 s"
  shows "send_inv pv uv s0 s"
  using assms(3)
proof (induction rule: rtranclp_induct)
  case base
  show ?case using assms(1) by (intro send_inv_start) (simp_all add: sender_ok_def)
next
  case (step s s')
  then show ?case using assms(1) by (intro mixed_step_inv [OF step(2) _ _ _ _ _ assms(2)]) (simp_all add: sender_ok_def)
qed

text \<open>
  C6: Interrupts do not disturb the serial output. While \<open>printf\<close> sends a string, the timer and the keyboard may interrupt it
  between any two accesses to the port, any number of times. In every state reached this way, the bytes sent so far and
  the characters left make up the string, in order and with nothing in between, and no other register of the UART has
  changed; the console is in order, nothing beyond the screen has changed, and the controllers are ready for further requests.
\<close>

theorem output_survives_interrupts:
  assumes "sender_ok io p uv pv s0" "(mixed_step io p pv uv)\<^sup>*\<^sup>* s0 s"
  shows "(\<exists>out. todo s0 = out @ todo s \<and> uv (devs s) = (uv (devs s0))\<lparr>sent := sent (uv (devs s0)) @ map of_char out\<rparr>) \<and>
    video_ok (console (mach (sys s))) \<and>
    (\<forall>i \<ge> 2000. videomem (console (mach (sys s))) i = videomem (console (mach (sys s0))) i) \<and> serving (pv (devs s))"
  using mixed_reachable_inv [OF assms(1) _ assms(2)] by (simp add: send_inv_def sys_inv_def same_beyond_def)

text \<open>A string of one character, with a request of the timer pending.\<close>

definition sending0 :: "(uart \<times> pics) sending" where
  "sending0 =
     \<lparr>sys = \<lparr>mach = \<lparr>console = Video_new (\<lambda>_. 0), dev = (uart0, \<lparr>master = pic0, slave = pic0\<rparr>)\<rparr>, irr = 1\<rparr>, pc = Poll, todo = ''x''\<rparr>"

definition port0 :: SerialPort where
  "port0 = \<lparr>portnum = 0x3f8, is_valid = True\<rparr>"

lemma sending0_ok: "sender_ok boot_bus port0 fst snd sending0"
  by (simp add: sender_ok_def port0_def sending0_def boot_bus_uart boot_bus_elsewhere boot_bus_pics line_up_def uart0_def
      dlab_def loopback_def serving_def operating_def pic0_def line_masked_def Video_new_def Video_clear_ok)

theorem output_survives_interrupts_witness:
  "sender_ok boot_bus port0 fst snd sending0 \<and>
   (\<exists>s. (mixed_step boot_bus port0 snd fst)\<^sup>*\<^sup>* sending0 s \<and> irr (sys s) = 0 \<and> todo s = [] \<and> sent (fst (devs s)) = [0x78])"
proof -
  define s1 where "s1 = sending0\<lparr>pc := Emit\<rparr>"
  define m where "m = (mach (sys s1))\<lparr>dev := (fst (devs s1), raise_line 0 (snd (devs s1)))\<rparr>"
  define y where "y = \<lparr>mach = handle_timer boot_bus m, irr = irr (sys s1) AND NOT (push_bit 0 1)\<rparr>"
  define s2 where "s2 = send_step boot_bus port0 (s1\<lparr>sys := y\<rparr>)"
  have "send_step boot_bus port0 sending0 = s1"
    by (simp add: s1_def send_step_def sending0_def port0_def line_status_reg_def inb_def boot_bus_def uart_bus_def)
  then have step1: "mixed_step boot_bus port0 snd fst sending0 s1" by (metis mixed_send)
  have "irq_step boot_bus snd fst (sys s1) y"
    unfolding y_def m_def
  proof (rule irq_timer)
    have "serving (snd (devs s1))" "bit (irr (sys s1)) 0"
      using sending0_ok by (simp_all add: s1_def sender_ok_def, simp add: sending0_def)
    then show "can_dispatch (snd (devs s1)) (irr (sys s1)) 0" by (rule timer_offered)
  qed simp_all
  then have step2: "mixed_step boot_bus port0 snd fst s1 (s1\<lparr>sys := y\<rparr>)" by (rule mixed_irq)
  have step3: "mixed_step boot_bus port0 snd fst (s1\<lparr>sys := y\<rparr>) s2" unfolding s2_def by (rule mixed_send)
  have run: "(mixed_step boot_bus port0 snd fst)\<^sup>*\<^sup>* sending0 s2"
  proof (rule converse_rtranclp_into_rtranclp)
    show "(mixed_step boot_bus port0 snd fst)\<^sup>*\<^sup>* s1 s2"
      by (rule converse_rtranclp_into_rtranclp, rule step2, rule r_into_rtranclp, rule step3)
  qed (rule step1)
  have "todo s1 = ''x''" "pc s1 = Emit" "irr y = 0" by (simp_all add: y_def s1_def sending0_def)
  then have s2: "todo s2 = []" "irr (sys s2) = 0" by (simp_all add: s2_def send_step_def Let_def)
  have s0: "todo sending0 = ''x''" "sent (fst (devs sending0)) = []" by (simp_all add: sending0_def uart0_def)
  obtain out where "todo sending0 = out @ todo s2"
    "fst (devs s2) = (fst (devs sending0))\<lparr>sent := sent (fst (devs sending0)) @ map of_char out\<rparr>"
    using output_survives_interrupts [OF sending0_ok run] by blast
  then have "sent (fst (devs s2)) = [0x78]" by (auto simp: s0 s2(1))
  then show ?thesis using sending0_ok run s2 by blast
qed

text \<open>
  C9: The output is completed. If the wait for the transmitter is bounded, whatever happens at other ports, then in every run
  in which the interrupted code gets to run again and again the whole string is sent, however often the timer and the
  keyboard interrupt it, and from then on nothing more.
\<close>

theorem output_completes_under_interrupts:
  assumes "sender_ok io p uv pv (r 0)" "uart_drains io 0x3f8 delay" "\<And>n. mixed_step io p pv (\<lambda>d. (uv d, delay d)) (r n) (r (Suc n))"
    and "\<And>n. \<exists>i \<ge> n. r (Suc i) = send_step io p (r i)"
  shows "\<exists>n. \<forall>i \<ge> n. todo (r i) = [] \<and> sent (uv (devs (r i))) = sent (uv (devs (r 0))) @ map of_char (todo (r 0))"
proof -
  have port: "portnum p = 0x3f8" using assms(1) by (simp add: sender_ok_def)
  obtain n where n: "todo (r n) = []"
    using run_empties [where r = r, OF assms(3) port assms(2) _ assms(4)] by auto
  have reach: "(mixed_step io p pv (\<lambda>d. (uv d, delay d)))\<^sup>*\<^sup>* (r 0) (r i)" for i
    by (induction i) (use assms(3) in \<open>auto intro: rtranclp.rtrancl_into_rtrancl\<close>)
  have inv: "send_inv pv uv (r 0) (r i)" for i
    by (rule mixed_reachable_inv [OF assms(1) _ reach]) simp
  have "todo (r i) = []" if "n \<le> i" for i
    using run_rank [where r = r, OF assms(3) port assms(2) _ that] n by (auto simp: rank_def)
  then have "todo (r i) = [] \<and> sent (uv (devs (r i))) = sent (uv (devs (r 0))) @ map of_char (todo (r 0))" if "n \<le> i" for i
    using inv [of i] that by (auto simp: send_inv_def)
  then show ?thesis by blast
qed

theorem output_completes_under_interrupts_witness:
  "sender_ok boot_bus port0 fst snd sending0 \<and> uart_drains boot_bus 0x3f8 (\<lambda>_. 0) \<and>
   (\<exists>n. sent (fst (devs ((send_step boot_bus port0 ^^ n) sending0))) = [0x78])"
proof -
  define r where "r n = (send_step boot_bus port0 ^^ n) sending0" for n
  have step: "mixed_step boot_bus port0 snd (\<lambda>d. (fst d, 0 :: nat)) (r n) (r (Suc n))" for n
    using mixed_send [of boot_bus port0 snd _ "r n"] by (simp add: r_def)
  have fair: "\<exists>i \<ge> n. r (Suc i) = send_step boot_bus port0 (r i)" for n by (intro exI [of _ n]) (simp add: r_def)
  have ok: "sender_ok boot_bus port0 fst snd (r 0)" using sending0_ok by (simp add: r_def)
  have "fst (inb boot_bus (0x3f8 + 5) d) AND 0x20 \<noteq> 0" for d
    by (cases d) (simp add: inb_def boot_bus_def uart_bus_def)
  then have drains: "uart_drains boot_bus 0x3f8 (\<lambda>_. 0)" by (simp add: uart_drains_def)
  have "todo (r 0) = ''x''" "sent (fst (devs (r 0))) = []" by (simp_all add: r_def sending0_def uart0_def)
  with output_completes_under_interrupts [where r = r, OF ok drains step fair]
  obtain n where "sent (fst (devs (r n))) = [0x78]" by auto
  then show ?thesis using sending0_ok drains unfolding r_def by blast
qed

end
