(* ===== verification/Preempt.thy ===== *)
theory Preempt
  imports Events
begin

text \<open>
  An interrupt inside \<open>Video::putc\<close> (utils/video.cpp). Interrupts are enabled while \<open>kernel_main\<close> prints, and the keyboard handler
  prints on the same console. First it runs between the two statements of the default case of \<open>putc\<close>: the test of the
  right margin and the write at the column, which it then advances. Then key presses fall between any two assignments,
  those of \<open>new_line\<close> included.
\<close>

section \<open>The two statements\<close>

definition putc_check :: "video \<Rightarrow> video" where
  "putc_check v = (if POS_INDX v 24 = 80 then new_line v else v)"

definition putc_emit :: "char \<Rightarrow> video \<Rightarrow> video" where
  "putc_emit c v =
     (let x = POS_INDX v 24
      in write_entry (vga_entry (of_char c) (color v)) x 24 (set_POS_INDX 24 (x + 1) v))"

lemma putc_plain_split: "putc_plain c v = putc_emit c (putc_check v)"
  by (simp add: putc_plain_def putc_emit_def putc_check_def Let_def)

definition interrupted_putc :: "'d io_bus \<Rightarrow> char \<Rightarrow> 'd machine \<Rightarrow> 'd machine" where
  "interrupted_putc io c m =
     (let m1 = m\<lparr>console := putc_check (console m)\<rparr>;
          m2 = handle_keyboard io m1
      in m2\<lparr>console := putc_emit c (console m2)\<rparr>)"

section \<open>Their effect\<close>

definition plain_char :: "char \<Rightarrow> bool" where
  "plain_char c \<longleftrightarrow> c \<noteq> CHR 0x0A \<and> c \<noteq> CHR 0x08 \<and> c \<noteq> CHR 0x09"

lemma putc_check_ok:
  assumes "video_ok v"
  shows "video_ok (putc_check v)" "same_beyond v (putc_check v)" "color (putc_check v) = color v"
    "POS_INDX (putc_check v) 24 = (if POS_INDX v 24 = 80 then 0 else POS_INDX v 24)"
    "POS_INDX (putc_check v) 24 < 80"
  using new_line_ok [OF assms] assms POS_INDX_le [OF assms, of 24]
  by (auto simp: putc_check_def same_beyond_def order_less_le)

lemma putc_emit_col: "length (pos v) = 25 \<Longrightarrow> POS_INDX (putc_emit c v) 24 = POS_INDX v 24 + 1"
  using POS_INDX_set_POS [of v 24 "POS_INDX v 24 + 1"]
  by (simp add: putc_emit_def Let_def POS_INDX_def POS_CALC_INDX_def write_entry_def)

lemma putc_emit_ok:
  assumes "video_ok v" "POS_INDX v 24 < 80"
  shows "video_ok (putc_emit c v)" "same_beyond v (putc_emit c v)" "color (putc_emit c v) = color v"
proof -
  have "putc_plain c v = putc_emit c v" using assms(2) by (auto simp: putc_plain_split putc_check_def)
  then show "video_ok (putc_emit c v)" "same_beyond v (putc_emit c v)" "color (putc_emit c v) = color v"
    using putc_plain_ok [OF assms(1), where c = c] by simp_all
qed

text \<open>
  C23: A key press inside \<open>putc\<close> can leave the screen. If the keyboard handler prints an ordinary character between the test of the margin
  and the write, the console stays in order, with no cell changed beyond the screen, unless the column was 79.
  From column 79 the handler advances to 80, the interrupted \<open>putc\<close> writes its character to the cell behind the
  last one of the screen, and the column becomes 81, from where the test for 80 never finds the margin again.
\<close>

theorem interrupted_putc_safe_iff:
  assumes "video_ok (console m)" "fst (inb io 0x60 (dev m)) = scancode" "scancode < 0x80" "plain_char (kbd_US ! unat scancode)"
  shows "let v = console m; v' = console (interrupted_putc io c m) in
    (video_ok v' \<longleftrightarrow> POS_INDX v 24 \<noteq> 79) \<and> (POS_INDX v 24 \<noteq> 79 \<longrightarrow> same_beyond v v') \<and>
    (POS_INDX v 24 = 79 \<longrightarrow> videomem v' 2000 = vga_entry (of_char c) (color v) \<and> POS_INDX v' 24 = 81)"
proof -
  define v1 where "v1 = putc_check (console m)"
  note one = putc_check_ok [OF assms(1), folded v1_def]
  define key where "key = kbd_US ! unat scancode"
  define v2 where "v2 = putc_emit key v1"
  have "Video_putc key v1 = v2"
    using assms(4) one(5) by (auto simp: Video_putc_def plain_char_def key_def v2_def putc_plain_split putc_check_def)
  then have run: "console (interrupted_putc io c m) = putc_emit c v2"
    using assms(2,3) by (simp add: interrupted_putc_def handle_keyboard_def Let_def case_prod_unfold v1_def key_def)
  have two: "video_ok v2" "same_beyond v1 v2" "color v2 = color v1" "POS_INDX v2 24 = POS_INDX v1 24 + 1"
    using putc_emit_ok [OF one(1,5)] putc_emit_col [of v1] one(1) by (simp_all add: v2_def video_ok_def)
  show ?thesis
  proof (cases "POS_INDX (console m) 24 = 79")
    case True
    then have col: "POS_INDX v2 24 = 80" by (simp add: two(4) one(4))
    have "POS_INDX (putc_emit c v2) 24 = 81" using putc_emit_col [of v2 c] two(1) by (simp add: col video_ok_def)
    moreover from this have "\<not> video_ok (putc_emit c v2)" using POS_INDX_le [of "putc_emit c v2" 24] by auto
    moreover have "videomem (putc_emit c v2) 2000 = vga_entry (of_char c) (color (console m))"
      by (simp add: putc_emit_def Let_def col write_entry_def two(3) one(3))
    ultimately show ?thesis using True by (simp add: Let_def run)
  next
    case False
    have "POS_INDX v1 24 \<noteq> 79" using False one(4) by auto
    then have "POS_INDX v2 24 < 80"
      using one(5) unfolding two(4) by unat_arith
    from putc_emit_ok [OF two(1) this, of c] show ?thesis
      using False one(2) two(2) by (auto simp: Let_def run intro: same_beyond_trans)
  qed
qed

theorem interrupted_putc_safe_iff_witness:
  "let m = \<lparr>console = (Video_new (\<lambda>_. 0))\<lparr>pos := replicate 25 79\<rparr>, dev = ()\<rparr>
   in video_ok (console m) \<and> fst (inb (kbd_bus 0x15) 0x60 (dev m)) = 0x15 \<and> plain_char (kbd_US ! unat (0x15 :: u8)) \<and>
      videomem (console (interrupted_putc (kbd_bus 0x15) (CHR ''a'') m)) 2000 = 0x61"
proof -
  let ?m = "\<lparr>console = (Video_new (\<lambda>_. 0))\<lparr>pos := replicate 25 79\<rparr>, dev = ()\<rparr> :: unit machine"
  have m: "video_ok (console ?m)" "fst (inb (kbd_bus 0x15) 0x60 (dev ?m)) = 0x15" "(0x15 :: u8) < 0x80"
    "plain_char (kbd_US ! unat (0x15 :: u8))" "POS_INDX (console ?m) 24 = 79" "color (console ?m) = 0"
    by (simp_all add: video_ok_def inb_def kbd_bus_def kbd_US_def plain_char_def POS_INDX_def Video_new_def Video_clear_def
        vga_entry_color_def)
  have "vga_entry (of_char (CHR ''a'')) 0 = 0x61" by (simp add: vga_entry_def)
  with interrupted_putc_safe_iff [OF m(1-4), of "CHR ''a''"] m show ?thesis by (simp add: Let_def)
qed
section \<open>Interrupts at every statement\<close>

text \<open>\<open>new_line\<close> as the sequence of its assignments: the head of the ring, the column of the fresh line, each cell.\<close>

definition new_line_stmts :: "(video \<Rightarrow> video) list" where
  "new_line_stmts =
     [\<lambda>v. v\<lparr>pos_head := (pos_head v + 25 - 1) mod 25\<rparr>, set_POS_INDX 24 0] @
     concat (map (\<lambda>y. map (\<lambda>x v. v\<lparr>videomem := (videomem v)(y * 80 + x := videomem v ((y + 1) * 80 + x))\<rparr>) [0..<80]) [0..<24]) @
     map (\<lambda>x v. v\<lparr>videomem := (videomem v)(24 * 80 + x := blank)\<rparr>) [0..<80]"

lemma fold_videomem: "fold (\<lambda>x v. v\<lparr>videomem := h x (videomem v)\<rparr>) xs v = v\<lparr>videomem := fold h xs (videomem v)\<rparr>"
  by (induction xs arbitrary: v) simp_all

lemma fold_map_id: "fold (\<lambda>f. f) (map h xs) = fold h xs"
  by (simp add: fold_map comp_def)

lemma fold_concat_id: "fold (\<lambda>f. f) (concat fss) = fold (\<lambda>fs. fold (\<lambda>f. f) fs) fss"
  by (induction fss) simp_all

lemma new_line_stmts_run: "fold (\<lambda>f. f) new_line_stmts v = new_line v"
proof -
  have row: "fold (\<lambda>x v. v\<lparr>videomem := (videomem v)(y * 80 + x := videomem v ((y + 1) * 80 + x))\<rparr>) [0..<80] =
      (\<lambda>v. v\<lparr>videomem := copy_row y (y + 1) (videomem v)\<rparr>)" for y
    using fold_videomem [of "\<lambda>x vm. vm(y * 80 + x := vm ((y + 1) * 80 + x))"] by (simp only: copy_row_def fun_eq_iff) blast
  have rows: "fold (\<lambda>f. f) (concat (map (\<lambda>y. map (\<lambda>x v. v\<lparr>videomem := (videomem v)(y * 80 + x := videomem v ((y + 1) * 80 + x))\<rparr>)
      [0..<80]) [0..<24])) v = v\<lparr>videomem := fold (\<lambda>y. copy_row y (y + 1)) [0..<24] (videomem v)\<rparr>" for v
    using fold_videomem [of "\<lambda>y. copy_row y (y + 1)"] by (simp only: fold_concat_id fold_map comp_def fold_map_id row)
  have bottom: "fold (\<lambda>f. f) (map (\<lambda>x v. v\<lparr>videomem := (videomem v)(24 * 80 + x := blank)\<rparr>) [0..<80]) v =
      v\<lparr>videomem := blank_row 24 (videomem v)\<rparr>" for v
    using fold_videomem [of "\<lambda>x vm. vm(24 * 80 + x := blank)"] by (simp only: fold_map_id blank_row_def)
  show ?thesis
    by (simp only: new_line_stmts_def fold_append comp_apply rows bottom) (simp add: new_line_def Let_def)
qed

text \<open>A sequence of statements with key presses between them: each is a whole call of \<open>putc\<close> by the handler.\<close>

inductive keyed :: "(video \<Rightarrow> video) list \<Rightarrow> video \<Rightarrow> video \<Rightarrow> bool" where
  keyed_done: "keyed [] v v"
| keyed_stmt: "keyed fs (f v) w \<Longrightarrow> keyed (f # fs) v w"
| keyed_key: "keyed fs (Video_putc key v) w \<Longrightarrow> keyed fs v w"

lemma keyed_fold: "keyed fs v (fold (\<lambda>f. f) fs v)"
  by (induction fs arbitrary: v) (simp_all add: keyed_done keyed_stmt)

definition keeps_screen :: "(video \<Rightarrow> video) \<Rightarrow> bool" where
  "keeps_screen f \<longleftrightarrow> (\<forall>v. video_ok v \<longrightarrow> video_ok (f v) \<and> same_beyond v (f v))"

lemma new_line_stmts_keep: "f \<in> set new_line_stmts \<Longrightarrow> keeps_screen f"
  using video_ok_set_POS [of _ 0 24]
  by (auto simp: new_line_stmts_def keeps_screen_def) (auto simp: video_ok_def same_beyond_def set_POS_INDX_def)

lemma keyed_keep:
  "keyed fs v w \<Longrightarrow> \<forall>f \<in> set fs. keeps_screen f \<Longrightarrow> video_ok v \<Longrightarrow> video_ok w \<and> same_beyond v w"
proof (induction rule: keyed.induct)
  case (keyed_done v)
  then show ?case by (simp add: same_beyond_def)
next
  case (keyed_stmt fs f v w)
  then show ?case using same_beyond_trans [of v "f v" w] by (simp add: keeps_screen_def)
next
  case (keyed_key fs key v w)
  then show ?case using Video_putc_ok [OF keyed_key.prems(2), where c = key] same_beyond_trans [of v "Video_putc key v" w] by blast
qed

text \<open>
  C21: Where key presses do harm. Let any number of key presses of any keys fall between any two assignments of \<open>putc\<close> for an ordinary
  character, those of the \<open>new_line\<close> it calls at the right margin included. Up to the write of the character the
  console stays in order and nothing beyond the screen changes; \<open>new_line\<close> itself can be interrupted anywhere. The write
  keeps the console in order exactly when the column is not 80 by then, and changes nothing beyond the screen in that case.
  Without key presses the statements are those of \<open>putc\<close>.
\<close>

theorem interrupted_statements_safe:
  assumes "video_ok v" "keyed (if POS_INDX v 24 = 80 then new_line_stmts else []) v w"
  shows "video_ok w \<and> same_beyond v w \<and> (video_ok (putc_emit c w) \<longleftrightarrow> POS_INDX w 24 \<noteq> 80) \<and>
    (POS_INDX w 24 \<noteq> 80 \<longrightarrow> same_beyond v (putc_emit c w)) \<and>
    putc_plain c v = putc_emit c (fold (\<lambda>f. f) (if POS_INDX v 24 = 80 then new_line_stmts else []) v)"
proof -
  have w: "video_ok w" "same_beyond v w"
    using keyed_keep [OF assms(2) _ assms(1)] new_line_stmts_keep by auto
  have "\<not> video_ok (putc_emit c w)" if "POS_INDX w 24 = 80"
    using putc_emit_col [of w c] POS_INDX_le [of "putc_emit c w" 24] w(1) that by (auto simp: video_ok_def)
  moreover have "video_ok (putc_emit c w) \<and> same_beyond w (putc_emit c w)" if "POS_INDX w 24 \<noteq> 80"
    using putc_emit_ok [OF w(1), of c] POS_INDX_le [OF w(1), of 24] that by (simp add: order_less_le)
  moreover have "putc_plain c v = putc_emit c (fold (\<lambda>f. f) (if POS_INDX v 24 = 80 then new_line_stmts else []) v)"
    using new_line_stmts_run [of v] by (simp add: putc_plain_split putc_check_def)
  ultimately show ?thesis using w same_beyond_trans [OF w(2)] by blast
qed

theorem interrupted_statements_safe_witness:
  "let v = (Video_new (\<lambda>_. 0))\<lparr>pos := replicate 25 79\<rparr>; w = Video_putc (CHR ''y'') v
   in video_ok v \<and> keyed (if POS_INDX v 24 = 80 then new_line_stmts else []) v w \<and> POS_INDX w 24 = 80 \<and>
      \<not> video_ok (putc_emit (CHR ''a'') w)"
proof -
  define v where "v = (Video_new (\<lambda>_. 0))\<lparr>pos := replicate 25 79\<rparr>"
  define w where "w = Video_putc (CHR ''y'') v"
  have v: "video_ok v" "POS_INDX v 24 = 79" by (simp_all add: v_def video_ok_def POS_INDX_def Video_new_def Video_clear_def)
  then have "w = putc_emit (CHR ''y'') v" by (simp add: w_def Video_putc_def putc_plain_split putc_check_def)
  then have col: "POS_INDX w 24 = 80" using putc_emit_col [of v] v by (simp add: video_ok_def)
  have "keyed [] v w" unfolding w_def by (rule keyed_key) (rule keyed_done)
  then have keyed: "keyed (if POS_INDX v 24 = 80 then new_line_stmts else []) v w" by (simp add: v(2))
  from interrupted_statements_safe [OF v(1) keyed, of "CHR ''a''"]
  show ?thesis using v keyed col unfolding Let_def v_def [symmetric] w_def [symmetric] by blast
qed

end
