(* ===== verification/Cxxabi.thy ===== *)
theory Cxxabi
  imports Prelude
begin

text \<open>
  Registration and running of destructors (icxxabi.h, icxxabi.cpp). Calling a function pointer is
  outside the program: it is an argument \<open>call\<close> on the whole state, of which the table and its
  counter are a part, since a destructor may reach them. \<open>calls_keep_table\<close> states that the
  destructors do not register or unregister others.
\<close>

section \<open>Operations\<close>

abbreviation ATEXIT_MAX_FUNCS :: u32 where "ATEXIT_MAX_FUNCS \<equiv> 128"

record atexit_func_entry_t =
  destructor_func :: u64
  obj_ptr :: u64
  dso_handle :: u64

record 'w cxxabi =
  atexit_funcs :: "atexit_func_entry_t list"
  atexit_func_count :: u32
  world :: 'w

type_synonym 'w caller = "u64 \<Rightarrow> u64 \<Rightarrow> 'w cxxabi \<Rightarrow> 'w cxxabi"

definition cxa_atexit :: "u64 \<Rightarrow> u64 \<Rightarrow> u64 \<Rightarrow> 'w cxxabi \<Rightarrow> int \<times> 'w cxxabi" where
  "cxa_atexit f objptr dso s =
     (if ATEXIT_MAX_FUNCS \<le> atexit_func_count s then (- 1, s)
      else (0, s\<lparr>atexit_funcs := (atexit_funcs s)[unat (atexit_func_count s) :=
                   \<lparr>destructor_func = f, obj_ptr = objptr, dso_handle = dso\<rparr>],
                 atexit_func_count := atexit_func_count s + 1\<rparr>))"

text \<open>The loop \<open>while (i--)\<close> of the call with a null argument.\<close>

primrec finalize_all :: "'w caller \<Rightarrow> nat \<Rightarrow> 'w cxxabi \<Rightarrow> 'w cxxabi" where
  "finalize_all call 0 s = s"
| "finalize_all call (Suc i) s =
     (let e = atexit_funcs s ! i
      in finalize_all call i (if destructor_func e \<noteq> 0 then call (destructor_func e) (obj_ptr e) s else s))"

text \<open>The loop \<open>while (i--)\<close> of the call for one destructor.\<close>

primrec finalize_one :: "'w caller \<Rightarrow> u64 \<Rightarrow> nat \<Rightarrow> 'w cxxabi \<Rightarrow> 'w cxxabi" where
  "finalize_one call f 0 s = s"
| "finalize_one call f (Suc i) s =
     (let e = atexit_funcs s ! i
      in finalize_one call f i
           (if destructor_func e = f
            then let s1 = call (destructor_func e) (obj_ptr e) s
                 in s1\<lparr>atexit_funcs := (atexit_funcs s1)[i := (atexit_funcs s1 ! i)\<lparr>destructor_func := 0\<rparr>]\<rparr>
            else s))"

definition cxa_finalize :: "'w caller \<Rightarrow> u64 \<Rightarrow> 'w cxxabi \<Rightarrow> 'w cxxabi" where
  "cxa_finalize call f s =
     (let i = unat (atexit_func_count s)
      in if f = 0 then finalize_all call i s else finalize_one call f i s)"

section \<open>Registered destructors\<close>

definition cxxabi_ok :: "'w cxxabi \<Rightarrow> bool" where
  "cxxabi_ok s \<longleftrightarrow> length (atexit_funcs s) = 128 \<and> unat (atexit_func_count s) \<le> 128"

definition registered :: "'w cxxabi \<Rightarrow> atexit_func_entry_t list" where
  "registered s = take (unat (atexit_func_count s)) (atexit_funcs s)"

definition calls_keep_table :: "'w caller \<Rightarrow> (u64 \<Rightarrow> u64 \<Rightarrow> 'w \<Rightarrow> 'w) \<Rightarrow> bool" where
  "calls_keep_table call eff \<longleftrightarrow> (\<forall>f obj s. call f obj s = s\<lparr>world := eff f obj (world s)\<rparr>)"

text \<open>The effect of running a list of entries, the last one first.\<close>

definition run_reversed :: "(u64 \<Rightarrow> u64 \<Rightarrow> 'w \<Rightarrow> 'w) \<Rightarrow> atexit_func_entry_t list \<Rightarrow> 'w \<Rightarrow> 'w" where
  "run_reversed eff es w = fold (\<lambda>e. eff (destructor_func e) (obj_ptr e)) (rev es) w"

lemma count_less: "cxxabi_ok s \<Longrightarrow> 128 \<le> atexit_func_count s \<longleftrightarrow> unat (atexit_func_count s) = 128"
  by (auto simp: cxxabi_ok_def word_le_nat_alt)

lemma atexit_ok:
  assumes "cxxabi_ok s"
  shows "cxxabi_ok (snd (cxa_atexit f obj dso s))"
    "length (registered s) < 128 \<Longrightarrow> fst (cxa_atexit f obj dso s) = 0 \<and>
       registered (snd (cxa_atexit f obj dso s)) =
         registered s @ [\<lparr>destructor_func = f, obj_ptr = obj, dso_handle = dso\<rparr>]"
    "length (registered s) = 128 \<Longrightarrow> cxa_atexit f obj dso s = (- 1, s)"
proof -
  let ?c = "unat (atexit_func_count s)"
  have c: "length (registered s) = ?c" using assms by (simp add: registered_def cxxabi_ok_def)
  have inc: "unat (atexit_func_count s + 1) = ?c + 1" if "?c < 128"
    using that by (subst unat_plus_if_size) (simp add: word_size)
  show "cxxabi_ok (snd (cxa_atexit f obj dso s))"
    using assms inc by (auto simp: cxa_atexit_def cxxabi_ok_def word_le_nat_alt)
  show "length (registered s) = 128 \<Longrightarrow> cxa_atexit f obj dso s = (- 1, s)"
    using c by (simp add: cxa_atexit_def word_le_nat_alt)
  assume "length (registered s) < 128"
  then have "?c < 128" using c by simp
  then show "fst (cxa_atexit f obj dso s) = 0 \<and> registered (snd (cxa_atexit f obj dso s)) =
         registered s @ [\<lparr>destructor_func = f, obj_ptr = obj, dso_handle = dso\<rparr>]"
    using assms inc by (simp add: cxa_atexit_def word_le_nat_alt registered_def cxxabi_ok_def take_Suc_conv_app_nth)
qed

lemma finalize_all_run:
  assumes "calls_keep_table call eff" "n \<le> length (atexit_funcs s)"
  shows "finalize_all call n s =
    s\<lparr>world := run_reversed eff (filter (\<lambda>e. destructor_func e \<noteq> 0) (take n (atexit_funcs s))) (world s)\<rparr>"
  using assms(2)
proof (induction n arbitrary: s)
  case (Suc n)
  then show ?case
    using assms(1) by (simp add: Let_def calls_keep_table_def take_Suc_conv_app_nth run_reversed_def)
qed (simp add: run_reversed_def)

lemma finalize_one_run:
  assumes "calls_keep_table call eff" "n \<le> length (atexit_funcs s)"
  shows "finalize_one call f n s =
    s\<lparr>atexit_funcs := map (\<lambda>e. if destructor_func e = f then e\<lparr>destructor_func := 0\<rparr> else e) (take n (atexit_funcs s))
        @ drop n (atexit_funcs s),
      world := run_reversed eff (filter (\<lambda>e. destructor_func e = f) (take n (atexit_funcs s))) (world s)\<rparr>"
  using assms(2)
proof (induction n arbitrary: s)
  case (Suc n)
  let ?t = "atexit_funcs s"
  have split: "take (Suc n) ?t = take n ?t @ [?t ! n]" "drop n ?t = ?t ! n # drop (Suc n) ?t"
    using Suc.prems by (simp_all add: take_Suc_conv_app_nth Cons_nth_drop_Suc)
  have upd: "take n (?t[n := x]) = take n ?t" "drop n (?t[n := x]) = x # drop (Suc n) ?t" for x
    using Suc.prems by (simp_all add: drop_update_swap split)
  show ?case
    using Suc assms(1) by (simp add: Let_def calls_keep_table_def split upd run_reversed_def)
qed (simp add: run_reversed_def)

section \<open>Properties\<close>

definition cxxabi0 :: "u64 list cxxabi" where
  "cxxabi0 =
     \<lparr>atexit_funcs = replicate 128 \<lparr>destructor_func = 0, obj_ptr = 0, dso_handle = 0\<rparr>, atexit_func_count = 0, world = []\<rparr>"

definition log_call :: "u64 list caller" where
  "log_call f obj s = s\<lparr>world := world s @ [f]\<rparr>"

lemma log_call_keeps: "calls_keep_table log_call (\<lambda>f obj w. w @ [f])"
  by (simp add: calls_keep_table_def log_call_def)

lemma cxxabi0_ok: "cxxabi_ok cxxabi0"
  by (simp add: cxxabi_ok_def cxxabi0_def)

lemma registered_cxxabi0: "registered cxxabi0 = []"
  by (simp add: registered_def cxxabi0_def)

text \<open>
  \<open>__cxa_atexit\<close> appends to the table while it holds fewer than 128 entries and returns 0; on a
  full table it returns -1 and changes nothing. The table never overflows.
\<close>

theorem cxa_atexit_registers:
  assumes "cxxabi_ok s"
  shows "let (r, s') = cxa_atexit f obj dso s in cxxabi_ok s' \<and>
    (if length (registered s) < 128
     then r = 0 \<and> registered s' = registered s @ [\<lparr>destructor_func = f, obj_ptr = obj, dso_handle = dso\<rparr>]
     else r = - 1 \<and> s' = s)"
proof -
  have "length (registered s) \<le> 128" using assms by (simp add: registered_def cxxabi_ok_def)
  then show ?thesis
    using atexit_ok [OF assms, of f obj dso] by (cases "length (registered s) < 128") (auto simp: case_prod_unfold Let_def)
qed

theorem cxa_atexit_registers_witness:
  "cxxabi_ok cxxabi0 \<and> length (registered (snd (cxa_atexit 7 8 9 cxxabi0))) = 1"
  using cxxabi0_ok cxa_atexit_registers [OF cxxabi0_ok, of 7 8 9]
  by (simp add: case_prod_unfold Let_def registered_def cxxabi0_def)

text \<open>
  \<open>__cxa_finalize(nullptr)\<close> runs every registered destructor that is still set exactly once, the
  last registered first, and leaves the table as it is; so a second call runs them all again.
\<close>

theorem cxa_finalize_all_reversed:
  assumes "cxxabi_ok s" "calls_keep_table call eff"
  shows "let run = run_reversed eff (filter (\<lambda>e. destructor_func e \<noteq> 0) (registered s))
    in cxa_finalize call 0 s = s\<lparr>world := run (world s)\<rparr> \<and>
       cxa_finalize call 0 (cxa_finalize call 0 s) = s\<lparr>world := run (run (world s))\<rparr>"
  using finalize_all_run [OF assms(2), of "unat (atexit_func_count s)"] assms(1)
  by (simp add: cxa_finalize_def Let_def registered_def cxxabi_ok_def)

theorem cxa_finalize_all_reversed_witness:
  "let s = snd (cxa_atexit 2 0 0 (snd (cxa_atexit 1 0 0 cxxabi0))) in
     cxxabi_ok s \<and> calls_keep_table log_call (\<lambda>f obj w. w @ [f]) \<and> world (cxa_finalize log_call 0 s) = [2, 1]"
proof -
  let ?s = "snd (cxa_atexit 2 0 0 (snd (cxa_atexit 1 0 0 cxxabi0)))"
  have ok: "cxxabi_ok ?s" by (intro atexit_ok(1) cxxabi0_ok)
  have reg: "registered ?s = [\<lparr>destructor_func = 1, obj_ptr = 0, dso_handle = 0\<rparr>, \<lparr>destructor_func = 2, obj_ptr = 0, dso_handle = 0\<rparr>]"
    using atexit_ok(2) [OF cxxabi0_ok, of 1 0 0] atexit_ok(2) [OF atexit_ok(1) [OF cxxabi0_ok], of 1 0 0 2 0 0]
    by (simp add: registered_cxxabi0)
  have "world ?s = []" by (simp add: cxa_atexit_def cxxabi0_def)
  then show ?thesis
    using ok log_call_keeps cxa_finalize_all_reversed [OF ok log_call_keeps] by (simp add: Let_def reg run_reversed_def)
qed

text \<open>
  \<open>__cxa_finalize(f)\<close> for a destructor \<open>f\<close> runs its registrations, the last one first, and unsets
  exactly those; the other entries keep their places, and a second call with the same \<open>f\<close> runs nothing.
\<close>

theorem cxa_finalize_one_once:
  assumes "cxxabi_ok s" "calls_keep_table call eff" "f \<noteq> 0"
  shows "let s' = cxa_finalize call f s in
    registered s' = map (\<lambda>e. if destructor_func e = f then e\<lparr>destructor_func := 0\<rparr> else e) (registered s) \<and>
    world s' = run_reversed eff (filter (\<lambda>e. destructor_func e = f) (registered s)) (world s) \<and>
    cxa_finalize call f s' = s'"
proof -
  let ?n = "unat (atexit_func_count s)" and ?t = "atexit_funcs s"
  let ?unset = "\<lambda>e. if destructor_func e = f then e\<lparr>destructor_func := 0\<rparr> else e"
  have n: "?n \<le> length ?t" using assms(1) by (simp add: cxxabi_ok_def)
  define s' where "s' = cxa_finalize call f s"
  have s': "s' = s\<lparr>atexit_funcs := map ?unset (take ?n ?t) @ drop ?n ?t,
      world := run_reversed eff (filter (\<lambda>e. destructor_func e = f) (take ?n ?t)) (world s)\<rparr>"
    using assms(3) finalize_one_run [OF assms(2) n, of f] by (simp add: s'_def cxa_finalize_def)
  have none: "filter (\<lambda>e. destructor_func e = f) (map ?unset es) = []" for es
    using assms(3) by (auto simp: filter_empty_conv)
  have id: "map ?unset (map ?unset es) = map ?unset es" for es using assms(3) by auto
  have "cxa_finalize call f s' = s'"
    using assms(3) finalize_one_run [OF assms(2), of ?n s' f] n
    by (simp add: cxa_finalize_def s' none id run_reversed_def min_absorb2 del: map_map)
  moreover have "registered s' = map ?unset (registered s)"
    "world s' = run_reversed eff (filter (\<lambda>e. destructor_func e = f) (registered s)) (world s)"
    using n by (simp_all add: s' registered_def)
  ultimately show ?thesis by (simp only: Let_def s'_def [symmetric])
qed

theorem cxa_finalize_one_once_witness:
  "let s = snd (cxa_atexit 2 0 0 (snd (cxa_atexit 1 0 0 cxxabi0))) in
     cxxabi_ok s \<and> calls_keep_table log_call (\<lambda>f obj w. w @ [f]) \<and> (2 :: u64) \<noteq> 0 \<and>
     cxa_finalize log_call 2 (cxa_finalize log_call 2 s) = cxa_finalize log_call 2 s"
proof -
  have "cxxabi_ok (snd (cxa_atexit 2 0 0 (snd (cxa_atexit 1 0 0 cxxabi0))))" by (intro atexit_ok(1) cxxabi0_ok)
  with log_call_keeps cxa_finalize_one_once [OF this log_call_keeps, of 2] show ?thesis unfolding Let_def by auto
qed

end
