(* ===== verification/Singleton.thy ===== *)
theory Singleton
  imports PageAlloc Cxxabi
begin

text \<open>
  The template \<open>UnsafeSingleton\<close> (utils/singleton.h) and what the language does for its function-local static object: the first call of
  \<open>getInstance\<close> constructs the object and registers its destructor with \<open>__cxa_atexit\<close> if it has one, later calls find a guard
  set. The constructors of \<open>DumbAllocator\<close> and \<open>PageAllocator\<close> leave the zeroed members as they are; only the latter has a
  destructor, through its bitset. The theorem justifies that the other theories treat both objects as fields of \<open>kmem\<close>, and
  covers the call of \<open>__cxa_finalize\<close> at the end of boot/boot.s.
\<close>

section \<open>Operations\<close>

record statics =
  st_mem :: kmem
  dumb_built :: bool
  pages_built :: bool

definition getInstance :: "('w \<Rightarrow> bool) \<Rightarrow> ('w cxxabi \<Rightarrow> 'w cxxabi) \<Rightarrow> 'w cxxabi \<Rightarrow> 'w cxxabi" where
  "getInstance built construct s = (if built (world s) then s else construct s)"

definition upd_world :: "('w \<Rightarrow> 'w) \<Rightarrow> 'w cxxabi \<Rightarrow> 'w cxxabi" where
  "upd_world f s = s\<lparr>world := f (world s)\<rparr>"

definition upd_mem :: "(kmem \<Rightarrow> kmem) \<Rightarrow> statics cxxabi \<Rightarrow> statics cxxabi" where
  "upd_mem f = upd_world (\<lambda>w. w\<lparr>st_mem := f (st_mem w)\<rparr>)"

definition DumbAllocator_getInstance :: "statics cxxabi \<Rightarrow> statics cxxabi" where
  "DumbAllocator_getInstance = getInstance dumb_built (upd_world (\<lambda>w. w\<lparr>dumb_built := True\<rparr>))"

text \<open>The entry for the destructor: its address, the address of the object and the handle of the image.\<close>

definition PageAllocator_getInstance :: "atexit_func_entry_t \<Rightarrow> statics cxxabi \<Rightarrow> statics cxxabi" where
  "PageAllocator_getInstance e = getInstance pages_built
     (\<lambda>s. upd_world (\<lambda>w. w\<lparr>pages_built := True\<rparr>) (snd (cxa_atexit (destructor_func e) (obj_ptr e) (dso_handle e) s)))"

definition paging_init_static :: "atexit_func_entry_t \<Rightarrow> u64 \<Rightarrow> u64 \<Rightarrow> u64 \<Rightarrow> statics cxxabi \<Rightarrow> statics cxxabi" where
  "paging_init_static e kernel_base kernel_end n_pages s =
     (let s1 = upd_mem (\<lambda>k. k\<lparr>k_dumb := DumbAllocator_init kernel_end (k_dumb k)\<rparr>) (DumbAllocator_getInstance s);
          s2 = PageAllocator_getInstance e s1;
          s3 = upd_mem (\<lambda>k. k\<lparr>k_pages := (k_pages k)\<lparr>m_kernel_base := kernel_base\<rparr>\<rparr>) s2;
          s4 = upd_mem (\<lambda>k. k\<lparr>k_pages := (k_pages k)\<lparr>m_page_count := n_pages\<rparr>\<rparr>) s3;
          s5 = DumbAllocator_getInstance s4
      in upd_mem (\<lambda>k. let (pages, al) = BitSetPageAllocator_new n_pages (k_dumb k)
                      in k\<lparr>k_dumb := al, k_pages := (k_pages k)\<lparr>m_allocator := pages\<rparr>\<rparr>) s5)"

text \<open>The implicit destructor of \<open>PageAllocator\<close> runs that of its bitset, which frees its words; calling any other address is left open.\<close>

definition PageAllocator_delete :: "statics cxxabi \<Rightarrow> statics cxxabi" where
  "PageAllocator_delete s =
     upd_mem (\<lambda>k. k\<lparr>k_dumb := dynamic_bitset_delete DumbAllocator_free (m_allocator (k_pages k)) (k_dumb k)\<rparr>)
       (DumbAllocator_getInstance s)"

definition run_destructor :: "atexit_func_entry_t \<Rightarrow> statics caller \<Rightarrow> statics caller" where
  "run_destructor e other f obj s =
     (if f = destructor_func e \<and> obj = obj_ptr e then PageAllocator_delete s else other f obj s)"

section \<open>Properties\<close>

lemma upd_mem_simps [simp]:
  "st_mem (world (upd_mem f s)) = f (st_mem (world s))" "registered (upd_mem f s) = registered s"
  "pages_built (world (upd_mem f s)) = pages_built (world s)" "cxxabi_ok (upd_mem f s) = cxxabi_ok s"
  by (simp_all add: upd_mem_def upd_world_def registered_def cxxabi_ok_def)

lemma dumb_instance_simps [simp]:
  "st_mem (world (DumbAllocator_getInstance s)) = st_mem (world s)" "registered (DumbAllocator_getInstance s) = registered s"
  "pages_built (world (DumbAllocator_getInstance s)) = pages_built (world s)" "cxxabi_ok (DumbAllocator_getInstance s) = cxxabi_ok s"
  by (simp_all add: DumbAllocator_getInstance_def getInstance_def upd_world_def registered_def cxxabi_ok_def)

lemma pages_instance:
  assumes "cxxabi_ok s" "length (registered s) < 128"
  shows "st_mem (world (PageAllocator_getInstance e s)) = st_mem (world s)" "pages_built (world (PageAllocator_getInstance e s))"
    "cxxabi_ok (PageAllocator_getInstance e s)"
    "registered (PageAllocator_getInstance e s) = (if pages_built (world s) then registered s else registered s @ [e])"
proof -
  have reg: "registered (upd_world f x) = registered x" "cxxabi_ok (upd_world f x) = cxxabi_ok x" for f and x :: "statics cxxabi"
    by (simp_all add: upd_world_def registered_def cxxabi_ok_def)
  have w: "world (snd (cxa_atexit f obj dso s)) = world s" for f obj dso by (simp add: cxa_atexit_def)
  show "st_mem (world (PageAllocator_getInstance e s)) = st_mem (world s)" "pages_built (world (PageAllocator_getInstance e s))"
    by (simp_all add: PageAllocator_getInstance_def getInstance_def upd_world_def w)
  show "cxxabi_ok (PageAllocator_getInstance e s)"
    using assms atexit_ok(1) [OF assms(1)] by (simp add: PageAllocator_getInstance_def getInstance_def reg)
  show "registered (PageAllocator_getInstance e s) = (if pages_built (world s) then registered s else registered s @ [e])"
    using assms(2) atexit_ok(2) [OF assms(1)] by (simp add: PageAllocator_getInstance_def getInstance_def reg)
qed

lemma paging_init_static_effect:
  fixes e :: atexit_func_entry_t and base kend n :: u64 and s :: "statics cxxabi"
  defines "s' \<equiv> paging_init_static e base kend n s"
  assumes "cxxabi_ok s" "length (registered s) < 128"
  shows "st_mem (world s') = paging_init base kend n (st_mem (world s))" "pages_built (world s')" "cxxabi_ok s'"
    "registered s' = (if pages_built (world s) then registered s else registered s @ [e])"
  using assms(2,3) by (simp_all add: s'_def paging_init_static_def Let_def pages_instance paging_init_def case_prod_unfold)

lemma delete_mem: "st_mem (world (PageAllocator_delete s)) = st_mem (world s)"
  by (simp add: PageAllocator_delete_def dynamic_bitset_delete_def DumbAllocator_free_def)

text \<open>With the one entry in the table, finalization calls the destructor or nothing.\<close>

lemma finalize_harmless:
  assumes "cxxabi_ok s" "registered s = [e]"
  shows "st_mem (world (cxa_finalize (run_destructor e other) f s)) = st_mem (world s)"
proof -
  have len: "length (take (unat (atexit_func_count s)) (atexit_funcs s)) = 1" using assms(2) by (simp add: registered_def)
  then have c: "unat (atexit_func_count s) = Suc 0" using assms(1) by (simp add: cxxabi_ok_def min_def split: if_splits)
  have "atexit_funcs s ! 0 = e" using assms by (cases "atexit_funcs s") (simp_all add: registered_def c)
  then show ?thesis by (simp add: cxa_finalize_def c Let_def run_destructor_def delete_mem)
qed

text \<open>
  C22: The singletons are constructed once, and the end of the kernel does no harm. Through \<open>getInstance\<close>, \<open>paging_init\<close> does to the two
  objects and the memory exactly what it does to them as plain objects. The first call registers the destructor of
  \<open>PageAllocator\<close>, a second one constructs and registers nothing. Whatever \<open>__cxa_finalize\<close> is called with after that,
  zero, the destructor or any other address, it leaves the allocators and the memory as they are, and calls no
  function that was not registered.
\<close>

theorem singletons_constructed_once:
  assumes "cxxabi_ok s" "registered s = []" "\<not> pages_built (world s)"
  shows "let s' = paging_init_static e base kend n s; s'' = paging_init_static e base' kend' n' s' in
    st_mem (world s') = paging_init base kend n (st_mem (world s)) \<and> registered s' = [e] \<and>
    st_mem (world s'') = paging_init base' kend' n' (st_mem (world s')) \<and> registered s'' = [e] \<and>
    (\<forall>other f. st_mem (world (cxa_finalize (run_destructor e other) f s')) = st_mem (world s'))"
proof -
  define s' where "s' = paging_init_static e base kend n s"
  have one: "st_mem (world s') = paging_init base kend n (st_mem (world s))" "pages_built (world s')" "cxxabi_ok s'" "registered s' = [e]"
    using paging_init_static_effect [OF assms(1), of e base kend n] assms(2,3) by (simp_all add: s'_def)
  moreover have "st_mem (world (paging_init_static e base' kend' n' s')) = paging_init base' kend' n' (st_mem (world s'))"
    "registered (paging_init_static e base' kend' n' s') = [e]"
    using paging_init_static_effect [OF one(3), of e base' kend' n'] one(2,4) by simp_all
  ultimately show ?thesis using finalize_harmless [OF one(3,4)] unfolding Let_def s'_def [symmetric] by blast
qed

definition statics0 :: "statics cxxabi" where
  "statics0 =
     \<lparr>atexit_funcs = replicate 128 \<lparr>destructor_func = 0, obj_ptr = 0, dso_handle = 0\<rparr>, atexit_func_count = 0,
      world = \<lparr>st_mem = k_example, dumb_built = False, pages_built = False\<rparr>\<rparr>"

theorem singletons_constructed_once_witness:
  "let e = \<lparr>destructor_func = 0x500, obj_ptr = 0x600, dso_handle = 0\<rparr>; s' = paging_init_static e 0xFFFFFFFF80000000 0x200000 64 statics0
   in cxxabi_ok statics0 \<and> registered statics0 = [] \<and> registered s' = [e] \<and>
      st_mem (world (cxa_finalize (run_destructor e (\<lambda>_ _ s. s)) 0x500 s')) = st_mem (world s')"
proof -
  have "cxxabi_ok statics0" "registered statics0 = []" "\<not> pages_built (world statics0)"
    by (simp_all add: cxxabi_ok_def registered_def statics0_def)
  with singletons_constructed_once [OF this] show ?thesis unfolding Let_def by blast
qed

end
