(* ===== verification/DList.thy ===== *)
theory DList
  imports Prelude
begin

text \<open>
  The intrusive list templates (utils/datastructs/linked_list.h, double_linked_list.h). An object with
  links is found at its address in a store; 0 is the null pointer. \<open>unlink\<close> reads the links of
  the template's parameter through \<open>next\<close> and \<open>prev\<close>, which the model takes to be its two links.
\<close>

section \<open>Operations\<close>

record dlink =
  m_next :: u64
  m_prev :: u64

type_synonym links = "u64 \<Rightarrow> dlink"

text \<open>\<open>LinkedList\<close>, which has the link \<open>m_next\<close> only, and \<open>DoubleLinkedList\<close>.\<close>

definition list_next :: "links \<Rightarrow> u64 \<Rightarrow> u64" where
  "list_next h p = m_next (h p)"

definition list_set_next :: "u64 \<Rightarrow> u64 \<Rightarrow> links \<Rightarrow> links" where
  "list_set_next p n h = h(p := (h p)\<lparr>m_next := n\<rparr>)"

definition dlist_next :: "links \<Rightarrow> u64 \<Rightarrow> u64" where
  "dlist_next h p = m_next (h p)"

definition dlist_set_next :: "u64 \<Rightarrow> u64 \<Rightarrow> links \<Rightarrow> links" where
  "dlist_set_next p n h = h(p := (h p)\<lparr>m_next := n\<rparr>)"

definition dlist_prev :: "links \<Rightarrow> u64 \<Rightarrow> u64" where
  "dlist_prev h p = m_prev (h p)"

definition dlist_set_prev :: "u64 \<Rightarrow> u64 \<Rightarrow> links \<Rightarrow> links" where
  "dlist_set_prev p n h = h(p := (h p)\<lparr>m_prev := n\<rparr>)"

definition dlist_unlink :: "u64 \<Rightarrow> links \<Rightarrow> (u64 \<times> links) result" where
  "dlist_unlink link h =
     (if link = 0 then Inl (Undefined ''null pointer'')
      else let nxt = dlist_next h link; prv = dlist_prev h link
           in if nxt \<noteq> 0 then
                if prv \<noteq> 0 then Inr (prv, dlist_set_prev nxt prv (dlist_set_next prv nxt h))
                else Inr (nxt, dlist_set_prev nxt 0 h)
              else if prv \<noteq> 0 then Inr (prv, dlist_set_next prv 0 h)
              else Inr (link, h))"

section \<open>Properties\<close>

lemma list_links:
  "list_next (list_set_next p n h) q = (if q = p then n else list_next h q)"
  "dlist_next (dlist_set_next p n h) q = (if q = p then n else dlist_next h q)"
  "dlist_prev (dlist_set_prev p n h) q = (if q = p then n else dlist_prev h q)"
  "dlist_prev (dlist_set_next p n h) q = dlist_prev h q" "dlist_next (dlist_set_prev p n h) q = dlist_next h q"
  by (simp_all add: list_next_def list_set_next_def dlist_next_def dlist_set_next_def dlist_prev_def dlist_set_prev_def)

definition hd_or :: "u64 \<Rightarrow> u64 list \<Rightarrow> u64" where
  "hd_or nxt xs = (case xs of [] \<Rightarrow> nxt | x # _ \<Rightarrow> x)"

definition last_or :: "u64 \<Rightarrow> u64 list \<Rightarrow> u64" where
  "last_or prv xs = last (prv # xs)"

text \<open>The objects \<open>xs\<close> are linked in this order, between \<open>prv\<close> and \<open>nxt\<close>.\<close>

primrec dchain :: "links \<Rightarrow> u64 \<Rightarrow> u64 list \<Rightarrow> u64 \<Rightarrow> bool" where
  "dchain h prv [] nxt \<longleftrightarrow> True"
| "dchain h prv (x # xs) nxt \<longleftrightarrow> m_prev (h x) = prv \<and> m_next (h x) = hd_or nxt xs \<and> dchain h x xs nxt"

lemma hd_or_append: "hd_or nxt (xs @ ys) = hd_or (hd_or nxt ys) xs"
  by (cases xs) (simp_all add: hd_or_def)

lemma dchain_append:
  "dchain h prv (xs @ ys) nxt \<longleftrightarrow> dchain h prv xs (hd_or nxt ys) \<and> dchain h (last_or prv xs) ys nxt"
  by (induction xs arbitrary: prv) (auto simp: hd_or_append last_or_def)

lemma dchain_frame: "y \<notin> set xs \<Longrightarrow> dchain (h(y := l)) prv xs nxt = dchain h prv xs nxt"
  by (induction xs arbitrary: prv) auto

text \<open>Relinking the last object of a chain, and the first one.\<close>

lemma dchain_set_next:
  "dchain h prv xs nxt \<Longrightarrow> distinct xs \<Longrightarrow> xs \<noteq> [] \<Longrightarrow> dchain (dlist_set_next (last xs) n h) prv xs n"
proof (cases xs rule: rev_cases)
  case (snoc ys y)
  assume "dchain h prv xs nxt" "distinct xs"
  then show ?thesis by (auto simp: snoc dchain_append hd_or_def dlist_set_next_def dchain_frame)
qed simp

lemma dchain_set_prev:
  "dchain h prv xs nxt \<Longrightarrow> distinct xs \<Longrightarrow> xs \<noteq> [] \<Longrightarrow> dchain (dlist_set_prev (hd xs) p h) p xs nxt"
  by (cases xs) (auto simp: dlist_set_prev_def dchain_frame)

text \<open>
  \<open>DoubleLinkedList::unlink\<close> removes an object from any place of a list, its ends included: the
  objects before and after it are linked to each other, all other links stay, and the result is the
  neighbour before it, or else the one after it, or the object itself when it was alone.
\<close>

theorem dlist_unlink_removes:
  assumes "dchain h 0 (as @ x # bs) 0" "distinct (as @ x # bs)" "0 \<notin> set (as @ x # bs)"
  shows "\<exists>h'. dlist_unlink x h = Inr (if as \<noteq> [] then last as else if bs \<noteq> [] then hd bs else x, h') \<and>
    dchain h' 0 (as @ bs) 0"
proof -
  have x: "x \<noteq> 0" "m_prev (h x) = last_or 0 as" "m_next (h x) = hd_or 0 bs"
    and as: "dchain h 0 as x" and bs: "dchain h x bs 0"
    using assms by (auto simp: dchain_append hd_or_def)
  have d: "distinct as" "distinct bs" "set as \<inter> set bs = {}" using assms(2) by auto
  have nz: "as \<noteq> [] \<Longrightarrow> last as \<noteq> 0" "bs \<noteq> [] \<Longrightarrow> hd bs \<noteq> 0"
    using assms(3) by (metis UnCI last_in_set set_append, metis UnCI hd_in_set list.set_intros(2) set_append)
  have last: "last_or 0 as = (if as = [] then 0 else last as)" by (simp add: last_or_def)
  have hd: "hd_or 0 bs = (if bs = [] then 0 else hd bs)" by (simp add: hd_or_def split: list.split)
  show ?thesis
  proof (cases "as = []")
    case True
    then show ?thesis
      using x last hd nz dchain_set_prev [OF bs d(2)] by (auto simp: dlist_unlink_def Let_def dlist_next_def dlist_prev_def)
  next
    case False
    have keep: "last as \<notin> set bs" "bs \<noteq> [] \<Longrightarrow> hd bs \<notin> set as" using d(3) last_in_set [OF False] hd_in_set [of bs] by auto
    show ?thesis
    proof (cases "bs = []")
      case True
      then show ?thesis
        using False x last hd nz dchain_set_next [OF as d(1)]
        by (auto simp: dlist_unlink_def Let_def dlist_next_def dlist_prev_def)
    next
      case bs_ne: False
      define h' where "h' = dlist_set_prev (hd bs) (last as) (dlist_set_next (last as) (hd bs) h)"
      have "dchain h' 0 as (hd bs)"
        using dchain_set_next [OF as d(1) False, of "hd bs"] keep(2) [OF bs_ne] by (simp add: h'_def dlist_set_prev_def dchain_frame)
      moreover have "dchain h' (last as) bs 0"
      proof -
        have "dchain (dlist_set_next (last as) (hd bs) h) x bs 0"
          using bs keep(1) by (simp add: dlist_set_next_def dchain_frame)
        then show ?thesis unfolding h'_def by (rule dchain_set_prev [OF _ d(2) bs_ne])
      qed
      ultimately have "dchain h' 0 (as @ bs) 0" using False bs_ne hd last by (simp add: dchain_append last_or_def)
      then show ?thesis
        using False bs_ne x last hd nz by (simp add: dlist_unlink_def Let_def dlist_next_def dlist_prev_def h'_def)
    qed
  qed
qed

theorem dlist_unlink_removes_witness:
  "let h = (\<lambda>p. \<lparr>m_next = 0, m_prev = 0\<rparr>)(1 := \<lparr>m_next = 2, m_prev = 0\<rparr>, 2 := \<lparr>m_next = 0, m_prev = 1\<rparr>) in
     dchain h 0 ([1] @ 2 # []) 0 \<and> (\<exists>h'. dlist_unlink 2 h = Inr (1, h') \<and> dchain h' 0 [1] 0)"
proof -
  let ?h = "(\<lambda>p. \<lparr>m_next = 0, m_prev = 0\<rparr>)(1 := \<lparr>m_next = 2, m_prev = 0\<rparr>, 2 := \<lparr>m_next = 0, m_prev = 1\<rparr>) :: links"
  have "dchain ?h 0 ([1] @ 2 # []) 0" "distinct ([1 :: u64] @ 2 # [])" "0 \<notin> set ([1 :: u64] @ 2 # [])"
    by (simp_all add: hd_or_def)
  with dlist_unlink_removes [OF this] show ?thesis unfolding Let_def by auto
qed

end
