(* ===== verification/PageList.thy ===== *)
theory PageList
  imports Memory
begin

text \<open>
  The doubly linked list of free pages (memory/page_list.h, memory/page_list.cpp). A node lies at the
  start of its page, \<open>m_prev\<close> at offset 0 and \<open>m_next\<close> at offset 8 in memory; an access through a null
  pointer is undefined. \<open>page_list_at\<close> relates the memory to the list of pages; the interface \<open>lifo\<close> is
  the stack the allocator uses it as.
\<close>

section \<open>Operations\<close>

record page_list =
  m_head :: u64
  m_tail :: u64

definition get_prev :: "mem \<Rightarrow> u64 \<Rightarrow> u64 result" where
  "get_prev m p = (if p = 0 then Inl (Undefined ''null pointer'') else Inr (load64 m p))"

definition get_next :: "mem \<Rightarrow> u64 \<Rightarrow> u64 result" where
  "get_next m p = (if p = 0 then Inl (Undefined ''null pointer'') else Inr (load64 m (p + 8)))"

definition set_prev :: "u64 \<Rightarrow> u64 \<Rightarrow> mem \<Rightarrow> mem result" where
  "set_prev p v m = (if p = 0 then Inl (Undefined ''null pointer'') else Inr (store64 p v m))"

definition set_next :: "u64 \<Rightarrow> u64 \<Rightarrow> mem \<Rightarrow> mem result" where
  "set_next p v m = (if p = 0 then Inl (Undefined ''null pointer'') else Inr (store64 (p + 8) v m))"

lemmas node_access = get_prev_def get_next_def set_prev_def set_next_def

definition insert_first :: "u64 \<Rightarrow> page_list \<times> mem \<Rightarrow> (page_list \<times> mem) result" where
  "insert_first page = (\<lambda>(l, m).
     if m_head l = 0 then
       rbind (set_next page 0 m) (\<lambda>m1. rbind (set_prev page 0 m1) (\<lambda>m2.
         Inr (\<lparr>m_head = page, m_tail = page\<rparr>, m2)))
     else
       rbind (set_prev (m_head l) page m) (\<lambda>m1. rbind (set_next page (m_head l) m1) (\<lambda>m2.
         rbind (set_prev page 0 m2) (\<lambda>m3. Inr (l\<lparr>m_head := page\<rparr>, m3)))))"

definition unlink :: "u64 \<Rightarrow> page_list \<times> mem \<Rightarrow> (page_list \<times> mem) result" where
  "unlink node = (\<lambda>(l, m).
     rbind (if m_head l = node then rbind (get_next m node) (\<lambda>n. Inr (l\<lparr>m_head := n\<rparr>)) else Inr l) (\<lambda>l1.
     rbind (if m_tail l1 = node then rbind (get_prev m node) (\<lambda>p. Inr (l1\<lparr>m_tail := p\<rparr>)) else Inr l1) (\<lambda>l2.
     if node \<noteq> m_head l2 \<and> node \<noteq> m_tail l2 then
       rbind (get_prev m node) (\<lambda>p. rbind (get_next m node) (\<lambda>n.
         rbind (set_next p n m) (\<lambda>m1. rbind (set_prev n p m1) (\<lambda>m2. Inr (l2, m2)))))
     else Inr (l2, m))))"

definition pop :: "page_list \<times> mem \<Rightarrow> (u64 \<times> page_list \<times> mem) result" where
  "pop = (\<lambda>(l, m).
     rbind (YUV_ASSERT (m_head l \<noteq> 0) (''cant pop an empty list dummy'' @ [CHR 0x0A])) (\<lambda>_.
     rbind (get_next m (m_head l)) (\<lambda>n.
     rbind (set_prev n 0 m) (\<lambda>m1. Inr (m_head l, l\<lparr>m_head := n\<rparr>, m1)))))"

definition page_list_empty :: "page_list \<Rightarrow> bool" where
  "page_list_empty l \<longleftrightarrow> m_head l = 0"

section \<open>Abstraction\<close>

definition head_or :: "u64 \<Rightarrow> u64 list \<Rightarrow> u64" where
  "head_or nxt xs = (case xs of [] \<Rightarrow> nxt | x # _ \<Rightarrow> x)"

lemma head_or_simps [simp]: "head_or nxt [] = nxt" "head_or nxt (x # xs) = x"
  by (simp_all add: head_or_def)

lemma head_or_append: "head_or nxt (xs @ ys) = head_or (head_or nxt ys) xs"
  by (cases xs) simp_all

text \<open>The nodes \<open>xs\<close> are linked in this order, between \<open>prev\<close> and \<open>nxt\<close>.\<close>

primrec chain :: "mem \<Rightarrow> u64 \<Rightarrow> u64 list \<Rightarrow> u64 \<Rightarrow> bool" where
  "chain m prev [] nxt \<longleftrightarrow> True"
| "chain m prev (x # xs) nxt \<longleftrightarrow> load64 m x = prev \<and> load64 m (x + 8) = head_or nxt xs \<and> chain m x xs nxt"

lemma chain_append:
  "chain m prev (xs @ ys) nxt \<longleftrightarrow> chain m prev xs (head_or nxt ys) \<and> chain m (last (prev # xs)) ys nxt"
  by (induction xs arbitrary: prev) (auto simp: head_or_append)

definition page_addr :: "u64 \<Rightarrow> bool" where
  "page_addr p \<longleftrightarrow> p \<noteq> 0 \<and> take_bit 12 p = 0"

definition page_list_at :: "page_list \<times> mem \<Rightarrow> u64 list \<Rightarrow> bool" where
  "page_list_at s xs \<longleftrightarrow>
     m_head (fst s) = head_or 0 xs \<and> (xs \<noteq> [] \<longrightarrow> m_tail (fst s) = last xs) \<and>
     distinct xs \<and> (\<forall>x \<in> set xs. page_addr x) \<and> chain (snd s) 0 xs 0"

lemma page_distance:
  assumes "page_addr a" "page_addr b" "a \<noteq> b"
  shows "8 \<le> b - a" "8 \<le> b - a + 8" "8 \<le> b - a - 8"
proof -
  let ?w = "b - a"
  have "p = push_bit 12 (drop_bit 12 p)" if "page_addr p" for p
    using that bits_ident [of 12 p] by (simp add: page_addr_def)
  from this [OF assms(1)] this [OF assms(2)]
  have "?w = push_bit 12 (drop_bit 12 b - drop_bit 12 a)"
    by (metis push_bit_eq_mult left_diff_distrib)
  then have "take_bit 12 ?w = 0" by (simp add: take_bit_push_bit)
  then have "unat ?w mod 4096 = 0"
    using unat_mod [of ?w 4096] by (simp add: take_bit_eq_mod)
  then obtain q where q: "unat ?w = 4096 * q" by (auto simp: mod_eq_0_iff_dvd)
  moreover have "unat ?w \<noteq> 0" using assms(3) by (simp add: unat_eq_0)
  moreover have "unat ?w < 2 ^ 64" by (rule unat_u64_less)
  ultimately have lim: "4096 \<le> unat ?w" "unat ?w + 8 < 2 ^ 64" by auto
  then have "unat (?w + 8) = unat ?w + 8" by (subst unat_plus_if_size) (simp add: word_size)
  moreover have "unat (?w - 8) = unat ?w - 8" using lim by (subst unat_sub) (simp_all add: word_le_nat_alt)
  ultimately show "8 \<le> ?w" "8 \<le> ?w + 8" "8 \<le> ?w - 8" using lim by (simp_all add: word_le_nat_alt)
qed

lemma disjoint_pages:
  assumes "page_addr x" "page_addr y" "x \<noteq> y"
  shows "disjoint64 x y" "disjoint64 (x + 8) y" "disjoint64 x (y + 8)" "disjoint64 (x + 8) (y + 8)"
  using page_distance [OF assms] page_distance [OF assms(2,1)] assms(3)
  by (simp_all add: disjoint64_def algebra_simps)

lemma disjoint_node: "disjoint64 x (x + 8)" "disjoint64 (x + 8) x"
  by (simp_all add: disjoint64_def)

lemma chain_store:
  assumes "page_addr y" "\<forall>x \<in> set xs. page_addr x" "y \<notin> set xs"
  shows "chain (store64 y v m) prev xs nxt = chain m prev xs nxt"
    "chain (store64 (y + 8) v m) prev xs nxt = chain m prev xs nxt"
  using assms by (induction xs arbitrary: prev) (auto simp: disjoint_pages)

lemmas node_simps = node_access rbind_simps disjoint_node disjoint_pages chain_store

section \<open>Behaviour\<close>

lemma insert_first_spec:
  assumes "page_list_at s xs" "page_addr page" "page \<notin> set xs"
  shows "\<exists>s'. insert_first page s = Inr s' \<and> page_list_at s' (page # xs)"
proof (cases xs)
  case Nil
  then show ?thesis
    using assms by (auto simp: insert_first_def page_list_at_def page_addr_def node_simps split: prod.split)
next
  case (Cons x ys)
  obtain l m where s: "s = (l, m)" by (cases s)
  have x: "page_addr x" "x \<noteq> page" "\<forall>y \<in> set ys. page_addr y" "x \<notin> set ys" "page \<notin> set ys" "x \<noteq> 0" "page \<noteq> 0"
    using assms Cons by (auto simp: page_list_at_def page_addr_def)
  define m3 where "m3 = store64 page 0 (store64 (page + 8) x (store64 x page m))"
  have "insert_first page s = Inr (l\<lparr>m_head := page\<rparr>, m3)"
    using assms(1) x Cons by (simp add: insert_first_def page_list_at_def s node_access m3_def)
  moreover have "page_list_at (l\<lparr>m_head := page\<rparr>, m3) (page # xs)"
    using assms x Cons by (auto simp: page_list_at_def s m3_def node_simps)
  ultimately show ?thesis by blast
qed

lemma pop_spec:
  assumes "page_list_at s xs"
  shows "xs = [] \<Longrightarrow> pop s = Inl (Panic (''cant pop an empty list dummy'' @ [CHR 0x0A]))"
    "xs = [x] \<Longrightarrow> pop s = Inl (Undefined ''null pointer'')"
    "xs = x # y # ys \<Longrightarrow> \<exists>s'. pop s = Inr (x, s') \<and> page_list_at s' (y # ys)"
proof -
  obtain l m where s: "s = (l, m)" by (cases s)
  show "xs = [] \<Longrightarrow> pop s = Inl (Panic (''cant pop an empty list dummy'' @ [CHR 0x0A]))"
    "xs = [x] \<Longrightarrow> pop s = Inl (Undefined ''null pointer'')"
    using assms by (auto simp: pop_def s page_list_at_def YUV_ASSERT_def node_access page_addr_def)
  assume xs: "xs = x # y # ys"
  have "pop s = Inr (x, l\<lparr>m_head := y\<rparr>, store64 y 0 m)"
    using assms xs by (auto simp: pop_def s page_list_at_def YUV_ASSERT_def node_access page_addr_def)
  moreover have "page_list_at (l\<lparr>m_head := y\<rparr>, store64 y 0 m) (y # ys)"
    using assms xs by (auto simp: page_list_at_def s node_simps)
  ultimately show "\<exists>s'. pop s = Inr (x, s') \<and> page_list_at s' (y # ys)" by blast
qed

lemma unlink_interior:
  assumes "page_list_at s (as @ a # node # b # bs)"
  shows "\<exists>s'. unlink node s = Inr s' \<and> page_list_at s' (as @ a # b # bs)"
proof -
  obtain l m where s: "s = (l, m)" by (cases s)
  let ?xs = "as @ a # node # b # bs"
  have d: "distinct ?xs" and p: "\<forall>x \<in> set ?xs. page_addr x" and c: "chain m 0 ?xs 0"
    and ends: "m_head l = head_or 0 ?xs" "m_tail l = last ?xs"
    using assms by (simp_all add: page_list_at_def s)
  have inner: "m_head l \<noteq> node" "m_tail l \<noteq> node" "node \<noteq> 0" "a \<noteq> 0" "b \<noteq> 0"
    using d p ends by (cases as; auto simp: page_addr_def)+
  have links: "load64 m node = a" "load64 m (node + 8) = b" using c by (simp_all add: chain_append)
  define m2 where "m2 = store64 b a (store64 (a + 8) b m)"
  have "unlink node s = Inr (l, m2)"
    using inner links by (simp add: unlink_def s node_access m2_def)
  moreover have "page_list_at (l, m2) (as @ a # b # bs)"
    using d p c ends by (auto simp: page_list_at_def m2_def chain_append node_simps head_or_append)
  ultimately show ?thesis by blast
qed

lemma unlink_end:
  assumes "page_list_at s xs" "xs \<noteq> []" "node = hd xs \<or> node = last xs"
  shows "unlink node s = Inl (Undefined ''null pointer'')"
proof -
  obtain l m where s: "s = (l, m)" by (cases s)
  obtain x ys where xs: "xs = x # ys" using assms(2) by (cases xs) auto
  have head: "m_head l = x" "m_tail l = last xs" "load64 m x = 0" "x \<noteq> 0" "load64 m (x + 8) = head_or 0 ys"
    using assms(1) by (auto simp: page_list_at_def s xs page_addr_def)
  have new_head: "head_or 0 ys \<noteq> x" using assms(1) head(4) by (cases ys) (auto simp: page_list_at_def xs)
  show ?thesis
  proof (cases "node = x")
    case True
    then show ?thesis using head new_head by (cases "last xs = x") (simp_all add: unlink_def s node_access)
  next
    case False
    then have node: "node = last ys" "ys \<noteq> []" using assms(3) xs by (auto split: if_splits)
    define zs where "zs = butlast ys"
    have zs: "ys = zs @ [node]" using node by (simp add: zs_def)
    have "load64 m (node + 8) = 0 \<and> load64 m node = last (x # zs)"
      using assms(1) unfolding page_list_at_def s xs zs by (simp add: chain_append)
    moreover have "node \<noteq> 0 \<and> node \<noteq> last (x # zs) \<and> last (x # zs) \<noteq> 0"
    proof -
      have "last (x # zs) \<in> set (x # zs)" by (rule last_in_set) simp
      moreover have "node \<notin> set (x # zs)" "\<forall>y \<in> insert node (set (x # zs)). y \<noteq> 0"
        using assms(1) unfolding page_list_at_def xs zs by (auto simp: page_addr_def)
      ultimately show ?thesis by (metis insertCI)
    qed
    moreover have "m_tail l = node" using head(2) unfolding xs zs by simp
    ultimately show ?thesis using False head(1,4) by (simp add: unlink_def s node_access del: last.simps)
  qed
qed

section \<open>A stack of pages\<close>

text \<open>
  The contract of a stack that must not be emptied: pushing puts a fresh element on top, popping
  takes the top as long as another one is left.
\<close>

locale lifo =
  fixes holds :: "'s \<Rightarrow> 'a list \<Rightarrow> bool"
    and fresh :: "'a \<Rightarrow> bool"
    and push :: "'a \<Rightarrow> 's \<Rightarrow> 's result"
    and pop_top :: "'s \<Rightarrow> ('a \<times> 's) result"
  assumes push_law: "holds s xs \<Longrightarrow> fresh x \<Longrightarrow> x \<notin> set xs \<Longrightarrow> \<exists>s'. push x s = Inr s' \<and> holds s' (x # xs)"
    and pop_law: "holds s (x # y # ys) \<Longrightarrow> \<exists>s'. pop_top s = Inr (x, s') \<and> holds s' (y # ys)"
begin

primrec push_all :: "'a list \<Rightarrow> 's \<Rightarrow> 's result" where
  "push_all [] s = Inr s"
| "push_all (x # xs) s = rbind (push x s) (push_all xs)"

primrec pop_many :: "nat \<Rightarrow> 's \<Rightarrow> ('a list \<times> 's) result" where
  "pop_many 0 s = Inr ([], s)"
| "pop_many (Suc n) s = rbind (pop_top s) (\<lambda>(x, s1). rbind (pop_many n s1) (\<lambda>(xs, s2). Inr (x # xs, s2)))"

lemma push_all_holds:
  "holds s ys \<Longrightarrow> \<forall>x \<in> set xs. fresh x \<Longrightarrow> distinct xs \<Longrightarrow> set xs \<inter> set ys = {} \<Longrightarrow>
     \<exists>s'. push_all xs s = Inr s' \<and> holds s' (rev xs @ ys)"
proof (induction xs arbitrary: s ys)
  case (Cons x xs)
  then obtain s1 where "push x s = Inr s1" "holds s1 (x # ys)" using push_law [of s ys x] by auto
  then show ?case using Cons.IH [of s1 "x # ys"] Cons.prems by auto
qed simp

lemma pop_many_holds:
  "holds s (xs @ ys) \<Longrightarrow> ys \<noteq> [] \<Longrightarrow> \<exists>s'. pop_many (length xs) s = Inr (xs, s') \<and> holds s' ys"
proof (induction xs arbitrary: s)
  case (Cons x xs)
  obtain z zs where "xs @ ys = z # zs" using Cons.prems(2) by (cases "xs @ ys") auto
  then obtain s1 where "pop_top s = Inr (x, s1)" "holds s1 (xs @ ys)"
    using pop_law [of s x z zs] Cons.prems(1) by auto
  then show ?case using Cons.IH [of s1] Cons.prems(2) by auto
qed simp

lemma push_pop_reverses:
  assumes "holds s ys" "ys \<noteq> []" "\<forall>x \<in> set xs. fresh x" "distinct xs" "set xs \<inter> set ys = {}"
  shows "\<exists>s' s''. push_all xs s = Inr s' \<and> pop_many (length xs) s' = Inr (rev xs, s'') \<and> holds s'' ys"
proof -
  obtain s' where s': "push_all xs s = Inr s'" "holds s' (rev xs @ ys)"
    using push_all_holds [OF assms(1,3-5)] by blast
  with pop_many_holds [OF s'(2) assms(2)] show ?thesis by auto
qed

end

interpretation pages: lifo page_list_at page_addr insert_first pop
  by unfold_locales (blast intro: insert_first_spec pop_spec(3))+

section \<open>Properties\<close>

lemma one_page: "\<exists>s. page_list_at s [0x1000]"
proof -
  have "page_list_at (\<lparr>m_head = 0, m_tail = 0\<rparr>, \<lambda>_. 0) []" "page_addr 0x1000"
    by (simp_all add: page_list_at_def page_addr_def)
  from insert_first_spec [OF this] show ?thesis by auto
qed

text \<open>
  C28: Pages put on a free list that is not empty come back in reverse order: inserting distinct page
  addresses that are not on the list and then popping as many returns them last in, first out, and
  leaves the list as it was, with all links in memory intact.
\<close>

theorem page_list_push_pop:
  assumes "page_list_at s ys" "ys \<noteq> []" "\<forall>x \<in> set xs. page_addr x" "distinct xs" "set xs \<inter> set ys = {}"
  shows "\<exists>s' s''. pages.push_all xs s = Inr s' \<and> page_list_at s' (rev xs @ ys) \<and>
    pages.pop_many (length xs) s' = Inr (rev xs, s'') \<and> page_list_at s'' ys"
  using pages.push_pop_reverses [OF assms] pages.push_all_holds [OF assms(1,3-5)] by auto

theorem page_list_push_pop_witness:
  "\<exists>s. page_list_at s [0x1000] \<and>
    (\<exists>s' s''. pages.push_all [0x2000, 0x3000] s = Inr s' \<and> pages.pop_many 2 s' = Inr ([0x3000, 0x2000], s'') \<and>
      page_list_at s'' [0x1000])"
proof -
  obtain s where s: "page_list_at s [0x1000]" using one_page by blast
  have "\<forall>x \<in> set [0x2000, 0x3000]. page_addr x" "distinct [0x2000, 0x3000 :: u64]"
    "set [0x2000, 0x3000 :: u64] \<inter> set [0x1000] = {}" by (simp_all add: page_addr_def)
  from page_list_push_pop [OF s _ this] obtain s' s'' where
    "pages.push_all [0x2000, 0x3000] s = Inr s'" "pages.pop_many (length [0x2000, 0x3000 :: u64]) s' = Inr (rev [0x2000, 0x3000], s'')"
    "page_list_at s'' [0x1000]" by blast
  moreover have "length [0x2000, 0x3000 :: u64] = 2" "rev [0x2000, 0x3000 :: u64] = [0x3000, 0x2000]" by simp_all
  ultimately show ?thesis using s by metis
qed

text \<open>
  \<open>pop\<close> on the last page is undefined. An empty list panics and a list with two pages or
  more gives its first page; but on a list with exactly one page \<open>pop\<close> writes through the null
  \<open>m_next\<close> of that page.
\<close>

theorem page_list_pop_cases:
  assumes "page_list_at s xs"
  shows "case xs of
      [] \<Rightarrow> pop s = Inl (Panic (''cant pop an empty list dummy'' @ [CHR 0x0A]))
    | [x] \<Rightarrow> pop s = Inl (Undefined ''null pointer'')
    | x # y # ys \<Rightarrow> \<exists>s'. pop s = Inr (x, s') \<and> page_list_at s' (y # ys)"
  using pop_spec [OF assms] by (auto split: list.split)

theorem page_list_pop_cases_witness:
  "\<exists>s. page_list_at s [0x1000] \<and> pop s = Inl (Undefined ''null pointer'')"
proof -
  obtain s where s: "page_list_at s [0x1000]" using one_page by blast
  from page_list_pop_cases [OF s] have "pop s = Inl (Undefined ''null pointer'')" by simp
  with s show ?thesis by blast
qed

text \<open>
  C29: \<open>unlink\<close> removes a page from inside the list and keeps all other links; unlinking the first
  or the last page is undefined, since after the head or tail has moved the code goes on to write
  through the page's null neighbour.
\<close>

theorem page_list_unlink_cases:
  assumes "page_list_at s (as @ node # bs)"
  shows "if as \<noteq> [] \<and> bs \<noteq> [] then \<exists>s'. unlink node s = Inr s' \<and> page_list_at s' (as @ bs)
    else unlink node s = Inl (Undefined ''null pointer'')"
proof (cases "as \<noteq> [] \<and> bs \<noteq> []")
  case True
  then obtain as' a b bs' where "as = as' @ [a]" "bs = b # bs'" by (metis rev_exhaust neq_Nil_conv)
  then show ?thesis using unlink_interior [of s as' a node b bs'] assms by simp
next
  case False
  then have "node = hd (as @ node # bs) \<or> node = last (as @ node # bs)" by auto
  then show ?thesis using unlink_end [OF assms, of node] False by auto
qed

theorem page_list_unlink_cases_witness:
  "\<exists>s. page_list_at s [0x2000, 0x1000] \<and> unlink 0x1000 s = Inl (Undefined ''null pointer'')"
proof -
  obtain s where "page_list_at s [0x1000]" using one_page by blast
  then obtain s' where s: "page_list_at s' ([0x2000] @ [0x1000])"
    using insert_first_spec [of s "[0x1000]" "0x2000"] by (auto simp: page_addr_def)
  then have "unlink 0x1000 s' = Inl (Undefined ''null pointer'')"
    using page_list_unlink_cases [of s' "[0x2000]" "0x1000" "[]"] by simp
  with s show ?thesis by (metis append_Cons append_Nil)
qed

end
