(* ===== verification/Buddy.thy ===== *)
theory Buddy
  imports PageAlloc PageList
begin

text \<open>
  \<open>BuddyAllocator<N>\<close> (memory/paging.h), on the bitsets of \<open>Bitset\<close> and the page lists of \<open>PageList\<close>. The
  kernel does not instantiate it; the model follows the template for any \<open>N\<close>, the length of the
  list of bitsets.
\<close>

section \<open>Operations\<close>

record buddy =
  m_sets :: "dynamic_bitset list"
  b_page_count :: u64
  m_page_lists :: "page_list list"
  m_mem_start :: u64

text \<open>The loop of the constructor over the orders.\<close>

fun buddy_sets :: "nat list \<Rightarrow> u64 \<Rightarrow> dumb_allocator \<times> mem \<Rightarrow> (dynamic_bitset list \<times> dumb_allocator \<times> mem) result" where
  "buddy_sets [] page_count0 (a, m) = Inr ([], a, m)"
| "buddy_sets (i # is) page_count0 (a, m) =
     (let (s, a1) = dynamic_bitset_new DumbAllocator_alloc (drop_bit i page_count0) a
      in rbind (bitset_clear s m) (\<lambda>m1. rbind (buddy_sets is page_count0 (a1, m1)) (\<lambda>(ss, am). Inr (s # ss, am))))"

definition BuddyAllocator_new ::
  "nat \<Rightarrow> u64 \<Rightarrow> u64 \<Rightarrow> dumb_allocator \<times> mem \<Rightarrow> (buddy \<times> dumb_allocator \<times> mem) result" where
  "BuddyAllocator_new N page_count0 kernel_base am =
     rbind (buddy_sets [0..<N] page_count0 am) (\<lambda>(ss, a, m).
       let mem_start = PAGE_ROUND_UP (DumbAllocator_mem_end a)
       in Inr (\<lparr>m_sets = ss, b_page_count = page_count0 - drop_bit 12 mem_start,
                m_page_lists = replicate N \<lparr>m_head = 0, m_tail = 0\<rparr>, m_mem_start = mem_start\<rparr>, a, m))"

text \<open>The loop of \<open>alloc\<close> that marks a block in its order and the blocks around it in the higher ones.\<close>

primrec mark_orders :: "dynamic_bitset list \<Rightarrow> u64 \<Rightarrow> mem \<Rightarrow> mem result" where
  "mark_orders [] indx m = Inr m"
| "mark_orders (s # ss) indx m = rbind (reference_set (subscript s indx) m) (mark_orders ss (indx div 2))"

definition buddy_alloc :: "nat \<Rightarrow> buddy \<times> mem \<Rightarrow> (u64 \<times> buddy \<times> mem) result" where
  "buddy_alloc order = (\<lambda>(b, m).
     rbind (YUV_ASSERT (order < length (m_sets b)) (''requested order %u too large, max order %u'' @ [CHR 0x0A])) (\<lambda>_.
     let lst = m_page_lists b ! order; s = m_sets b ! order
     in if \<not> page_list_empty lst then
          rbind (pop (lst, m)) (\<lambda>(page, lst1, m1).
          rbind (reference_set (subscript s (drop_bit (order + 12) page)) m1) (\<lambda>m2.
          Inr (page, b\<lparr>m_page_lists := (m_page_lists b)[order := lst1]\<rparr>, m2)))
        else
          rbind (has_zero m s) (\<lambda>z.
          if z then
            rbind (first_clear m s) (\<lambda>indx.
            rbind (mark_orders (drop order (m_sets b)) indx m) (\<lambda>m1.
            Inr (m_mem_start b + push_bit (order + 12) indx, b, m1)))
          else Inr (0, b, m))))"

section \<open>Bitsets that do not share memory\<close>

definition apart :: "dynamic_bitset \<Rightarrow> dynamic_bitset \<Rightarrow> bool" where
  "apart s t \<longleftrightarrow> (\<forall>i < words_below (m_bitcount s). \<forall>j < words_below (m_bitcount t).
     disjoint64 (m_set s + 8 * of_nat i) (m_set t + 8 * of_nat j))"

lemma index_word: "i < unat (m_bitcount s) \<Longrightarrow> i div 64 < words_below (m_bitcount s)"
  by (simp add: words_below_def div_less_iff_less_mult)

lemma reference_set_apart:
  assumes "reference_set (subscript s pos) m = Inr m'" "unat pos < unat (m_bitcount s)" "apart s t" "i < unat (m_bitcount t)"
  shows "bits m' t i = bits m t i"
proof -
  have "m' = store64 (get_word s pos) (load64 m (get_word s pos) OR push_bit (unat pos mod 64) 1) m"
    using assms(1) by (simp add: reference_set_def subscript_def bitmask_subscript)
  moreover have "disjoint64 (get_word s pos) (m_set t + 8 * of_nat (i div 64))"
    using assms(3) index_word [OF assms(2)] index_word [OF assms(4)] by (simp add: apart_def get_word_eq)
  ultimately show ?thesis by (simp add: bits_def word_at_def)
qed

lemma reference_set_marks:
  assumes "unat (m_bitcount s) \<le> 2 ^ 63"
  obtains m' where "reference_set (subscript s pos) m = Inr m'"
    "\<And>i. i < unat (m_bitcount s) \<Longrightarrow> bits m' s i \<longleftrightarrow> i = unat pos \<or> bits m s i"
proof -
  obtain m' where "reference_set (subscript s pos) m = Inr m'" "\<forall>i < 2 ^ 64. bits m' s i = (i = unat pos \<or> bits m s i)"
    using reference_set_spec [of s pos m] by blast
  moreover have "i < 2 ^ 64" if "i < unat (m_bitcount s)" for i
    using that unat_u64_less [of "m_bitcount s"] by linarith
  ultimately show thesis using that by blast
qed

text \<open>In range: at each order the index, halved once per order, is within the bitset.\<close>

definition in_range :: "dynamic_bitset list \<Rightarrow> nat \<Rightarrow> bool" where
  "in_range ss indx \<longleftrightarrow> (\<forall>j < length ss. indx div 2 ^ j < unat (m_bitcount (ss ! j)))"

lemma mark_orders_spec:
  assumes "in_range ss (unat indx)" "\<And>i j. i < length ss \<Longrightarrow> j < length ss \<Longrightarrow> i \<noteq> j \<Longrightarrow> apart (ss ! i) (ss ! j)"
    "\<And>s. s \<in> set ss \<Longrightarrow> unat (m_bitcount s) \<le> 2 ^ 63"
  shows "\<exists>m'. mark_orders ss indx m = Inr m' \<and>
    (\<forall>j < length ss. \<forall>i < unat (m_bitcount (ss ! j)). bits m' (ss ! j) i \<longleftrightarrow> bits m (ss ! j) i \<or> i = unat indx div 2 ^ j) \<and>
    (\<forall>t. (\<forall>j < length ss. apart (ss ! j) t) \<longrightarrow> (\<forall>i < unat (m_bitcount t). bits m' t i \<longleftrightarrow> bits m t i))"
  using assms
proof (induction ss arbitrary: indx m)
  case (Cons s ss)
  obtain m1 where m1: "reference_set (subscript s indx) m = Inr m1"
    "\<And>i. i < unat (m_bitcount s) \<Longrightarrow> bits m1 s i \<longleftrightarrow> i = unat indx \<or> bits m s i"
    using reference_set_marks [of s indx m] Cons.prems(3) [of s] by auto
  have pos: "unat indx < unat (m_bitcount s)" using Cons.prems(1) by (auto simp: in_range_def)
  have half: "unat (indx div 2) = unat indx div 2" by (simp add: unat_div)
  have range: "in_range ss (unat (indx div 2))"
    using Cons.prems(1) unfolding in_range_def half by (auto simp: div_mult2_eq dest: spec [of _ "Suc _"])
  have ap: "apart (ss ! i) (ss ! j)" if "i < length ss" "j < length ss" "i \<noteq> j" for i j
    using Cons.prems(2) [of "Suc i" "Suc j"] that by simp
  have from_s: "apart s (ss ! j)" if "j < length ss" for j using Cons.prems(2) [of 0 "Suc j"] that by simp
  have to_s: "apart (ss ! j) s" if "j < length ss" for j using Cons.prems(2) [of "Suc j" 0] that by simp
  obtain m2 where m2: "mark_orders ss (indx div 2) m1 = Inr m2"
    "\<And>j i. j < length ss \<Longrightarrow> i < unat (m_bitcount (ss ! j)) \<Longrightarrow>
      bits m2 (ss ! j) i \<longleftrightarrow> bits m1 (ss ! j) i \<or> i = unat (indx div 2) div 2 ^ j"
    "\<And>t i. (\<And>j. j < length ss \<Longrightarrow> apart (ss ! j) t) \<Longrightarrow> i < unat (m_bitcount t) \<Longrightarrow> bits m2 t i \<longleftrightarrow> bits m1 t i"
    using Cons.IH [OF range ap Cons.prems(3), of m1] by auto
  have run: "mark_orders (s # ss) indx m = Inr m2" by (simp add: m1 m2)
  have "bits m2 ((s # ss) ! j) i \<longleftrightarrow> bits m ((s # ss) ! j) i \<or> i = unat indx div 2 ^ j"
    if "j < length (s # ss)" "i < unat (m_bitcount ((s # ss) ! j))" for j i
  proof (cases j)
    case 0
    then show ?thesis using that m2(3) [OF to_s, of i] m1(2) [of i] by auto
  next
    case (Suc j')
    then show ?thesis
      using that m2(2) [of j' i] reference_set_apart [OF m1(1) pos from_s [of j'], of i] by (simp add: half div_mult2_eq)
  qed
  moreover have "bits m2 t i \<longleftrightarrow> bits m t i" if "\<forall>j < length (s # ss). apart ((s # ss) ! j) t" "i < unat (m_bitcount t)" for t i
  proof -
    have "apart s t" "\<And>j. j < length ss \<Longrightarrow> apart (ss ! j) t" using that(1) by auto
    then show ?thesis using m2(3) [of t i] reference_set_apart [OF m1(1) pos _ that(2)] that(2) by simp
  qed
  ultimately show ?case using run by blast
qed simp

section \<open>Allocation\<close>

text \<open>
  A well-formed allocator: one page list per bitset, each bitset half the size of the one below it and a
  multiple of a word, all in separate memory.
\<close>

definition buddy_ok :: "buddy \<Rightarrow> bool" where
  "buddy_ok b \<longleftrightarrow> length (m_page_lists b) = length (m_sets b) \<and>
     (\<forall>j < length (m_sets b). let n = unat (m_bitcount (m_sets b ! j)) in
        64 dvd n \<and> 0 < n \<and> n \<le> 2 ^ 63 \<and> n * 2 ^ j = unat (m_bitcount (m_sets b ! 0))) \<and>
     (\<forall>i < length (m_sets b). \<forall>j < length (m_sets b). i \<noteq> j \<longrightarrow> apart (m_sets b ! i) (m_sets b ! j))"

lemma buddy_okD:
  assumes "buddy_ok b" "j < length (m_sets b)"
  shows "64 dvd unat (m_bitcount (m_sets b ! j))" "0 < unat (m_bitcount (m_sets b ! j))"
    "unat (m_bitcount (m_sets b ! j)) \<le> 2 ^ 63" "room (m_bitcount (m_sets b ! j))"
    "64 * words_below (m_bitcount (m_sets b ! j)) = unat (m_bitcount (m_sets b ! j))"
  using assms by (auto simp: buddy_ok_def Let_def room_def words_below_def elim!: dvdE)

lemma buddy_ok_apart:
  assumes "buddy_ok b" "i < length (m_sets b)" "j < length (m_sets b)" "i \<noteq> j"
  shows "apart (m_sets b ! i) (m_sets b ! j)"
  using assms by (simp add: buddy_ok_def)

lemma buddy_ok_halves:
  assumes "buddy_ok b" "order + k < length (m_sets b)"
  shows "unat (m_bitcount (m_sets b ! order)) = unat (m_bitcount (m_sets b ! (order + k))) * 2 ^ k"
proof -
  have "n j * 2 ^ j = n 0" if "j < length (m_sets b)" and "n = (\<lambda>j. unat (m_bitcount (m_sets b ! j)))" for j n
    using assms(1) that by (simp add: buddy_ok_def Let_def)
  from this [of order] this [of "order + k"] have "unat (m_bitcount (m_sets b ! order)) * 2 ^ order =
      unat (m_bitcount (m_sets b ! (order + k))) * 2 ^ k * 2 ^ order"
    using assms(2) by (simp add: power_add mult_ac)
  then show ?thesis by simp
qed

lemma buddy_in_range:
  assumes "buddy_ok b" "order < length (m_sets b)" "i < unat (m_bitcount (m_sets b ! order))"
  shows "in_range (drop order (m_sets b)) i"
  unfolding in_range_def
proof (intro allI impI)
  fix j
  assume "j < length (drop order (m_sets b))"
  then have "order + j < length (m_sets b)" by simp
  then show "i div 2 ^ j < unat (m_bitcount (drop order (m_sets b) ! j))"
    using assms(3) buddy_ok_halves [OF assms(1), of order j] by (simp add: div_less_iff_less_mult)
qed

lemma buddy_mark:
  assumes "buddy_ok b" "order < length (m_sets b)" "unat p < unat (m_bitcount (m_sets b ! order))"
  obtains m' where "mark_orders (drop order (m_sets b)) p m = Inr m'"
    "\<And>j i. j < length (m_sets b) \<Longrightarrow> i < unat (m_bitcount (m_sets b ! j)) \<Longrightarrow>
      bits m' (m_sets b ! j) i \<longleftrightarrow> bits m (m_sets b ! j) i \<or> order \<le> j \<and> i = unat p div 2 ^ (j - order)"
proof -
  let ?ss = "drop order (m_sets b)"
  have "\<exists>m'. mark_orders ?ss p m = Inr m' \<and>
    (\<forall>j < length ?ss. \<forall>i < unat (m_bitcount (?ss ! j)). bits m' (?ss ! j) i \<longleftrightarrow> bits m (?ss ! j) i \<or> i = unat p div 2 ^ j) \<and>
    (\<forall>t. (\<forall>j < length ?ss. apart (?ss ! j) t) \<longrightarrow> (\<forall>i < unat (m_bitcount t). bits m' t i \<longleftrightarrow> bits m t i))"
  proof (rule mark_orders_spec)
    show "in_range ?ss (unat p)" by (rule buddy_in_range [OF assms])
    show "apart (?ss ! i) (?ss ! j)" if "i < length ?ss" "j < length ?ss" "i \<noteq> j" for i j
      using that buddy_ok_apart [OF assms(1), of "order + i" "order + j"] by simp
    show "unat (m_bitcount s) \<le> 2 ^ 63" if "s \<in> set ?ss" for s
      using that buddy_okD(3) [OF assms(1)] by (auto simp: in_set_conv_nth)
  qed
  then obtain m' where m': "mark_orders ?ss p m = Inr m'"
    "\<And>j i. j < length ?ss \<Longrightarrow> i < unat (m_bitcount (?ss ! j)) \<Longrightarrow>
      bits m' (?ss ! j) i \<longleftrightarrow> bits m (?ss ! j) i \<or> i = unat p div 2 ^ j"
    "\<And>t i. (\<And>j. j < length ?ss \<Longrightarrow> apart (?ss ! j) t) \<Longrightarrow> i < unat (m_bitcount t) \<Longrightarrow> bits m' t i \<longleftrightarrow> bits m t i"
    by blast
  show thesis
  proof (rule that [OF m'(1)])
    fix j i
    assume j: "j < length (m_sets b)" and i: "i < unat (m_bitcount (m_sets b ! j))"
    show "bits m' (m_sets b ! j) i \<longleftrightarrow> bits m (m_sets b ! j) i \<or> order \<le> j \<and> i = unat p div 2 ^ (j - order)"
    proof (cases "order \<le> j")
      case True
      then show ?thesis using j i m'(2) [of "j - order" i] by simp
    next
      case False
      then have "apart (?ss ! k) (m_sets b ! j)" if "k < length ?ss" for k
        using that j buddy_ok_apart [OF assms(1), of "order + k" j] by simp
      then show ?thesis using False i m'(3) [of "m_sets b ! j" i] by simp
    qed
  qed
qed

lemma buddy_alloc_empty:
  assumes "buddy_ok b" "order < length (m_sets b)" "m_head (m_page_lists b ! order) = 0"
  shows "if \<exists>i < unat (m_bitcount (m_sets b ! order)). \<not> bits m (m_sets b ! order) i
    then \<exists>p m'. buddy_alloc order (b, m) = Inr (m_mem_start b + push_bit (order + 12) p, b, m')
      \<and> unat p < unat (m_bitcount (m_sets b ! order))
      \<and> \<not> bits m (m_sets b ! order) (unat p) \<and> (\<forall>i < unat p. bits m (m_sets b ! order) i)
      \<and> (\<forall>j < length (m_sets b). \<forall>i < unat (m_bitcount (m_sets b ! j)).
          bits m' (m_sets b ! j) i \<longleftrightarrow> bits m (m_sets b ! j) i \<or> order \<le> j \<and> i = unat p div 2 ^ (j - order))
    else buddy_alloc order (b, m) = Inr (0, b, m)"
proof -
  let ?s = "m_sets b ! order"
  note ok = buddy_okD [OF assms(1,2)]
  have zero: "has_zero m ?s = Inr (\<exists>i < unat (m_bitcount ?s). \<not> bits m ?s i)" by (rule has_zero_spec [OF ok(1,2)])
  show ?thesis
  proof (cases "\<exists>i < unat (m_bitcount ?s). \<not> bits m ?s i")
    case True
    then obtain p where p: "first_clear m ?s = Inr p" "unat p < unat (m_bitcount ?s)" "\<not> bits m ?s (unat p)"
      "\<forall>i < unat p. bits m ?s i"
      using first_clear_spec [OF ok(4), of m] by (auto simp: ok(5))
    obtain m' where m': "mark_orders (drop order (m_sets b)) p m = Inr m'"
      "\<And>j i. j < length (m_sets b) \<Longrightarrow> i < unat (m_bitcount (m_sets b ! j)) \<Longrightarrow>
        bits m' (m_sets b ! j) i \<longleftrightarrow> bits m (m_sets b ! j) i \<or> order \<le> j \<and> i = unat p div 2 ^ (j - order)"
      using buddy_mark [OF assms(1,2) p(2)] by metis
    have "has_zero m ?s = Inr True" using zero True by simp
    then have "buddy_alloc order (b, m) = Inr (m_mem_start b + push_bit (order + 12) p, b, m')"
      using assms p(1) m'(1) by (simp add: buddy_alloc_def page_list_empty_def YUV_ASSERT_def)
    then show ?thesis using True p(2-4) m'(2) by auto
  next
    case False
    then have "has_zero m ?s = Inr False" using zero by simp
    then have "buddy_alloc order (b, m) = Inr (0, b, m)"
      using assms by (simp add: buddy_alloc_def page_list_empty_def YUV_ASSERT_def)
    then show ?thesis unfolding if_not_P [OF False] .
  qed
qed

lemma buddy_alloc_fresh:
  assumes "buddy_ok b" "order < length (m_sets b)" "m_head (m_page_lists b ! order) = 0"
    and "\<not> bits m (m_sets b ! order) 0"
  obtains m' where "buddy_alloc order (b, m) = Inr (m_mem_start b, b, m')"
    "\<And>j i. j < order \<Longrightarrow> i < unat (m_bitcount (m_sets b ! j)) \<Longrightarrow> bits m' (m_sets b ! j) i \<longleftrightarrow> bits m (m_sets b ! j) i"
proof -
  let ?s = "m_sets b ! order"
  have "0 < unat (m_bitcount ?s)" by (rule buddy_okD(2) [OF assms(1,2)])
  then have free: "\<exists>i < unat (m_bitcount ?s). \<not> bits m ?s i" using assms(4) by blast
  obtain p m' where p: "buddy_alloc order (b, m) = Inr (m_mem_start b + push_bit (order + 12) p, b, m')"
    "\<forall>i < unat p. bits m ?s i"
    "\<And>j i. j < length (m_sets b) \<Longrightarrow> i < unat (m_bitcount (m_sets b ! j)) \<Longrightarrow>
      bits m' (m_sets b ! j) i \<longleftrightarrow> bits m (m_sets b ! j) i \<or> order \<le> j \<and> i = unat p div 2 ^ (j - order)"
    using buddy_alloc_empty [OF assms(1-3), of m] free by auto
  have "p = 0" using p(2) assms(4) by (metis gr0I unat_0_iff)
  then show thesis using that [of m'] p(1,3) assms(2) by simp
qed

section \<open>Construction\<close>

lemma store64_below:
  assumes "unat b < unat a" "unat a + 8 \<le> 2 ^ 64"
  shows "store64 a v m b = m b"
proof (rule store64_frame)
  have "unat (b - a) = 2 ^ 64 + unat b - unat a" using assms unat_sub_if' [of b a] by simp
  then show "8 \<le> b - a" using assms by (simp add: word_le_nat_alt)
qed

lemma store64_above:
  assumes "unat a + 8 \<le> unat b"
  shows "store64 a v m b = m b"
proof (rule store64_frame)
  have "unat (b - a) = unat b - unat a" using assms by (intro unat_sub) (simp add: word_le_nat_alt)
  then show "8 \<le> b - a" using assms by (simp add: word_le_nat_alt)
qed

lemma cell_no_wrap:
  fixes a :: u64
  assumes "unat a + 8 * j < 2 ^ 64"
  shows "unat (a + 8 * of_nat j) = unat a + 8 * j"
proof -
  have "unat (of_nat (unat a + 8 * j) :: u64) = unat a + 8 * j" using assms by (intro unat_of_nat_u64) simp
  then show ?thesis by (simp only: of_nat_add of_nat_mult word_of_unat of_nat_numeral)
qed

lemma fill_outside:
  assumes "unat b < unat a \<or> unat a + 8 * n \<le> unat b" "unat a + 8 * n \<le> 2 ^ 64"
  shows "fold (\<lambda>j. store64 (a + 8 * of_nat j) v) [0..<n] m b = m b"
  using assms
proof (induction n)
  case (Suc n)
  then have u: "unat (a + 8 * of_nat n) = unat a + 8 * n" by (intro cell_no_wrap) simp
  have "unat b < unat (a + 8 * of_nat n) \<or> unat (a + 8 * of_nat n) + 8 \<le> unat b"
    "unat (a + 8 * of_nat n) + 8 \<le> 2 ^ 64"
    using Suc.prems unfolding u by auto
  then show ?case using Suc store64_below [of b "a + 8 * of_nat n"] store64_above [of "a + 8 * of_nat n" b] by auto
qed simp

text \<open>One round of the loop: a cleared set of a whole number of words at the old mark of the allocator.\<close>

lemma buddy_set_new:
  assumes "64 dvd unat n" "unat (m_mem_end a) + unat n div 8 + 8 \<le> 2 ^ 64" "unat n \<le> 2 ^ 63"
    "dynamic_bitset_new DumbAllocator_alloc n a = (s, a1)"
  shows "s = \<lparr>m_set = m_mem_end a, m_bitcount = n\<rparr>" "unat (m_mem_end a1) = unat (m_mem_end a) + unat n div 8"
    "\<exists>m1. bitset_clear s m = Inr m1 \<and> (\<forall>i < unat n. \<not> bits m1 s i) \<and>
      (\<forall>b. unat b < unat (m_mem_end a) \<or> unat (m_mem_end a) + unat n div 8 + 8 \<le> unat b \<longrightarrow> m1 b = m b)"
proof -
  obtain q where q: "unat n = 64 * q" using assms(1) by (auto elim: dvdE)
  show s: "s = \<lparr>m_set = m_mem_end a, m_bitcount = n\<rparr>"
    using assms(4) by (auto simp: dynamic_bitset_new_def DumbAllocator_alloc_def Let_def)
  have "unat (ROUND_UP (drop_bit 3 n) 8) = 8 * q" unfolding unat_alloc_size q by simp
  moreover have "m_mem_end a1 = m_mem_end a + ROUND_UP (drop_bit 3 n) 8"
    using assms(4) by (auto simp: dynamic_bitset_new_def DumbAllocator_alloc_def Let_def)
  ultimately show "unat (m_mem_end a1) = unat (m_mem_end a) + unat n div 8"
    using assms(2) q by (simp add: unat_add_no_wrap)
  have small: "unat (m_bitcount s) \<le> 2 ^ 64 - 127" using assms(3) by (simp add: s)
  note w = words_below_fill [OF small]
  have words: "words_below (m_bitcount s + 63) = q + 1" using w(2) q by (simp add: s)
  define m1 where "m1 = fold (\<lambda>j. store64 (m_set s + 8 * of_nat j) 0) [0..<q + 1] m"
  have run: "bitset_clear s m = Inr m1"
    using fill_words_from [OF w(1), of 0 0 s m] by (simp add: bitset_clear_def words m1_def of_loop_def)
  have "q + 1 \<le> 2 ^ 58" using assms(3) q by simp
  then have "\<not> bits m1 s i" if "i < unat n" for i
    using that q unat_u64_less [of n] bits_fill [of "q + 1" i s 0 m] by (simp add: m1_def)
  moreover have "m1 b = m b" if "unat b < unat (m_mem_end a) \<or> unat (m_mem_end a) + unat n div 8 + 8 \<le> unat b" for b
    unfolding m1_def using that assms(2) q by (intro fill_outside) (auto simp: s)
  ultimately show "\<exists>m1. bitset_clear s m = Inr m1 \<and> (\<forall>i < unat n. \<not> bits m1 s i) \<and>
      (\<forall>b. unat b < unat (m_mem_end a) \<or> unat (m_mem_end a) + unat n div 8 + 8 \<le> unat b \<longrightarrow> m1 b = m b)" using run by blast
qed

text \<open>The memory of a set, and that its bits depend on nothing else.\<close>

definition set_end :: "dynamic_bitset \<Rightarrow> nat" where
  "set_end s = unat (m_set s) + unat (m_bitcount s) div 8"

lemma bits_below:
  assumes "\<And>b. unat b < set_end s \<Longrightarrow> m' b = m b" "i < unat (m_bitcount s)" "64 dvd unat (m_bitcount s)" "set_end s \<le> 2 ^ 64"
  shows "bits m' s i = bits m s i"
proof -
  obtain q where q: "unat (m_bitcount s) = 64 * q" using assms(3) by (auto elim: dvdE)
  let ?j = "i div 64"
  have j: "?j < q" using assms(2) q by (simp add: div_less_iff_less_mult mult.commute)
  have "m' (m_set s + 8 * of_nat ?j + of_nat t) = m (m_set s + 8 * of_nat ?j + of_nat t)" if t: "t < 8" for t
  proof (rule assms(1))
    have "unat (m_set s) + (8 * ?j + t) < set_end s" using j t q by (simp add: set_end_def)
    moreover from this have "unat (of_nat (unat (m_set s) + (8 * ?j + t)) :: u64) = unat (m_set s) + (8 * ?j + t)"
      using assms(4) by (intro unat_of_nat_u64) simp
    ultimately show "unat (m_set s + 8 * of_nat ?j + of_nat t) < set_end s"
      by (simp only: of_nat_add of_nat_mult word_of_unat of_nat_numeral add.assoc)
  qed
  then have "word_at m' s (of_nat ?j) = word_at m s (of_nat ?j)" unfolding word_at_def by (rule load64_cong)
  then show ?thesis by (simp add: bits_def)
qed

lemma apart_ordered:
  assumes "set_end s \<le> unat (m_set t)" "set_end t + 8 \<le> 2 ^ 64" "64 dvd unat (m_bitcount s)" "64 dvd unat (m_bitcount t)"
  shows "apart s t" "apart t s"
proof -
  obtain p q where pq: "unat (m_bitcount s) = 64 * p" "unat (m_bitcount t) = 64 * q" using assms(3,4) by (auto elim!: dvdE)
  have "disjoint64 (m_set s + 8 * of_nat i) (m_set t + 8 * of_nat j)" if "i < p" "j < q" for i j
  proof (rule disjoint64_nat)
    have u: "unat (m_set s + 8 * of_nat i) = unat (m_set s) + 8 * i" "unat (m_set t + 8 * of_nat j) = unat (m_set t) + 8 * j"
      using that assms(1,2) pq by (auto intro!: cell_no_wrap simp: set_end_def)
    show "unat (m_set s + 8 * of_nat i) + 8 \<le> unat (m_set t + 8 * of_nat j) \<or>
        unat (m_set t + 8 * of_nat j) + 8 \<le> unat (m_set s + 8 * of_nat i)"
      "unat (m_set s + 8 * of_nat i) + 8 \<le> 2 ^ 64" "unat (m_set t + 8 * of_nat j) + 8 \<le> 2 ^ 64"
      using that assms(1,2) pq unfolding u by (auto simp: set_end_def)
  qed
  then show "apart s t" "apart t s"
    using pq by (auto simp: apart_def words_below_def disjoint64_sym)
qed

text \<open>The whole loop: cleared sets one behind the other, from the old mark of the allocator to the new one.\<close>

definition sets_placed :: "dynamic_bitset list \<Rightarrow> nat \<Rightarrow> nat \<Rightarrow> mem \<Rightarrow> bool" where
  "sets_placed ss lo hi m \<longleftrightarrow> lo \<le> hi \<and>
     (\<forall>j < length ss. lo \<le> unat (m_set (ss ! j)) \<and> set_end (ss ! j) \<le> hi \<and>
        (\<forall>i < unat (m_bitcount (ss ! j)). \<not> bits m (ss ! j) i)) \<and>
     (\<forall>j < length ss. \<forall>k < j. set_end (ss ! k) \<le> unat (m_set (ss ! j)))"

lemma sets_placed_Cons:
  assumes "sets_placed ss (set_end s) hi m" "\<And>i. i < unat (m_bitcount s) \<Longrightarrow> \<not> bits m s i" "lo = unat (m_set s)"
  shows "sets_placed (s # ss) lo hi m"
proof -
  have "lo \<le> set_end s" using assms(3) by (simp add: set_end_def)
  then have each: "lo \<le> unat (m_set ((s # ss) ! j)) \<and> set_end ((s # ss) ! j) \<le> hi \<and>
      (\<forall>i < unat (m_bitcount ((s # ss) ! j)). \<not> bits m ((s # ss) ! j) i)" if "j < length (s # ss)" for j
    using that assms by (cases j) (auto simp: sets_placed_def)
  have order: "set_end ((s # ss) ! k) \<le> unat (m_set ((s # ss) ! j))" if "j < length (s # ss)" "k < j" for j k
    using that assms(1) by (cases j; cases k) (auto simp: sets_placed_def)
  have "lo \<le> hi" using \<open>lo \<le> set_end s\<close> assms(1) by (simp add: sets_placed_def)
  then show ?thesis unfolding sets_placed_def using each order by blast
qed

lemma unat_drop: "unat (drop_bit i (w :: u64)) = unat w div 2 ^ i"
  by (subst unat_drop_bit_eq) (rule drop_bit_eq_div)

lemma buddy_sets_spec:
  assumes "\<And>i. i \<in> set is \<Longrightarrow> 64 dvd unat (drop_bit i pc)" "unat pc \<le> 2 ^ 63"
    "unat (m_mem_end a) + length is * (unat pc div 8) + 8 \<le> 2 ^ 64"
  shows "\<exists>ss a' m'. buddy_sets is pc (a, m) = Inr (ss, a', m') \<and> map m_bitcount ss = map (\<lambda>i. drop_bit i pc) is \<and>
    sets_placed ss (unat (m_mem_end a)) (unat (m_mem_end a')) m' \<and>
    unat (m_mem_end a') = unat (m_mem_end a) + (\<Sum>i\<leftarrow>is. unat (drop_bit i pc) div 8) \<and>
    (\<forall>j < length is. unat (m_set (ss ! j)) = unat (m_mem_end a) + (\<Sum>i\<leftarrow>take j is. unat (drop_bit i pc) div 8)) \<and>
    unat (m_mem_end a') \<le> unat (m_mem_end a) + length is * (unat pc div 8) \<and>
    (\<forall>b. unat b < unat (m_mem_end a) \<or> unat (m_mem_end a') + 8 \<le> unat b \<longrightarrow> m' b = m b)"
  using assms(1,3)
proof (induction "is" arbitrary: a m)
  case Nil
  then show ?case by (simp add: sets_placed_def)
next
  case (Cons i "is")
  let ?n = "drop_bit i pc"
  have n: "unat ?n \<le> unat pc" by (simp add: unat_drop)
  then have n8: "unat ?n div 8 \<le> unat pc div 8" by (rule div_le_mono)
  obtain s a1 where new: "dynamic_bitset_new DumbAllocator_alloc ?n a = (s, a1)" by fastforce
  have dvd: "64 dvd unat ?n" using Cons.prems(1) by simp
  have fit: "unat (m_mem_end a) + unat ?n div 8 + 8 \<le> 2 ^ 64" using Cons.prems(2) n8 by simp
  have small: "unat ?n \<le> 2 ^ 63" using n assms(2) by simp
  note one = buddy_set_new [OF dvd fit small new]
  obtain m1 where m1: "bitset_clear s m = Inr m1" "\<And>i. i < unat ?n \<Longrightarrow> \<not> bits m1 s i"
    "\<And>b. unat b < unat (m_mem_end a) \<or> unat (m_mem_end a) + unat ?n div 8 + 8 \<le> unat b \<Longrightarrow> m1 b = m b" using one(3) by blast
  have mark: "unat (m_mem_end a1) = set_end s" using one(1,2) by (simp add: set_end_def)
  have le: "unat (m_mem_end a1) \<le> unat (m_mem_end a) + unat pc div 8" using one(2) n8 by linarith
  have room: "unat (m_mem_end a1) + length is * (unat pc div 8) + 8 \<le> 2 ^ 64" using Cons.prems(2) le by simp
  have whole: "64 dvd unat (drop_bit j pc)" if "j \<in> set is" for j using Cons.prems(1) that by simp
  obtain ss a' m' where rest: "buddy_sets is pc (a1, m1) = Inr (ss, a', m')"
    "map m_bitcount ss = map (\<lambda>i. drop_bit i pc) is" "sets_placed ss (unat (m_mem_end a1)) (unat (m_mem_end a')) m'"
    "unat (m_mem_end a') = unat (m_mem_end a1) + (\<Sum>i\<leftarrow>is. unat (drop_bit i pc) div 8)"
    "\<And>j. j < length is \<Longrightarrow> unat (m_set (ss ! j)) = unat (m_mem_end a1) + (\<Sum>i\<leftarrow>take j is. unat (drop_bit i pc) div 8)"
    "unat (m_mem_end a') \<le> unat (m_mem_end a1) + length is * (unat pc div 8)"
    "\<And>b. unat b < unat (m_mem_end a1) \<or> unat (m_mem_end a') + 8 \<le> unat b \<Longrightarrow> m' b = m1 b"
    using Cons.IH [OF whole room, of m1] by blast
  have run: "buddy_sets (i # is) pc (a, m) = Inr (s # ss, a', m')" by (simp add: new m1(1) rest(1))
  have "set_end s \<le> 2 ^ 64" using unat_u64_less [of "m_mem_end a1"] by (simp add: mark [symmetric] less_imp_le)
  then have "\<not> bits m' s j" if "j < unat (m_bitcount s)" for j
    using that bits_below [of s m' m1 j] rest(7) m1(2) [of j] dvd by (simp add: mark one(1))
  then have placed: "sets_placed (s # ss) (unat (m_mem_end a)) (unat (m_mem_end a')) m'"
    using rest(3) by (intro sets_placed_Cons) (simp_all add: mark one(1))
  have frame: "m' b = m b" if "unat b < unat (m_mem_end a) \<or> unat (m_mem_end a') + 8 \<le> unat b" for b
  proof -
    have "unat b < unat (m_mem_end a1) \<or> unat (m_mem_end a') + 8 \<le> unat b"
      "unat b < unat (m_mem_end a) \<or> unat (m_mem_end a) + unat ?n div 8 + 8 \<le> unat b"
      using that one(2) rest(4) by auto
    then show ?thesis using rest(7) [of b] m1(3) [of b] by simp
  qed
  have at: "unat (m_set ((s # ss) ! j)) = unat (m_mem_end a) + (\<Sum>i\<leftarrow>take j (i # is). unat (drop_bit i pc) div 8)"
    if "j < length (i # is)" for j
    using that rest(5) [of "j - 1"] one(1,2) by (cases j) auto
  have total: "unat (m_mem_end a') = unat (m_mem_end a) + (\<Sum>i\<leftarrow>i # is. unat (drop_bit i pc) div 8)"
    using rest(4) one(2) by simp
  have "unat (m_mem_end a') \<le> unat (m_mem_end a) + length (i # is) * (unat pc div 8)" using rest(6) le by simp
  moreover have "map m_bitcount (s # ss) = map (\<lambda>i. drop_bit i pc) (i # is)" using rest(2) one(1) by simp
  ultimately show ?case using run placed total at frame by blast
qed

text \<open>A number of pages that fills whole words in every order.\<close>

lemma buddy_dvd:
  fixes n :: nat
  assumes "64 * 2 ^ (N - 1) dvd n" "j < N"
  shows "64 dvd n div 2 ^ j" "n div 2 ^ j * 2 ^ j = n"
proof -
  obtain c where c: "n = 64 * 2 ^ (N - 1) * c" using assms(1) by (elim dvdE)
  have "(2 :: nat) ^ (N - 1) = 2 ^ j * 2 ^ (N - 1 - j)" using assms(2) by (simp flip: power_add)
  then have n: "n = 64 * (2 ^ (N - 1 - j) * c) * 2 ^ j" using c by (simp only: mult_ac)
  then have "n div 2 ^ j = 64 * (2 ^ (N - 1 - j) * c)" by (simp only: nonzero_mult_div_cancel_right [OF power_not_zero [OF zero_neq_numeral [symmetric]]])
  then show "64 dvd n div 2 ^ j" "n div 2 ^ j * 2 ^ j = n" using n by (simp_all only: dvd_triv_left)
qed

lemma buddy_new_ok:
  assumes "64 * 2 ^ (N - 1) dvd unat pc" "0 < unat pc" "unat pc \<le> 2 ^ 63" "0 < N"
    "unat (m_mem_end a) + N * (unat pc div 8) + 8 \<le> 2 ^ 64"
  obtains b a' m' where "BuddyAllocator_new N pc kb (a, m) = Inr (b, a', m')" "buddy_ok b" "length (m_sets b) = N"
    "\<And>j. j < N \<Longrightarrow> m_head (m_page_lists b ! j) = 0 \<and> m_bitcount (m_sets b ! j) = drop_bit j pc"
    "\<And>j. j < N \<Longrightarrow> unat (m_set (m_sets b ! j)) = unat (m_mem_end a) + (\<Sum>k<j. unat pc div 2 ^ k div 8)"
    "unat (m_mem_end a') = unat (m_mem_end a) + (\<Sum>k<N. unat pc div 2 ^ k div 8)"
    "\<And>j i. j < N \<Longrightarrow> i < unat (m_bitcount (m_sets b ! j)) \<Longrightarrow> \<not> bits m' (m_sets b ! j) i"
    "m_mem_start b = PAGE_ROUND_UP (m_mem_end a')" "b_page_count b = pc - drop_bit 12 (m_mem_start b)"
    "\<And>c. unat c < unat (m_mem_end a) \<or> unat (m_mem_end a') + 8 \<le> unat c \<Longrightarrow> m' c = m c"
proof -
  have u: "unat (drop_bit j pc) = unat pc div 2 ^ j" for j by (rule unat_drop)
  have dvd: "64 dvd unat (drop_bit j pc)" if "j \<in> set [0..<N]" for j using buddy_dvd(1) [OF assms(1)] that by (simp add: u)
  have fit: "unat (m_mem_end a) + length [0..<N] * (unat pc div 8) + 8 \<le> 2 ^ 64" using assms(5) by simp
  obtain ss a' m' where sets: "buddy_sets [0..<N] pc (a, m) = Inr (ss, a', m')" "map m_bitcount ss = map (\<lambda>i. drop_bit i pc) [0..<N]"
    "sets_placed ss (unat (m_mem_end a)) (unat (m_mem_end a')) m'" "unat (m_mem_end a') \<le> unat (m_mem_end a) + length [0..<N] * (unat pc div 8)"
    "\<And>b. unat b < unat (m_mem_end a) \<or> unat (m_mem_end a') + 8 \<le> unat b \<Longrightarrow> m' b = m b"
    "unat (m_mem_end a') = unat (m_mem_end a) + (\<Sum>i\<leftarrow>[0..<N]. unat (drop_bit i pc) div 8)"
    "\<And>j. j < length [0..<N] \<Longrightarrow> unat (m_set (ss ! j)) = unat (m_mem_end a) + (\<Sum>i\<leftarrow>take j [0..<N]. unat (drop_bit i pc) div 8)"
    using buddy_sets_spec [OF dvd assms(3) fit] by (metis (no_types, lifting))
  have sum: "(\<Sum>i\<leftarrow>[0..<j]. unat (drop_bit i pc) div 8) = (\<Sum>k<j. unat pc div 2 ^ k div 8)" for j
    by (simp add: interv_sum_list_conv_sum_set_nat u atLeast0LessThan)
  have at: "unat (m_set (ss ! j)) = unat (m_mem_end a) + (\<Sum>k<j. unat pc div 2 ^ k div 8)" if "j < N" for j
    using sets(7) [of j] that sum [of j] by (simp add: take_upt)
  have len: "length ss = N" using arg_cong [OF sets(2), of length] by simp
  have cnt: "m_bitcount (ss ! j) = drop_bit j pc" if "j < N" for j
    using arg_cong [OF sets(2), of "\<lambda>xs. xs ! j"] that len by simp
  have ends: "set_end (ss ! j) + 8 \<le> 2 ^ 64" if "j < N" for j
  proof -
    have "set_end (ss ! j) \<le> unat (m_mem_end a')" using sets(3) that len by (simp add: sets_placed_def)
    then show ?thesis using sets(4) assms(5) by simp
  qed
  have d: "64 dvd unat (m_bitcount (ss ! j))" if "j < N" for j using dvd that by (simp add: cnt)
  have "apart (ss ! i) (ss ! j)" if "i < N" "j < N" "i \<noteq> j" for i j
  proof (cases "i < j")
    case True
    then have "set_end (ss ! i) \<le> unat (m_set (ss ! j))" using sets(3) that len by (simp add: sets_placed_def)
    then show ?thesis using ends d that by (intro apart_ordered(1)) auto
  next
    case False
    then have "set_end (ss ! j) \<le> unat (m_set (ss ! i))" using sets(3) that len by (simp add: sets_placed_def)
    then show ?thesis using ends d that by (intro apart_ordered(2)) auto
  qed
  moreover have "unat pc div 2 ^ j \<le> 2 ^ 63" for j
    using order_trans [OF div_le_dividend assms(3)] .
  moreover have "0 < unat pc div 2 ^ j" if "j < N" for j using buddy_dvd(2) [OF assms(1) that] assms(2) by (metis mult_eq_0_iff neq0_conv)
  moreover define b where "b = \<lparr>m_sets = ss, b_page_count = pc - drop_bit 12 (PAGE_ROUND_UP (m_mem_end a')),
    m_page_lists = replicate N \<lparr>m_head = 0, m_tail = 0\<rparr>, m_mem_start = PAGE_ROUND_UP (m_mem_end a')\<rparr>"
  ultimately have "buddy_ok b" using len d buddy_dvd(2) [OF assms(1)] assms(4) by (simp add: buddy_ok_def Let_def cnt u)
  moreover have "BuddyAllocator_new N pc kb (a, m) = Inr (b, a', m')"
    by (simp add: BuddyAllocator_new_def sets(1) Let_def DumbAllocator_mem_end_def b_def)
  ultimately show thesis
    using sets(3,5,6) len cnt at sum [of N] by (intro that [of b a' m']) (simp_all add: b_def sets_placed_def)
qed

section \<open>Claims\<close>

text \<open>
  C25: The constructor, for a number of pages that fills whole words in every order (a positive multiple of \<open>64 * 2 ^ (N - 1)\<close>,
  at most \<open>2 ^ 63\<close>), wherever the \<open>N\<close> bitsets and one word behind them fit below the end of the address space, the higher half
  included. It returns a well-formed allocator with \<open>N\<close> bitsets of \<open>pc >> j\<close> bits, one behind the other without a gap from the
  old mark of the bump allocator on, which moves to the end of the last one; every bit is clear and every list empty; managed
  memory starts at the page boundary behind the bitsets, and the page number of this address is what is taken off the number
  of pages. No memory below the old mark has changed, and none from 8 bytes behind the new mark on: the word too many
  that clearing a set writes stays in memory that is cleared or allocated later.
\<close>

theorem buddy_new_ready:
  assumes "64 * 2 ^ (N - 1) dvd unat pc" "0 < unat pc" "unat pc \<le> 2 ^ 63" "0 < N"
    "unat (m_mem_end a) + N * (unat pc div 8) + 8 \<le> 2 ^ 64"
  shows "\<exists>b a' m'. BuddyAllocator_new N pc kb (a, m) = Inr (b, a', m') \<and> buddy_ok b \<and> length (m_sets b) = N \<and>
    (\<forall>j < N. m_head (m_page_lists b ! j) = 0 \<and> m_bitcount (m_sets b ! j) = drop_bit j pc \<and>
      unat (m_set (m_sets b ! j)) = unat (m_mem_end a) + (\<Sum>k<j. unat pc div 2 ^ k div 8) \<and>
      (\<forall>i < unat (m_bitcount (m_sets b ! j)). \<not> bits m' (m_sets b ! j) i)) \<and>
    unat (m_mem_end a') = unat (m_mem_end a) + (\<Sum>k<N. unat pc div 2 ^ k div 8) \<and>
    m_mem_start b = PAGE_ROUND_UP (m_mem_end a') \<and> b_page_count b = pc - drop_bit 12 (m_mem_start b) \<and>
    (\<forall>c. unat c < unat (m_mem_end a) \<or> unat (m_mem_end a') + 8 \<le> unat c \<longrightarrow> m' c = m c)"
  by (rule buddy_new_ok [OF assms, of kb m]) blast

theorem buddy_new_ready_witness:
  "\<exists>b a' m'. BuddyAllocator_new 2 128 0 (\<lparr>m_mem_end = 0xFFFFFFFF80200000\<rparr>, \<lambda>_. 255) = Inr (b, a', m') \<and> buddy_ok b \<and>
     \<not> bits m' (m_sets b ! 1) 63 \<and> m_set (m_sets b ! 1) = 0xFFFFFFFF80200010 \<and> m_mem_end a' = 0xFFFFFFFF80200018"
proof -
  have "64 * 2 ^ (2 - 1) dvd unat (128 :: u64)" "0 < unat (128 :: u64)" "unat (128 :: u64) \<le> 2 ^ 63" "(0 :: nat) < 2"
    "unat (m_mem_end \<lparr>m_mem_end = 0xFFFFFFFF80200000\<rparr>) + 2 * (unat (128 :: u64) div 8) + 8 \<le> 2 ^ 64" by simp_all
  from buddy_new_ready [OF this, where kb = 0 and m = "\<lambda>_. 255"]
  obtain b a' m' where b: "BuddyAllocator_new 2 128 0 (\<lparr>m_mem_end = 0xFFFFFFFF80200000\<rparr>, \<lambda>_. 255) = Inr (b, a', m')" "buddy_ok b"
    "\<And>j. j < 2 \<Longrightarrow> m_bitcount (m_sets b ! j) = drop_bit j 128"
    "\<And>j. j < 2 \<Longrightarrow> unat (m_set (m_sets b ! j)) = 0xFFFFFFFF80200000 + (\<Sum>k<j. 128 div 2 ^ k div 8)"
    "unat (m_mem_end a') = 0xFFFFFFFF80200000 + (\<Sum>k<2. 128 div 2 ^ k div 8)"
    "\<And>j i. j < 2 \<Longrightarrow> i < unat (m_bitcount (m_sets b ! j)) \<Longrightarrow> \<not> bits m' (m_sets b ! j) i"
    by auto
  have "m_bitcount (m_sets b ! 1) = 64" using b(3) [of 1] by simp
  then have "\<not> bits m' (m_sets b ! 1) 63" using b(6) [of 1 63] by simp
  moreover have "m_set (m_sets b ! 1) = 0xFFFFFFFF80200010" "m_mem_end a' = 0xFFFFFFFF80200018"
    using b(4) [of 1] b(5) by (simp_all add: word_unat_eq_iff lessThan_Suc numeral_2_eq_2 [THEN arg_cong [of _ _ lessThan]])
  ultimately show ?thesis using b(1,2) by blast
qed

text \<open>
  C37: On a well-formed allocator whose list of the order is empty, \<open>alloc\<close> takes the first free block of the order:
  it returns its address, marks it in its order and the blocks that contain it in the higher ones, and changes no other
  bit, in particular none of a lower order; with no free block it returns null and changes nothing.
\<close>

theorem buddy_alloc_takes_first:
  assumes "buddy_ok b" "order < length (m_sets b)" "m_head (m_page_lists b ! order) = 0"
  shows "if \<exists>i < unat (m_bitcount (m_sets b ! order)). \<not> bits m (m_sets b ! order) i
    then \<exists>p m'. buddy_alloc order (b, m) = Inr (m_mem_start b + push_bit (order + 12) p, b, m')
      \<and> unat p < unat (m_bitcount (m_sets b ! order))
      \<and> \<not> bits m (m_sets b ! order) (unat p) \<and> (\<forall>i < unat p. bits m (m_sets b ! order) i)
      \<and> (\<forall>j < length (m_sets b). \<forall>i < unat (m_bitcount (m_sets b ! j)).
          bits m' (m_sets b ! j) i \<longleftrightarrow> bits m (m_sets b ! j) i \<or> order \<le> j \<and> i = unat p div 2 ^ (j - order))
    else buddy_alloc order (b, m) = Inr (0, b, m)"
  by (rule buddy_alloc_empty [OF assms])

definition buddy2 :: buddy where
  "buddy2 = \<lparr>m_sets = [\<lparr>m_set = 0x1000, m_bitcount = 128\<rparr>, \<lparr>m_set = 0x2000, m_bitcount = 64\<rparr>],
     b_page_count = 125, m_page_lists = replicate 2 \<lparr>m_head = 0, m_tail = 0\<rparr>, m_mem_start = 0x3000\<rparr>"

lemma buddy2_ok: "buddy_ok buddy2"
proof -
  have two: "(\<forall>j < 2. P j) \<longleftrightarrow> P 0 \<and> P 1" for P :: "nat \<Rightarrow> bool" by (auto simp: less_2_cases_iff)
  have "length (m_sets buddy2) = 2" by (simp add: buddy2_def)
  then show ?thesis
    by (simp add: buddy_ok_def two) (simp add: buddy2_def apart_def words_below_def two disjoint64_def word_le_nat_alt)
qed

theorem buddy_alloc_takes_first_witness:
  "\<exists>p m'. buddy_alloc 1 (buddy2, \<lambda>_. 0) = Inr (0x3000 + push_bit 13 p, buddy2, m') \<and> unat p < 64"
proof -
  have "\<exists>i < unat (m_bitcount (m_sets buddy2 ! 1)). \<not> bits (\<lambda>_. 0) (m_sets buddy2 ! 1) i"
    by (rule exI [of _ 0]) (simp add: buddy2_def)
  then show ?thesis
    using buddy_alloc_takes_first [OF buddy2_ok, of 1 "\<lambda>_. 0"] by (auto simp: buddy2_def)
qed

text \<open>
  C38: Blocks of different orders may overlap: since \<open>alloc\<close> marks no lower order, on an allocator with free
  first blocks a block of any order \<open>k > 0\<close> and the page allocated right after it have the same address.
\<close>

theorem buddy_alloc_overlaps:
  assumes "buddy_ok b" "0 < k" "k < length (m_sets b)"
    and "m_head (m_page_lists b ! 0) = 0" "m_head (m_page_lists b ! k) = 0"
    and "\<not> bits m (m_sets b ! 0) 0" "\<not> bits m (m_sets b ! k) 0"
  shows "\<exists>m1 m2. buddy_alloc k (b, m) = Inr (m_mem_start b, b, m1)
    \<and> buddy_alloc 0 (b, m1) = Inr (m_mem_start b, b, m2)"
proof -
  have N: "0 < length (m_sets b)" using assms(3) by linarith
  obtain m1 where m1: "buddy_alloc k (b, m) = Inr (m_mem_start b, b, m1)"
    "\<And>j i. j < k \<Longrightarrow> i < unat (m_bitcount (m_sets b ! j)) \<Longrightarrow> bits m1 (m_sets b ! j) i \<longleftrightarrow> bits m (m_sets b ! j) i"
    using buddy_alloc_fresh [OF assms(1,3,5,7)] by blast
  have "\<not> bits m1 (m_sets b ! 0) 0" using m1(2) [OF assms(2) buddy_okD(2) [OF assms(1) N]] assms(6) by simp
  then show ?thesis using buddy_alloc_fresh [OF assms(1) N assms(4)] m1(1) by metis
qed

theorem buddy_alloc_overlaps_witness:
  "\<exists>m1 m2. buddy_alloc 1 (buddy2, \<lambda>_. 0) = Inr (0x3000, buddy2, m1)
    \<and> buddy_alloc 0 (buddy2, m1) = Inr (0x3000, buddy2, m2)"
  using buddy_alloc_overlaps [OF buddy2_ok, of 1 "\<lambda>_. 0"] by (simp add: buddy2_def)

end
