(* ===== verification/Spec2Isabelle.thy ===== *)
theory Spec2Isabelle
  imports MapPage Interleave Preempt Singleton DList Buddy
begin

text \<open>
  Verification of the yuv_os kernel (src/kernel), a small C++ kernel for x86-64.

  \<^bold>\<open>The program.\<close> The boot code (boot/boot.s) builds the page tables, enters long mode, runs the
  constructors of the console and the serial port and calls \<open>kernel_main\<close> (kernel.cpp), which loads the descriptor tables
  (memory/gdt, interrupts/interrupts), remaps the interrupt controllers and starts the timer (interrupts/pic),
  reads the boot information (multiboot), greets on the text screen (utils/video), tests the serial port
  (utils/serial), sets up the page allocator (memory/paging on utils/datastructs/dynamic_bitset, whose memory comes
  from memory/dumb_allocator) and sends a report. From then on the timer and keyboard handlers
  (interrupts/irq_handlers) run. Screen and serial port share the formatter \<open>vprintf\<close> (utils/printf).

  \<^bold>\<open>Conventions.\<close> Machine integers are words of their width; a signed \<open>int\<close> is an integer whose
  overflow is an error. An object is a record that the operations take and return; memory is a function from 64-bit
  addresses to bytes (\<open>Memory\<close>), with 32- and 64-bit little-endian access. A result is \<open>Inr\<close> of a value or
  \<open>Inl\<close> of a fault: \<open>Panic\<close> (a failed \<open>YUV_ASSERT\<close>), \<open>Undefined\<close> (undefined behaviour of C++) or
  \<open>Diverges\<close> (a loop that does not end). Where the state in which \<open>kernel_panic\<close> stops matters (the exception handlers), the
  value is an \<open>outcome\<close>: \<open>Returned\<close>, or \<open>Halted\<close> with the message and that state. Singletons and globals are fields of the records that hold the state
  of their component (\<open>Singleton\<close> shows why that is the same). Port I/O goes to a bus, a parameter: a state with a read and a write function.

  \<^bold>\<open>Theories.\<close>
    \<^item> \<open>Prelude\<close>: word types, faults, results, \<open>ROUND_UP\<close>, shared lemmas and rewrite collections.
    \<^item> \<open>Memory\<close>: bytes, 32- and 64-bit loads and stores, separation of words.
    \<^item> \<open>DumbAlloc\<close>: \<open>DumbAllocator\<close>. Locale \<open>allocator\<close> (blocks of a bump allocator are disjoint), interpreted on it.
    \<^item> \<open>Bitset\<close>: \<open>dynamic_bitset\<close> with its proxy references. Locale \<open>bit_vector\<close> (find the first clear bit and
      mark it), interpreted on the bitset in memory.
    \<^item> \<open>PageAlloc\<close>: \<open>BitSetPageAllocator\<close>, \<open>PageAllocator\<close>, \<open>paging_init\<close>. The relation \<open>page_run\<close> of client runs and the
      locale \<open>page_source\<close>, interpreted on both allocators; the invariants of runs are proved in the locale.
    \<^item> \<open>PageList\<close>: \<open>PageList\<close>, links kept in the pages. Locale \<open>lifo\<close>, interpreted on it.
    \<^item> \<open>Buddy\<close>: \<open>BuddyAllocator\<close>, its constructor and \<open>alloc\<close>, for any number of orders.
    \<^item> \<open>Packed\<close>, \<open>PageTables\<close>, \<open>Gdt\<close>, \<open>Interrupts\<close>: locale \<open>packed_struct\<close> (fields and word determine each other), interpreted
      on the four page-table entries, segment descriptors and gates; the constructors, \<open>init_gdt\<close>, \<open>init_interrupts\<close>
      and \<open>timer_phase\<close>.
    \<^item> \<open>Irq\<close>: the vectors \<open>irq_num\<close> with their numbers, ordered by them.
    \<^item> \<open>PortIO\<close>, \<open>Serial\<close>, \<open>Pic\<close>: \<open>inb\<close> and \<open>outb\<close>, \<open>SerialPort\<close> and the controllers' driver.
    \<^item> \<open>Printf\<close>, \<open>Vprintf\<close>: \<open>itos\<close>, \<open>utos\<close>, \<open>itox\<close>, \<open>itob\<close> with their 128-byte buffers, the numerals they are to print and
      strict readers of these, and \<open>vprintf\<close>. Locale \<open>printer\<close> (a sink
      whose string output is its character output), interpreted on a collecting sink, the console and the serial port:
      every printer gets the string \<open>vformat\<close> that the collecting one gets.
    \<^item> \<open>Format\<close>: the text a format means (\<open>format_text\<close>), defined by its literals and conversions without the code of the kernel, and
      that \<open>vprintf\<close> produces it.
    \<^item> \<open>Video\<close>: \<open>Video\<close> on the VGA memory and the ring of columns, with the abstract \<open>screen\<close> it refines.
    \<^item> \<open>Diagnostics\<close>, \<open>Handlers\<close>: \<open>kernel_panic\<close>, \<open>INFO\<close>, \<open>debug_pos\<close>; the exception, timer and keyboard handlers,
      with the state in which an exception handler stops.
    \<^item> \<open>Multiboot\<close>: the header of the kernel image and the constructor of \<open>boot_info\<close>.
    \<^item> \<open>CString\<close>: utils/string and utils/algorithm.h. \<open>Cxxabi\<close>: icxxabi.cpp. \<open>DList\<close>: the intrusive lists. \<open>Singleton\<close>: \<open>getInstance\<close>
      with its guard and the registration of the destructor, and \<open>__cxa_finalize\<close> at the end of the kernel.
    \<^item> \<open>Kernel\<close>: \<open>kernel_main\<close> as the composition of all of these. \<open>Events\<close>: the running system as a step relation
      (printing, interrupt requests, handlers) with its invariants by rule induction.
    \<^item> \<open>Dispatch\<close>: the same system with interrupts dispatched only as the controllers allow, by priority and mask; its steps
      are steps of \<open>Events\<close>, and on fair runs requests are served. \<open>Preempt\<close>: key presses between the
      statements of \<open>putc\<close> and \<open>new_line\<close>. \<open>Interleave\<close>: the serial output as single port accesses, with handlers between any two.
    \<^item> \<open>BootPaging\<close>: the processor's page walk and the tables boot.s builds and prunes. \<open>Boot\<close>: boot.s from \<open>_start\<close> to the
      return of \<open>kernel_main\<close>, the composition of the whole start-up, and the halted system that serves interrupts.
      \<open>MapPage\<close>: page tables made with the constructors, index macros, \<open>PZ\<close> and \<open>_load_cr3\<close> of memory/paging, against the page walk.

  \<^bold>\<open>What is shown.\<close> Start-up: from the machine the boot loader leaves, the boot code reaches long mode, the page walk maps
  exactly the gigabyte at \<open>KERNEL_VIRTUAL_BASE\<close> on physical memory, and \<open>kernel_main\<close> returns with everything set up and exactly
  the report sent; with a port that failed its test, on any bus, it returns -1 and sends nothing. Running: console and controllers stay in order in every reachable state,
  the requests of timer and keyboard are served on fair runs, from power-on too, and interrupts neither change nor stop the serial output. Memory: no page is handed out
  twice, the bitmap accounts for the pages, allocation fails only when it is full. Output: the console refines the
  abstract screen and never leaves its memory, whatever is written or formatted; what \<open>printf\<close> shows is the text the format means; the serial port sends exactly the
  formatted bytes and returns exactly if
  the transmitter becomes empty; numbers are printed as their numerals; the exception handlers send the frame and their line before they stop.
  Descriptors: the words the processor reads, bit by bit, and for page tables
  the translation that follows from them.
  Further lemmas state the behaviour on every branch of the remaining operations, and where the code
  falls short of its intent the exact condition (for instance pages beyond the page count or the mapped
  gigabyte, overlapping buddy blocks, the interrupt mask after the end of an interrupt, the first multiboot tag, a key press at
  the right margin).

  \<^bold>\<open>Parameters and hypotheses.\<close> Hardware is a parameter with its documented behaviour as a hypothesis on a view of the bus
  state: \<open>uart_at\<close> (a 16550 UART at a port base), \<open>uart_drains\<close> (its transmitter empties in bounded time),
  \<open>pics_at\<close> (the two 8259 controllers), \<open>pit_at\<close> (the timer);
  \<open>uart_bus\<close>, \<open>pics_bus\<close>, \<open>pit_bus\<close> and \<open>boot_bus\<close> are instances; \<open>dead_bus\<close> has no UART. The processor's translation of addresses is
  \<open>page_walk\<close>, on the bits of the address and of the entries, without a macro of the kernel.
  Fairness of runs (\<open>weakly_fair\<close>, \<open>strongly_fair\<close>) is a hypothesis on the processor. The values C++ leaves open (uninitialised bit
  fields and members, the upper halves of variadic slots), the addresses of the handlers and of the boot
  information are arguments. The destructors that \<open>__cxa_finalize\<close> calls are a function; the lemmas about them assume
  that they leave the table alone.

  \<^bold>\<open>Loops.\<close> No fuel is used. Loops that may run forever (scans of the bitset, the wait for the UART, the multiboot
  tags, \<open>strlen\<close>) are partial functions, \<open>None\<close> if they do not end, and the lemmas prove that they return or exactly
  when they do. The bitset lemmas assume a size up to \<open>2 ^ 64 - 64\<close>, beyond which the word index of the loops wraps around; the
  lemmas on widths assume at most 125 digits, which is what the buffers hold. The constructor of the buddy allocator is covered
  wherever its bitsets fit below the end of the address space.

  \<^bold>\<open>Not modelled.\<close> Of boot.s: the stack, the translation cache, the variables that hold the table pointers and the flags
  \<open>_reload_segments\<close> clears; crti.s, crtn.s and the linker script (their addresses are arguments); the multiboot tags the kernel
  does not read (declarations only); mem.h (a placement \<open>new\<close> is an assignment to the object); build files. Interrupts are modelled
  after the start-up, during the serial output and inside \<open>putc\<close>; the sequential run of \<open>kernel_main\<close> itself is without them. The lines
  from 2 on, which the first tick unmasks, have no handler and are not requested.
\<close>

end
